(* ===== verification/Prelude.thy ===== *)
theory Prelude
  imports Main "HOL-Library.Word" "HOL-Library.Monad_Syntax"
begin

text \<open>
  Shared vocabulary of the development: the C integer types as words, byte strings and
  C strings, byte order, the codec interfaces (a decoder undoes an encoder, so the encoder
  is injective) and the generic notion of a run of a step relation with its invariant rule.
  An outcome of type \<open>'a option\<close> is used throughout for code that may run into undefined
  behaviour of C: \<open>None\<close> is undefined behaviour, \<open>Some r\<close> a defined result.
\<close>

unbundle bit_operations_syntax

named_theorems c_mem \<open>rewriting of the explicit memory operations\<close>
named_theorems c_bytes \<open>lengths and shapes of encoded byte strings\<close>

subsection \<open>C types\<close>

type_synonym byte = "8 word"
type_synonym bytes = "8 word list"
type_synonym u32 = "32 word"
type_synonym u64 = "64 word"
type_synonym addr = nat

abbreviation SIZE_MAX :: u64 where "SIZE_MAX \<equiv> - 1"
abbreviation UINT64_MAX :: u64 where "UINT64_MAX \<equiv> - 1"
abbreviation UINT32_MAX :: u32 where "UINT32_MAX \<equiv> - 1"

lemma unat_UINT64_MAX: "unat UINT64_MAX = 18446744073709551615"
  by (simp add: unsigned_minus_1_eq_mask mask_eq_exp_minus_1)

lemma unat_UINT32_MAX: "unat UINT32_MAX = 4294967295"
  by (simp add: unsigned_minus_1_eq_mask mask_eq_exp_minus_1)

text \<open>The idiom \<open>a > MAX - b\<close> (or \<open>MAX - a < b\<close>) is exactly "the sum does not fit".\<close>

lemma no_room_iff:
  fixes a b :: "'a::len word"
  shows "(- 1 - a < b) \<longleftrightarrow> 2 ^ LENGTH('a) \<le> unat a + unat b"
proof -
  have "unat (- 1 - a) = 2 ^ LENGTH('a) - 1 - unat a"
    by (simp add: unat_sub max_word_max unsigned_minus_1_eq_mask mask_eq_exp_minus_1)
  moreover have "unat a < 2 ^ LENGTH('a)" by (rule unsigned_less)
  ultimately show ?thesis unfolding word_less_nat_alt by arith
qed

lemma unat_add_fits:
  fixes a b :: "'a::len word"
  assumes "\<not> - 1 - a < b"
  shows "unat (a + b) = unat a + unat b"
  using assms by (simp add: no_room_iff unat_word_ariths)

lemma unat_of_nat_fits: "n < 2 ^ LENGTH('a) \<Longrightarrow> unat (of_nat n :: 'a::len word) = n"
  by (simp add: unat_of_nat take_bit_nat_eq_self)

subsection \<open>Byte strings and C strings\<close>

definition bytes_of :: "string \<Rightarrow> bytes" where
  "bytes_of s = map of_char s"

lemma length_bytes_of [simp]: "length (bytes_of s) = length s"
  by (simp add: bytes_of_def)

text \<open>
  A \<open>char *\<close> is the list of bytes readable from it. \<open>strnlen\<close> stops at the first NUL or
  after \<open>n\<close> bytes; running off the readable bytes before that is undefined behaviour.
\<close>

fun strnlen :: "bytes \<Rightarrow> nat \<Rightarrow> nat option" where
  "strnlen [] n = (if n = 0 then Some 0 else None)"
| "strnlen (b # bs) n =
     (if n = 0 then Some 0
      else if b = 0 then Some 0
      else map_option Suc (strnlen bs (n - 1)))"

fun strlen :: "bytes \<Rightarrow> nat option" where
  "strlen [] = None"
| "strlen (b # bs) = (if b = 0 then Some 0 else map_option Suc (strlen bs))"

definition cstr :: "bytes \<Rightarrow> bytes" where
  "cstr bs = takeWhile (\<lambda>b. b \<noteq> 0) bs"

lemma strnlen_cstr:
  "strnlen bs n = Some k \<Longrightarrow> k = min n (length (cstr bs))"
  by (induction bs n arbitrary: k rule: strnlen.induct)
    (auto simp: cstr_def split: if_splits)

lemma length_cstr_le: "length (cstr bs) \<le> length bs"
  by (simp add: cstr_def length_takeWhile_le)

lemma strnlen_le: "strnlen bs n = Some k \<Longrightarrow> k \<le> n \<and> k \<le> length bs"
  using strnlen_cstr [of bs n k] length_cstr_le [of bs] by auto

lemma take_cstr: "take (length (cstr bs)) bs = cstr bs"
  by (simp add: cstr_def takeWhile_eq_take [symmetric])

lemma strnlen_take_cstr:
  "strnlen bs n = Some k \<Longrightarrow> k < n \<Longrightarrow> take k bs = cstr bs"
  using strnlen_cstr [of bs n k] take_cstr [of bs] by (auto simp: min_def split: if_splits)

lemma strnlen_terminated:
  "0 \<in> set bs \<Longrightarrow> strnlen bs n = Some (min n (length (cstr bs)))"
  by (induction bs n rule: strnlen.induct) (auto simp: cstr_def)

lemma strlen_cstr: "strlen bs = Some k \<Longrightarrow> k = length (cstr bs)"
  by (induction bs arbitrary: k) (auto simp: cstr_def split: if_splits)

lemma strlen_le: "strlen bs = Some k \<Longrightarrow> k < length bs"
  by (induction bs arbitrary: k) (auto split: if_splits)

lemma strlen_terminated: "0 \<in> set bs \<Longrightarrow> strlen bs = Some (length (cstr bs))"
  by (induction bs) (auto simp: cstr_def)

subsection \<open>Reading and overwriting blocks\<close>

text \<open>Reading an element outside the block is undefined.\<close>

definition nth_opt :: "'a list \<Rightarrow> nat \<Rightarrow> 'a option" where
  "nth_opt xs i = (if i < length xs then Some (xs ! i) else None)"

lemma nth_opt_in [simp]: "i < length xs \<Longrightarrow> nth_opt xs i = Some (xs ! i)"
  by (simp add: nth_opt_def)

lemma nth_opt_out [simp]: "length xs \<le> i \<Longrightarrow> nth_opt xs i = None"
  by (simp add: nth_opt_def)

definition put_slice :: "nat \<Rightarrow> 'a list \<Rightarrow> 'a list \<Rightarrow> 'a list" where
  "put_slice off xs old = take off old @ xs @ drop (off + length xs) old"

lemma length_put_slice [simp]:
  "off + length xs \<le> length old \<Longrightarrow> length (put_slice off xs old) = length old"
  by (simp add: put_slice_def)

lemma put_slice_whole: "length xs = length old \<Longrightarrow> put_slice 0 xs old = xs"
  by (simp add: put_slice_def)

lemma put_slice_append:
  "length done = off \<Longrightarrow> put_slice off xs (done @ rest) = done @ xs @ drop (length xs) rest"
  by (simp add: put_slice_def)

text \<open>A list is split in one way only around an element that occurs once.\<close>

lemma split_at_unique:
  assumes "pre @ x # post = h @ y # t" "Q x" "\<forall>z \<in> set h. \<not> Q z" "\<forall>z \<in> set t. \<not> Q z"
  shows "pre = h \<and> x = y \<and> post = t"
  using assms
proof (induction h arbitrary: pre)
  case Nil
  then show ?case by (cases pre) auto
next
  case (Cons z h)
  then show ?case by (cases pre) auto
qed

subsection \<open>Byte order\<close>

definition byte_at :: "'a::len word \<Rightarrow> nat \<Rightarrow> byte" where
  "byte_at v i = ucast (drop_bit (8 * i) v AND 0xFF)"

lemma bit_byte_at: "bit (byte_at v i) n \<longleftrightarrow> n < 8 \<and> bit v (8 * i + n)"
proof -
  have mask: "(0xFF :: 'a word) = mask 8"
    by (simp add: mask_eq_exp_minus_1)
  show ?thesis
    unfolding byte_at_def mask
    by (auto simp: bit_simps dest: bit_imp_le_length)
qed

lemma byte_at_ext:
  fixes u v :: "'a::len word"
  assumes "\<And>i. 8 * i < LENGTH('a) \<Longrightarrow> byte_at u i = byte_at v i"
  shows "u = v"
proof (rule bit_word_eqI)
  fix n assume n: "n < LENGTH('a)"
  then have "byte_at u (n div 8) = byte_at v (n div 8)"
    by (intro assms) simp
  then have "bit (byte_at u (n div 8)) (n mod 8) = bit (byte_at v (n div 8)) (n mod 8)"
    by simp
  then show "bit u n = bit v n"
    by (simp add: bit_byte_at)
qed

fun read_le :: "bytes \<Rightarrow> 'a::len word" where
  "read_le [] = 0"
| "read_le (b # bs) = ucast b OR push_bit 8 (read_le bs)"

lemma bit_read_le:
  "bit (read_le bs :: 'a::len word) n \<longleftrightarrow>
     n < LENGTH('a) \<and> n div 8 < length bs \<and> bit (bs ! (n div 8)) (n mod 8)"
proof (induction bs arbitrary: n)
  case Nil
  then show ?case by simp
next
  case (Cons b bs)
  show ?case
  proof (cases "n < 8")
    case True
    then show ?thesis by (auto simp: bit_simps)
  next
    case False
    then have "n div 8 = Suc ((n - 8) div 8)" "(n - 8) mod 8 = n mod 8"
      using le_div_geq [of 8 n] le_mod_geq [of 8 n] by (simp_all add: not_less)
    moreover from False have "\<not> bit b n"
      using bit_imp_le_length [of b n] by auto
    ultimately show ?thesis
      using False Cons.IH [of "n - 8"] by (auto simp: bit_simps dest: bit_imp_le_length)
  qed
qed

lemma read_le_byte_at:
  fixes v :: "'a::len word"
  assumes "LENGTH('a) \<le> 8 * k"
  shows "read_le (map (byte_at v) [0..<k]) = v"
proof (rule bit_word_eqI)
  fix n assume "n < LENGTH('a)"
  moreover from this assms have "n div 8 < k"
    by (simp add: div_less_iff_less_mult mult.commute)
  ultimately show "bit (read_le (map (byte_at v) [0..<k]) :: 'a word) n = bit v n"
    by (simp add: bit_read_le bit_byte_at)
qed

definition read_be :: "bytes \<Rightarrow> 'a::len word" where
  "read_be bs = read_le (rev bs)"

text \<open>Little- and big-endian encodings of a whole word.\<close>

definition le_bytes :: "nat \<Rightarrow> 'a::len word \<Rightarrow> bytes" where
  "le_bytes k v = map (byte_at v) [0..<k]"

lemma length_le_bytes [simp, c_bytes]: "length (le_bytes k v) = k"
  by (simp add: le_bytes_def)

lemma read_le_le_bytes:
  fixes v :: "'a::len word"
  shows "LENGTH('a) \<le> 8 * k \<Longrightarrow> read_le (le_bytes k v) = v"
  by (simp add: le_bytes_def read_le_byte_at)

lemma read_be_rev_le_bytes:
  fixes v :: "'a::len word"
  shows "LENGTH('a) \<le> 8 * k \<Longrightarrow> read_be (rev (le_bytes k v)) = v"
  by (simp add: read_be_def read_le_le_bytes)

subsection \<open>Codecs\<close>

text \<open>
  The contract between a format and its users: a partial decoder recovers every encodable
  value. A \<open>stream_codec\<close> also hands back the unread rest, so encodings can be
  concatenated; it is prefix free, and a codec once the rest must be empty.
\<close>

locale codec =
  fixes enc :: "'a \<Rightarrow> 'b"
    and dec :: "'b \<Rightarrow> 'a option"
    and encodable :: "'a \<Rightarrow> bool"
  assumes dec_enc: "encodable x \<Longrightarrow> dec (enc x) = Some x"
begin

lemma enc_inject: "encodable x \<Longrightarrow> encodable y \<Longrightarrow> enc x = enc y \<Longrightarrow> x = y"
  by (metis dec_enc option.inject)

lemma enc_inj_on: "inj_on enc {x. encodable x}"
  by (rule inj_onI) (auto intro: enc_inject)

end

locale stream_codec =
  fixes put :: "'a \<Rightarrow> bytes"
    and get :: "bytes \<Rightarrow> ('a \<times> bytes) option"
    and storable :: "'a \<Rightarrow> bool"
  assumes get_put: "storable x \<Longrightarrow> get (put x @ rest) = Some (x, rest)"
begin

lemma put_prefix_free:
  assumes "storable x" "storable y" "put x @ r = put y @ s"
  shows "x = y \<and> r = s"
proof -
  have "Some (x, r) = Some (y, s)"
    using get_put [OF assms(1)] get_put [OF assms(2)] assms(3) by metis
  then show ?thesis by simp
qed

definition get_all :: "bytes \<Rightarrow> 'a option" where
  "get_all bs = (case get bs of Some (x, []) \<Rightarrow> Some x | _ \<Rightarrow> None)"

end

sublocale stream_codec \<subseteq> codec put get_all storable
proof
  fix x assume "storable x"
  then have "get (put x @ []) = Some (x, [])" by (rule get_put)
  then show "get_all (put x) = Some x" by (simp add: get_all_def)
qed

subsection \<open>Runs of a step relation\<close>

text \<open>
  A run performs a list of events. An invariant that every step keeps holds after every run;
  a set of states that no step leaves is never left by a run.
\<close>

inductive runs :: "('s \<Rightarrow> 'e \<Rightarrow> 's \<Rightarrow> bool) \<Rightarrow> 's \<Rightarrow> 'e list \<Rightarrow> 's \<Rightarrow> bool" for step where
  runs_Nil: "runs step s [] s"
| runs_Cons: "step s e t \<Longrightarrow> runs step t es u \<Longrightarrow> runs step s (e # es) u"

inductive_simps runs_Nil_iff [simp]: "runs step s [] t"
inductive_simps runs_Cons_iff: "runs step s (e # es) t"

lemma runs_append: "runs step s (es @ fs) t \<longleftrightarrow> (\<exists>u. runs step s es u \<and> runs step u fs t)"
  by (induction es arbitrary: s) (auto simp: runs_Cons_iff)

lemma runs_snoc: "runs step s (es @ [e]) t \<longleftrightarrow> (\<exists>u. runs step s es u \<and> step u e t)"
  by (simp add: runs_append runs_Cons_iff)

locale state_machine =
  fixes step :: "'s \<Rightarrow> 'e \<Rightarrow> 's \<Rightarrow> bool"
    and invar :: "'s \<Rightarrow> bool"
  assumes step_invar: "step s e t \<Longrightarrow> invar s \<Longrightarrow> invar t"
begin

lemma runs_invar: "runs step s es t \<Longrightarrow> invar s \<Longrightarrow> invar t"
  by (induction rule: runs.induct) (auto intro: step_invar)

end

locale terminal_machine =
  fixes step :: "'s \<Rightarrow> 'e \<Rightarrow> 's \<Rightarrow> bool"
    and final_state :: "'s \<Rightarrow> bool"
  assumes step_final: "step s e t \<Longrightarrow> final_state s \<Longrightarrow> t = s"
begin

lemma runs_final: "runs step s es t \<Longrightarrow> final_state s \<Longrightarrow> t = s"
  by (induction rule: runs.induct) (auto dest: step_final)

end

text \<open>A machine that refines an abstract one, step by step, wherever its invariant holds.\<close>

locale simulation =
  fixes step :: "'s \<Rightarrow> 'e \<Rightarrow> 's \<Rightarrow> bool"
    and spec :: "'a \<Rightarrow> 'e \<Rightarrow> 'a \<Rightarrow> bool"
    and abs_of :: "'s \<Rightarrow> 'a"
    and invar :: "'s \<Rightarrow> bool"
  assumes simulates: "step s e t \<Longrightarrow> invar s \<Longrightarrow> invar t \<and> spec (abs_of s) e (abs_of t)"
begin

lemma runs_simulate: "runs step s es t \<Longrightarrow> invar s \<Longrightarrow> invar t \<and> runs spec (abs_of s) es (abs_of t)"
  by (induction rule: runs.induct) (use simulates in \<open>blast intro: runs.intros\<close>)+

end

sublocale simulation \<subseteq> state_machine step invar
  by unfold_locales (use simulates in blast)

end
