(* ===== verification/Runtime.thy ===== *)
theory Runtime
  imports Prelude
begin

text \<open>
  The C run-time state seen by \<open>src/pqc_crypto.c\<close> and the code outside the repository it
  calls (libc's allocator and OpenSSL's libcrypto).

  \<^item> \<open>'k evp\<close> is the environment, a parameter of every operation: what each external call
    answers. The first argument of every field is the value of the call clock, so one
    environment can answer the same call differently each time, and a theorem about all
    environments covers every pattern of failures (tests/test_pqc_mock.c injects some of them).
    \<open>'k\<close> is the key material inside an \<open>EVP_PKEY\<close>.
  \<^item> \<open>'k world\<close> is the mutable state: live heap blocks, what was in each block when it was
    freed, the caller's \<open>HiggaionKey\<close> structs, reference-counted \<open>EVP_PKEY\<close> objects, live
    contexts, OpenSSL's error queue and the log; and, as a ghost, the signature calls made.

  An operation that touches a block, a struct or an object that is not live, or a block
  outside its bounds, is undefined behaviour (\<open>None\<close>).
\<close>

subsection \<open>Environment and state\<close>

datatype log_arg = LStr string | LNum int | LErr u64

type_synonym log_entry = "string \<times> string \<times> string \<times> log_arg list"

record 'k evp =
  malloc_ok :: "nat \<Rightarrow> u64 \<Rightarrow> bool"
  malloc_fill :: "nat \<Rightarrow> nat \<Rightarrow> byte"
  err_pushed :: "nat \<Rightarrow> u64 list"
  ctx_new_from_name :: "nat \<Rightarrow> string \<Rightarrow> bool"
  keygen_init :: "nat \<Rightarrow> string \<Rightarrow> int"
  keygen :: "nat \<Rightarrow> string \<Rightarrow> int \<times> 'k option"
  provider_name :: "nat \<Rightarrow> 'k \<Rightarrow> string option"
  up_ref_rc :: "nat \<Rightarrow> int"
  md_ctx_ok :: "nat \<Rightarrow> bool"
  sign_init :: "nat \<Rightarrow> 'k \<Rightarrow> int"
  sign_size :: "nat \<Rightarrow> 'k \<Rightarrow> bytes \<Rightarrow> int \<times> u64"
  sign_exec :: "nat \<Rightarrow> 'k \<Rightarrow> bytes \<Rightarrow> u64 \<Rightarrow> int \<times> bytes \<times> u64"
  verify_init :: "nat \<Rightarrow> 'k \<Rightarrow> int"
  verify_exec :: "nat \<Rightarrow> 'k \<Rightarrow> bytes \<Rightarrow> bytes \<Rightarrow> int"
  sha3_init :: "nat \<Rightarrow> int"
  sha3_update :: "nat \<Rightarrow> bytes \<Rightarrow> int"
  sha3_final :: "nat \<Rightarrow> bytes \<Rightarrow> int \<times> bytes"

text \<open>
  The calls of \<open>EVP_DigestSign\<close> (the executing one) and \<open>EVP_DigestVerify\<close> that a run makes: the
  key, the bytes the code passed and the answer. The list is a ghost: no operation reads it.
\<close>

datatype 'k sig_call = DigestSign 'k bytes int | DigestVerify 'k bytes bytes int

record 'k world =
  clock :: nat
  brk :: addr
  heap :: "addr \<rightharpoonup> bytes"
  freed :: "bytes list"
  structs :: "addr \<rightharpoonup> addr option"
  pkeys :: "addr \<rightharpoonup> 'k \<times> nat"
  md_ctxs :: "addr set"
  key_ctxs :: "addr set"
  err_queue :: "u64 list"
  logs :: "log_entry list"
  sig_calls :: "'k sig_call list"

text \<open>Everything allocated lies below the allocation pointer.\<close>

definition wf_world :: "'k world \<Rightarrow> bool" where
  "wf_world w \<longleftrightarrow> (\<forall>a \<ge> brk w. heap w a = None \<and> pkeys w a = None
     \<and> a \<notin> md_ctxs w \<and> a \<notin> key_ctxs w)"

lemma wf_world_fresh:
  "wf_world w \<Longrightarrow> heap w (brk w) = None \<and> pkeys w (brk w) = None
     \<and> brk w \<notin> md_ctxs w \<and> brk w \<notin> key_ctxs w"
  by (simp add: wf_world_def)

subsection \<open>External calls\<close>

definition ext_call :: "'k evp \<Rightarrow> 'k world \<Rightarrow> 'k world" where
  "ext_call E w = w\<lparr>clock := Suc (clock w), err_queue := err_queue w @ err_pushed E (clock w)\<rparr>"

definition record_call :: "'k sig_call \<Rightarrow> 'k world \<Rightarrow> 'k world" where
  "record_call c w = w\<lparr>sig_calls := sig_calls w @ [c]\<rparr>"

lemma record_call_sel [simp]:
  "clock (record_call c w) = clock w" "brk (record_call c w) = brk w"
  "heap (record_call c w) = heap w" "freed (record_call c w) = freed w"
  "structs (record_call c w) = structs w" "pkeys (record_call c w) = pkeys w"
  "md_ctxs (record_call c w) = md_ctxs w" "key_ctxs (record_call c w) = key_ctxs w"
  "err_queue (record_call c w) = err_queue w" "logs (record_call c w) = logs w"
  "sig_calls (record_call c w) = sig_calls w @ [c]"
  by (simp_all add: record_call_def)

lemma wf_record_call [simp]: "wf_world (record_call c w) = wf_world w"
  by (simp add: wf_world_def)

definition malloc :: "'k evp \<Rightarrow> u64 \<Rightarrow> 'k world \<Rightarrow> addr option \<times> 'k world" where
  "malloc E n w =
     (let w1 = w\<lparr>clock := Suc (clock w)\<rparr> in
      if malloc_ok E (clock w) n
      then (Some (brk w),
            w1\<lparr>brk := Suc (brk w),
               heap := (heap w)(brk w \<mapsto> map (malloc_fill E (clock w)) [0..<unat n])\<rparr>)
      else (None, w1))"

definition free_block :: "addr \<Rightarrow> 'k world \<Rightarrow> 'k world option" where
  "free_block a w =
     (case heap w a of
        None \<Rightarrow> None
      | Some bs \<Rightarrow> Some (w\<lparr>heap := (heap w)(a := None), freed := bs # freed w\<rparr>))"

definition mem_write :: "addr \<Rightarrow> nat \<Rightarrow> bytes \<Rightarrow> 'k world \<Rightarrow> 'k world option" where
  "mem_write a off bs w =
     (case heap w a of
        None \<Rightarrow> None
      | Some old \<Rightarrow>
          if off + length bs \<le> length old
          then Some (w\<lparr>heap := (heap w)(a \<mapsto> put_slice off bs old)\<rparr>)
          else None)"

text \<open>Reading \<open>n\<close> bytes through a pointer of the caller.\<close>

definition read_bytes :: "bytes option \<Rightarrow> nat \<Rightarrow> bytes option" where
  "read_bytes p n =
     (case p of None \<Rightarrow> None | Some bs \<Rightarrow> if n \<le> length bs then Some (take n bs) else None)"

definition md_ctx_new :: "'k evp \<Rightarrow> 'k world \<Rightarrow> addr option \<times> 'k world" where
  "md_ctx_new E w =
     (let w1 = ext_call E w in
      if md_ctx_ok E (clock w)
      then (Some (brk w), w1\<lparr>brk := Suc (brk w), md_ctxs := insert (brk w) (md_ctxs w)\<rparr>)
      else (None, w1))"

definition md_ctx_free :: "addr \<Rightarrow> 'k world \<Rightarrow> 'k world option" where
  "md_ctx_free c w = (if c \<in> md_ctxs w then Some (w\<lparr>md_ctxs := md_ctxs w - {c}\<rparr>) else None)"

definition key_ctx_new :: "'k evp \<Rightarrow> string \<Rightarrow> 'k world \<Rightarrow> addr option \<times> 'k world" where
  "key_ctx_new E alg w =
     (let w1 = ext_call E w in
      if ctx_new_from_name E (clock w) alg
      then (Some (brk w), w1\<lparr>brk := Suc (brk w), key_ctxs := insert (brk w) (key_ctxs w)\<rparr>)
      else (None, w1))"

definition key_ctx_free :: "addr \<Rightarrow> 'k world \<Rightarrow> 'k world option" where
  "key_ctx_free c w = (if c \<in> key_ctxs w then Some (w\<lparr>key_ctxs := key_ctxs w - {c}\<rparr>) else None)"

definition pkey_material :: "addr \<Rightarrow> 'k world \<Rightarrow> 'k option" where
  "pkey_material obj w = map_option fst (pkeys w obj)"

text \<open>\<open>EVP_PKEY_free\<close> drops one reference; the last one destroys the object.\<close>

definition pkey_free :: "addr \<Rightarrow> 'k world \<Rightarrow> 'k world option" where
  "pkey_free obj w =
     (case pkeys w obj of
        None \<Rightarrow> None
      | Some (k, n) \<Rightarrow>
          Some (w\<lparr>pkeys := (if n \<le> 1 then (pkeys w)(obj := None)
                              else (pkeys w)(obj \<mapsto> (k, n - 1)))\<rparr>))"

text \<open>The field \<open>key->pkey\<close> of a struct: reading and assigning it.\<close>

definition get_pkey :: "addr \<Rightarrow> 'k world \<Rightarrow> addr option option" where
  "get_pkey a w = structs w a"

definition set_pkey :: "addr \<Rightarrow> addr option \<Rightarrow> 'k world \<Rightarrow> 'k world option" where
  "set_pkey a v w =
     (case structs w a of None \<Rightarrow> None | Some _ \<Rightarrow> Some (w\<lparr>structs := (structs w)(a \<mapsto> v)\<rparr>))"

subsection \<open>Logging (include/higgaion/pqc_log.h)\<close>

definition log_message :: "string \<Rightarrow> string \<Rightarrow> string \<Rightarrow> log_arg list \<Rightarrow> 'k world \<Rightarrow> 'k world" where
  "log_message level tag fmt args w = w\<lparr>logs := logs w @ [(level, tag, fmt, args)]\<rparr>"

text \<open>
  \<open>log_openssl_error\<close>: the loop takes error codes off OpenSSL's queue until
  \<open>ERR_get_error\<close> answers 0; the first code also writes the summary line.
\<close>

fun log_openssl_loop :: "string \<Rightarrow> bool \<Rightarrow> u64 list \<Rightarrow> log_entry list \<times> u64 list" where
  "log_openssl_loop msg first [] = ([], [])"
| "log_openssl_loop msg first (err # q) =
     (if err = 0 then ([], q)
      else
        let (ls, rest) = log_openssl_loop msg False q in
        ((if first
          then [(''ERROR'', ''CRYPTO'', ''%s: cryptographic operation failed'', [LStr msg])]
          else [])
         @ (''DEBUG'', ''CRYPTO'', ''%s: detail: %s'', [LStr msg, LErr err]) # ls, rest))"

definition log_openssl_error :: "string \<Rightarrow> 'k world \<Rightarrow> 'k world" where
  "log_openssl_error msg w =
     (let (ls, rest) = log_openssl_loop msg True (err_queue w)
      in w\<lparr>logs := logs w @ ls, err_queue := rest\<rparr>)"

lemma log_openssl_loop_drains: "0 \<notin> set q \<Longrightarrow> snd (log_openssl_loop msg first q) = []"
  by (induction msg first q rule: log_openssl_loop.induct) (auto simp: case_prod_beta Let_def)

lemma log_openssl_loop_length:
  "0 \<notin> set q \<Longrightarrow> length (fst (log_openssl_loop msg first q)) =
     length q + (if first \<and> q \<noteq> [] then 1 else 0)"
  by (induction msg first q rule: log_openssl_loop.induct) (auto simp: case_prod_beta Let_def)

subsection \<open>A concrete environment\<close>

text \<open>
  An environment in which every call succeeds, to evaluate the operations on concrete inputs:
  key material is a number, a signature is the key's low byte followed by the signed bytes.
  \<open>empty_world\<close> is the state in which nothing has been allocated.
\<close>

definition ideal_evp :: "nat evp" where
  "ideal_evp =
     \<lparr>malloc_ok = (\<lambda>c n. True),
      malloc_fill = (\<lambda>c i. 0xAA),
      err_pushed = (\<lambda>c. []),
      ctx_new_from_name = (\<lambda>c alg. True),
      keygen_init = (\<lambda>c alg. 1),
      keygen = (\<lambda>c alg. (1, Some c)),
      provider_name = (\<lambda>c k. Some ''default''),
      up_ref_rc = (\<lambda>c. 1),
      md_ctx_ok = (\<lambda>c. True),
      sign_init = (\<lambda>c k. 1),
      sign_size = (\<lambda>c k m. (1, of_nat (Suc (length m)))),
      sign_exec = (\<lambda>c k m cap. if unat cap < Suc (length m) then (0, [], 0)
        else (1, of_nat k # m, of_nat (Suc (length m)))),
      verify_init = (\<lambda>c k. 1),
      verify_exec = (\<lambda>c k s m. if s = of_nat k # m then 1 else 0),
      sha3_init = (\<lambda>c. 1),
      sha3_update = (\<lambda>c d. 1),
      sha3_final = (\<lambda>c d. (1, replicate 32 (sum_list d)))\<rparr>"

definition empty_world :: "nat world" where
  "empty_world =
     \<lparr>clock = 0, brk = 1, heap = Map.empty, freed = [], structs = Map.empty,
      pkeys = Map.empty, md_ctxs = {}, key_ctxs = {}, err_queue = [], logs = [], sig_calls = []\<rparr>"

lemma empty_world_sel [simp]:
  "clock empty_world = 0" "brk empty_world = 1" "heap empty_world = Map.empty"
  "freed empty_world = []" "structs empty_world = Map.empty" "pkeys empty_world = Map.empty"
  "md_ctxs empty_world = {}" "key_ctxs empty_world = {}" "err_queue empty_world = []"
  "logs empty_world = []" "sig_calls empty_world = []"
  by (simp_all add: empty_world_def)

lemma wf_empty_world: "wf_world empty_world"
  by (simp add: wf_world_def empty_world_def)

text \<open>Reading the fields of the environment one at a time keeps evaluations small.\<close>

lemma ideal_evp_sel [simp]:
  "malloc_ok ideal_evp = (\<lambda>c n. True)"
  "malloc_fill ideal_evp = (\<lambda>c i. 0xAA)"
  "err_pushed ideal_evp = (\<lambda>c. [])"
  "ctx_new_from_name ideal_evp = (\<lambda>c alg. True)"
  "keygen_init ideal_evp = (\<lambda>c alg. 1)"
  "keygen ideal_evp = (\<lambda>c alg. (1, Some c))"
  "provider_name ideal_evp = (\<lambda>c k. Some ''default'')"
  "up_ref_rc ideal_evp = (\<lambda>c. 1)"
  "md_ctx_ok ideal_evp = (\<lambda>c. True)"
  "sign_init ideal_evp = (\<lambda>c k. 1)"
  "sign_size ideal_evp = (\<lambda>c k m. (1, of_nat (Suc (length m))))"
  "sign_exec ideal_evp = (\<lambda>c k m cap. if unat cap < Suc (length m) then (0, [], 0)
        else (1, of_nat k # m, of_nat (Suc (length m))))"
  "verify_init ideal_evp = (\<lambda>c k. 1)"
  "verify_exec ideal_evp = (\<lambda>c k s m. if s = of_nat k # m then 1 else 0)"
  "sha3_init ideal_evp = (\<lambda>c. 1)"
  "sha3_update ideal_evp = (\<lambda>c d. 1)"
  "sha3_final ideal_evp = (\<lambda>c d. (1, replicate 32 (sum_list d)))"
  by (simp_all add: ideal_evp_def)

end
