(* ===== verification/DomainSep.thy ===== *)
theory DomainSep
  imports Runtime
begin

text \<open>
  Domain separation encoding of \<open>src/pqc_crypto.c\<close>: \<open>write_u32_be\<close>, \<open>write_u64_be\<close> and
  \<open>build_domain_separated_message\<close>, which lays out

  \<open>"HIGGAION_DS_V1" || u32_be(len domain) || domain || u64_be(len message) || message\<close>

  in a fresh heap block. \<open>ds_encode\<close> is the format as one expression; the memory operations
  of the C function are shown to produce exactly it. The format is a stream codec, hence
  injective and prefix free.
\<close>

subsection \<open>Constants and integer encoders\<close>

definition HIGGAION_DOMAIN_MAX_LEN :: nat where
  "HIGGAION_DOMAIN_MAX_LEN = 4096"

definition HIGGAION_DS_PREFIX :: bytes where
  "HIGGAION_DS_PREFIX = bytes_of ''HIGGAION_DS_V1'' @ [0]"

definition write_u32_be :: "u32 \<Rightarrow> bytes" where
  "write_u32_be v =
     [ucast (drop_bit 24 v AND 0xFF),
      ucast (drop_bit 16 v AND 0xFF),
      ucast (drop_bit 8 v AND 0xFF),
      ucast (v AND 0xFF)]"

definition write_u64_be :: "u64 \<Rightarrow> bytes" where
  "write_u64_be v =
     [ucast (drop_bit 56 v AND 0xFF),
      ucast (drop_bit 48 v AND 0xFF),
      ucast (drop_bit 40 v AND 0xFF),
      ucast (drop_bit 32 v AND 0xFF),
      ucast (drop_bit 24 v AND 0xFF),
      ucast (drop_bit 16 v AND 0xFF),
      ucast (drop_bit 8 v AND 0xFF),
      ucast (v AND 0xFF)]"

lemma write_u32_be_le: "write_u32_be v = rev (le_bytes 4 v)"
  by (simp add: write_u32_be_def le_bytes_def byte_at_def upt_rec)

lemma write_u64_be_le: "write_u64_be v = rev (le_bytes 8 v)"
  by (simp add: write_u64_be_def le_bytes_def byte_at_def upt_rec)

lemma length_write_be [simp, c_bytes]:
  "length (write_u32_be v) = 4" "length (write_u64_be u) = 8"
  by (simp_all add: write_u32_be_le write_u64_be_le)

lemma read_write_u32_be: "read_be (write_u32_be v) = v"
  by (simp add: write_u32_be_le read_be_rev_le_bytes)

lemma read_write_u64_be: "read_be (write_u64_be v) = v"
  by (simp add: write_u64_be_le read_be_rev_le_bytes)

interpretation u32_be: codec write_u32_be "\<lambda>bs. Some (read_be bs)" "\<lambda>_. True"
  by unfold_locales (simp add: read_write_u32_be)

interpretation u64_be: codec write_u64_be "\<lambda>bs. Some (read_be bs)" "\<lambda>_. True"
  by unfold_locales (simp add: read_write_u64_be)

subsection \<open>Building the message\<close>

text \<open>\<open>sizeof(HIGGAION_DS_PREFIX) - 1\<close>\<close>

definition prefix_len :: nat where
  "prefix_len = length HIGGAION_DS_PREFIX - 1"

definition domain_length :: "bytes option \<Rightarrow> u64 option" where
  "domain_length domain =
     (case domain of
        None \<Rightarrow> Some 0
      | Some d \<Rightarrow> map_option of_nat (strnlen d (HIGGAION_DOMAIN_MAX_LEN + 1)))"

definition total_length :: "u64 \<Rightarrow> u64 \<Rightarrow> u64 option" where
  "total_length dom_len msg_len =
     (let total_len = of_nat prefix_len in
      if SIZE_MAX - total_len < 4 then None
      else let total_len = total_len + 4 in
      if SIZE_MAX - total_len < dom_len then None
      else let total_len = total_len + dom_len in
      if SIZE_MAX - total_len < 8 then None
      else let total_len = total_len + 8 in
      if SIZE_MAX - total_len < msg_len then None
      else Some (total_len + msg_len))"

definition fill_message ::
  "addr \<Rightarrow> bytes option \<Rightarrow> u64 \<Rightarrow> bytes option \<Rightarrow> u64 \<Rightarrow> 'k world \<Rightarrow> 'k world option" where
  "fill_message buf domain dom_len message msg_len w = do {
     w \<leftarrow> mem_write buf 0 (take prefix_len HIGGAION_DS_PREFIX) w;
     let p = prefix_len;
     w \<leftarrow> mem_write buf p (write_u32_be (ucast dom_len)) w;
     let p = p + 4;
     w \<leftarrow> (if dom_len > 0
           then do { src \<leftarrow> read_bytes domain (unat dom_len); mem_write buf p src w }
           else Some w);
     let p = p + unat dom_len;
     w \<leftarrow> mem_write buf p (write_u64_be msg_len) w;
     let p = p + 8;
     (if msg_len > 0
      then do { src \<leftarrow> read_bytes message (unat msg_len); mem_write buf p src w }
      else Some w)
   }"

text \<open>
  The out-parameters \<open>uint8_t **out\<close> and \<open>size_t *out_len\<close> are passed as \<open>None\<close> for NULL or
  \<open>Some v\<close> for a cell holding \<open>v\<close>; the result returns the cells as the call leaves them.
\<close>

definition build_domain_separated_message ::
  "'k evp \<Rightarrow> addr option option \<Rightarrow> u64 option \<Rightarrow> bytes option \<Rightarrow> u64 \<Rightarrow> bytes option \<Rightarrow> 'k world
    \<Rightarrow> ((bool \<times> addr option option \<times> u64 option) \<times> 'k world) option" where
  "build_domain_separated_message E out out_len message msg_len domain w =
     (if out = None \<or> out_len = None then Some ((False, out, out_len), w)
      else if msg_len > 0 \<and> message = None
      then Some ((False, Some None, Some 0),
        log_message ''ERROR'' ''CRYPTO''
          ''domain separation: msg_len > 0 but message is NULL'' [] w)
      else if msg_len > 104857600
      then Some ((False, Some None, Some 0),
        log_message ''ERROR'' ''CRYPTO''
          ''domain separation: msg_len %zu exceeds 100MB bounds'' [LNum (uint msg_len)] w)
      else do {
        dom_len \<leftarrow> domain_length domain;
        (if dom_len > of_nat HIGGAION_DOMAIN_MAX_LEN
         then Some ((False, Some None, Some 0),
           log_message ''ERROR'' ''CRYPTO''
             ''domain separation: domain tag too long (max=%d)''
             [LNum (int HIGGAION_DOMAIN_MAX_LEN)] w)
         else case total_length dom_len msg_len of
           None \<Rightarrow> Some ((False, Some None, Some 0), w)
         | Some total_len \<Rightarrow>
             (case malloc E total_len w of
                (None, w) \<Rightarrow> Some ((False, Some None, Some 0), w)
              | (Some buf, w) \<Rightarrow> do {
                  w \<leftarrow> fill_message buf domain dom_len message msg_len w;
                  Some ((True, Some (Some buf), Some total_len), w) }))
      })"

subsection \<open>The format\<close>

text \<open>The domain tag a pointer denotes (NULL denotes the empty tag) and the message bytes.\<close>

definition domain_bytes :: "bytes option \<Rightarrow> bytes" where
  "domain_bytes domain = (case domain of None \<Rightarrow> [] | Some d \<Rightarrow> cstr d)"

definition message_bytes :: "bytes option \<Rightarrow> u64 \<Rightarrow> bytes" where
  "message_bytes message msg_len =
     (case message of None \<Rightarrow> [] | Some m \<Rightarrow> take (unat msg_len) m)"

definition ds_encode :: "bytes \<Rightarrow> bytes \<Rightarrow> bytes" where
  "ds_encode dtag msg =
     bytes_of ''HIGGAION_DS_V1''
     @ write_u32_be (of_nat (length dtag)) @ dtag
     @ write_u64_be (of_nat (length msg)) @ msg"

lemma length_ds_encode [c_bytes]: "length (ds_encode dtag msg) = 26 + length dtag + length msg"
  by (simp add: ds_encode_def)

text \<open>A length-prefixed blob, the reader that undoes it, and the reader of the whole format.\<close>

definition get_blob :: "nat \<Rightarrow> (bytes \<Rightarrow> nat) \<Rightarrow> bytes \<Rightarrow> (bytes \<times> bytes) option" where
  "get_blob k rd bs =
     (let n = rd (take k bs); r = drop k bs in
      if k \<le> length bs \<and> n \<le> length r then Some (take n r, drop n r) else None)"

definition get_u32_blob :: "bytes \<Rightarrow> (bytes \<times> bytes) option" where
  "get_u32_blob = get_blob 4 (\<lambda>bs. unat (read_be bs :: u32))"

definition get_u64_blob :: "bytes \<Rightarrow> (bytes \<times> bytes) option" where
  "get_u64_blob = get_blob 8 (\<lambda>bs. unat (read_be bs :: u64))"

definition get_ds :: "bytes \<Rightarrow> ((bytes \<times> bytes) \<times> bytes) option" where
  "get_ds bs =
     (if take 14 bs = bytes_of ''HIGGAION_DS_V1''
      then do {
        (dtag, r) \<leftarrow> get_u32_blob (drop 14 bs);
        (msg, r) \<leftarrow> get_u64_blob r;
        Some ((dtag, msg), r) }
      else None)"

interpretation u32_blob: stream_codec
  "\<lambda>d. write_u32_be (of_nat (length d)) @ d" get_u32_blob "\<lambda>d. length d < 2 ^ 32"
  by unfold_locales
    (simp add: get_u32_blob_def get_blob_def read_write_u32_be unat_of_nat_fits Let_def)

interpretation u64_blob: stream_codec
  "\<lambda>d. write_u64_be (of_nat (length d)) @ d" get_u64_blob "\<lambda>d. length d < 2 ^ 64"
  by unfold_locales
    (simp add: get_u64_blob_def get_blob_def read_write_u64_be unat_of_nat_fits Let_def)

interpretation ds: stream_codec
  "\<lambda>(dtag, msg). ds_encode dtag msg" get_ds
  "\<lambda>(dtag, msg). length dtag < 2 ^ 32 \<and> length msg < 2 ^ 64"
proof
  fix x :: "bytes \<times> bytes" and rest
  assume x: "case x of (dtag, msg) \<Rightarrow> length dtag < 2 ^ 32 \<and> length msg < 2 ^ 64"
  obtain dtag msg where [simp]: "x = (dtag, msg)" by fastforce
  have "take 14 (ds_encode dtag msg @ rest) = bytes_of ''HIGGAION_DS_V1''"
    by (simp add: ds_encode_def)
  moreover have "drop 14 (ds_encode dtag msg @ rest) =
      (write_u32_be (of_nat (length dtag)) @ dtag)
      @ ((write_u64_be (of_nat (length msg)) @ msg) @ rest)"
    by (simp add: ds_encode_def)
  ultimately show "get_ds ((case x of (dtag, msg) \<Rightarrow> ds_encode dtag msg) @ rest) = Some (x, rest)"
    using x u32_blob.get_put [of dtag] u64_blob.get_put [of msg] by (simp add: get_ds_def)
qed

subsection \<open>What the builder does\<close>

text \<open>
  The inputs it accepts, and when its reads are defined: the message pointer has \<open>msg_len\<close>
  bytes and \<open>strnlen\<close> stays inside the domain buffer.
\<close>

definition ds_accepts :: "bytes option \<Rightarrow> u64 \<Rightarrow> bytes option \<Rightarrow> bool" where
  "ds_accepts message msg_len domain \<longleftrightarrow>
     (msg_len > 0 \<longrightarrow> message \<noteq> None) \<and> msg_len \<le> 104857600
     \<and> length (domain_bytes domain) \<le> HIGGAION_DOMAIN_MAX_LEN"

definition ds_readable :: "bytes option \<Rightarrow> u64 \<Rightarrow> bytes option \<Rightarrow> bool" where
  "ds_readable message msg_len domain \<longleftrightarrow>
     (case message of None \<Rightarrow> True | Some m \<Rightarrow> unat msg_len \<le> length m)
     \<and> domain_length domain \<noteq> None"

definition ds_length :: "bytes option \<Rightarrow> u64 \<Rightarrow> u64" where
  "ds_length domain msg_len = 26 + of_nat (length (domain_bytes domain)) + msg_len"

lemma prefix_len_eq [simp]: "prefix_len = 14"
  by (simp add: prefix_len_def HIGGAION_DS_PREFIX_def)

lemma take_prefix: "take prefix_len HIGGAION_DS_PREFIX = bytes_of ''HIGGAION_DS_V1''"
  by (simp add: HIGGAION_DS_PREFIX_def)

lemma domain_length_eq:
  assumes "domain_length domain = Some n"
  shows "unat n = min (HIGGAION_DOMAIN_MAX_LEN + 1) (length (domain_bytes domain))"
proof (cases domain)
  case None
  with assms show ?thesis by (simp add: domain_length_def domain_bytes_def)
next
  case (Some d)
  with assms obtain k where k: "strnlen d (HIGGAION_DOMAIN_MAX_LEN + 1) = Some k" "n = of_nat k"
    by (auto simp: domain_length_def)
  from strnlen_cstr [OF k(1)] have "k = min (HIGGAION_DOMAIN_MAX_LEN + 1) (length (cstr d))" .
  moreover from this have "unat n = k"
    unfolding k(2) by (intro unat_of_nat_fits) (simp add: HIGGAION_DOMAIN_MAX_LEN_def)
  ultimately show ?thesis by (simp add: Some domain_bytes_def)
qed

lemma domain_read:
  assumes "domain_length domain = Some n" "n > 0" "unat n \<le> HIGGAION_DOMAIN_MAX_LEN"
  shows "read_bytes domain (unat n) = Some (domain_bytes domain)"
proof (cases domain)
  case None
  with assms show ?thesis by (simp add: domain_length_def)
next
  case (Some d)
  have len: "unat n = length (cstr d)"
    using domain_length_eq [OF assms(1)] assms(3) by (simp add: Some domain_bytes_def)
  then show ?thesis
    using length_cstr_le [of d] take_cstr [of d] by (simp add: Some read_bytes_def domain_bytes_def)
qed

lemma total_length_step:
  fixes a b :: u64
  shows "(SIZE_MAX - a < b) = (2 ^ 64 \<le> unat a + unat b)"
  using no_room_iff [of a b] by simp

lemma total_length_eq:
  "total_length d m =
     (if 26 + unat d + unat m < 2 ^ 64 then Some (26 + d + m) else None)"
proof -
  have d: "unat d < 2 ^ 64" and m: "unat m < 2 ^ 64"
    using unsigned_less [of d] unsigned_less [of m] by simp_all
  have u18: "unat (18 + d) = 18 + unat d" if "18 + unat d < 2 ^ 64"
    using that by (simp add: unat_word_ariths)
  have u26: "unat (26 + d) = 26 + unat d" if "26 + unat d < 2 ^ 64"
    using that by (simp add: unat_word_ariths)
  have swap: "18 + d + 8 = 26 + d" by simp
  show ?thesis
    unfolding total_length_def Let_def total_length_step
    using d m u18 u26 by (auto simp: swap)
qed

lemma total_length_exact:
  assumes "total_length d m = Some t"
  shows "unat t = 26 + unat d + unat m"
proof -
  from assms have "26 + unat d + unat m < 2 ^ 64" "t = 26 + d + m"
    by (simp_all add: total_length_eq split: if_splits)
  then show ?thesis by (simp add: unat_word_ariths mod_less)
qed

lemma mem_write_at:
  "heap w a = Some old \<Longrightarrow> off + length bs \<le> length old \<Longrightarrow>
     mem_write a off bs w = Some (w\<lparr>heap := (heap w)(a \<mapsto> put_slice off bs old)\<rparr>)"
  by (simp add: mem_write_def)

lemma mem_write_append [c_mem]:
  "heap w a = Some (pre @ rest) \<Longrightarrow> length pre = off \<Longrightarrow> length bs \<le> length rest \<Longrightarrow>
     mem_write a off bs w =
       Some (w\<lparr>heap := (heap w)(a \<mapsto> (pre @ bs) @ drop (length bs) rest)\<rparr>)"
  by (simp add: mem_write_at put_slice_append)

lemma message_read:
  assumes "ds_accepts message msg_len domain" "ds_readable message msg_len domain" "msg_len > 0"
  shows "read_bytes message (unat msg_len) = Some (message_bytes message msg_len)"
  using assms
  by (auto simp: ds_accepts_def ds_readable_def read_bytes_def message_bytes_def)

lemma length_message_bytes:
  assumes "ds_accepts message msg_len domain" "ds_readable message msg_len domain"
  shows "length (message_bytes message msg_len) = unat msg_len"
  using assms
  by (auto simp: ds_accepts_def ds_readable_def message_bytes_def word_gt_0 split: option.splits)

lemma fill_message_encodes:
  assumes acc: "ds_accepts message msg_len domain"
    and rd: "ds_readable message msg_len domain"
    and dl: "domain_length domain = Some n"
    and old: "heap w buf = Some old"
    and len: "length old = 26 + unat n + unat msg_len"
  shows "fill_message buf domain n message msg_len w =
    Some (w\<lparr>heap := (heap w)(buf \<mapsto>
      ds_encode (domain_bytes domain) (message_bytes message msg_len))\<rparr>)"
proof -
  let ?d = "domain_bytes domain" and ?m = "message_bytes message msg_len"
  let ?p1 = "bytes_of ''HIGGAION_DS_V1''"
  let ?p2 = "?p1 @ write_u32_be (ucast n)"
  let ?p3 = "?p2 @ ?d"
  let ?p4 = "?p3 @ write_u64_be msg_len"
  let ?upd = "\<lambda>bs. w\<lparr>heap := (heap w)(buf \<mapsto> bs)\<rparr>"
  have n: "unat n = length ?d" and small: "unat n \<le> HIGGAION_DOMAIN_MAX_LEN"
    using domain_length_eq [OF dl] acc by (simp_all add: ds_accepts_def)
  have m: "unat msg_len = length ?m"
    using length_message_bytes [OF acc rd] by simp
  have s1: "mem_write buf 0 (take prefix_len HIGGAION_DS_PREFIX) w = Some (?upd (?p1 @ drop 14 old))"
    unfolding take_prefix
    using mem_write_append [of w buf "[]" old 0 ?p1] old len
    by (simp add: eval_nat_numeral)
  have s2: "mem_write buf 14 (write_u32_be (ucast n)) (?upd (?p1 @ drop 14 old)) =
      Some (?upd (?p2 @ drop 18 old))"
    using len by (subst mem_write_append [where pre = ?p1 and rest = "drop 14 old"]) auto
  have s3: "(if n > 0
      then do { src \<leftarrow> read_bytes domain (unat n);
                mem_write buf 18 src (?upd (?p2 @ drop 18 old)) }
      else Some (?upd (?p2 @ drop 18 old))) = Some (?upd (?p3 @ drop (18 + unat n) old))"
  proof (cases "n > 0")
    case True
    then show ?thesis
      using len n domain_read [OF dl True small]
      by (simp, subst mem_write_append [where pre = ?p2 and rest = "drop 18 old"])
        (auto simp: add.commute)
  next
    case False
    then have "n = 0" by (simp add: word_gt_0)
    then show ?thesis using n by simp
  qed
  have s4: "mem_write buf (18 + unat n) (write_u64_be msg_len)
      (?upd (?p3 @ drop (18 + unat n) old)) = Some (?upd (?p4 @ drop (26 + unat n) old))"
    using len n
    by (subst mem_write_append [where pre = ?p3 and rest = "drop (18 + unat n) old"])
      (auto simp: add.commute add.left_commute)
  have s5: "(if msg_len > 0
      then do { src \<leftarrow> read_bytes message (unat msg_len);
                mem_write buf (26 + unat n) src (?upd (?p4 @ drop (26 + unat n) old)) }
      else Some (?upd (?p4 @ drop (26 + unat n) old))) = Some (?upd (?p4 @ ?m))"
  proof (cases "msg_len > 0")
    case True
    then show ?thesis
      using len n m message_read [OF acc rd True]
      by (simp, subst mem_write_append [where pre = ?p4 and rest = "drop (26 + unat n) old"])
        (auto simp: add.commute)
  next
    case False
    then have "msg_len = 0" by (simp add: word_gt_0)
    then show ?thesis using m len by simp
  qed
  have enc: "?p4 @ ?m = ds_encode ?d ?m"
  proof -
    have "ucast n = (of_nat (length ?d) :: u32)"
      unfolding n [symmetric] by simp
    moreover have "msg_len = of_nat (length ?m)"
      unfolding m [symmetric] by simp
    ultimately show ?thesis unfolding ds_encode_def by (metis append_assoc)
  qed
  have num: "(14::nat) + 4 = 18" "18 + unat n + 8 = 26 + unat n"
    by simp_all
  show ?thesis
    by (simp only: fill_message_def Let_def s1 [unfolded prefix_len_eq] bind.bind_lunit
        prefix_len_eq s2 num s3 s4 s5 enc)
qed

lemma build_rejected:
  assumes "ds_readable message msg_len domain" "\<not> ds_accepts message msg_len domain"
  shows "\<exists>ls. build_domain_separated_message E (Some out) (Some out_len) message msg_len domain w =
    Some ((False, Some None, Some 0), w\<lparr>logs := logs w @ ls\<rparr>)"
proof -
  from assms(1) obtain n where n: "domain_length domain = Some n"
    by (auto simp: ds_readable_def)
  have "4096 < n" if "4096 < length (domain_bytes domain)"
    using that domain_length_eq [OF n]
    by (simp add: word_less_nat_alt HIGGAION_DOMAIN_MAX_LEN_def)
  then show ?thesis
    using assms(2) n
    by (auto simp: build_domain_separated_message_def ds_accepts_def log_message_def
        HIGGAION_DOMAIN_MAX_LEN_def not_le word_gt_0)
qed

lemma ds_accepts_total:
  assumes "ds_accepts message msg_len domain" "domain_length domain = Some n"
  shows "n \<le> of_nat HIGGAION_DOMAIN_MAX_LEN"
    and "total_length n msg_len = Some (ds_length domain msg_len)"
    and "unat (ds_length domain msg_len) = 26 + length (domain_bytes domain) + unat msg_len"
proof -
  have n: "unat n = length (domain_bytes domain)" and small: "unat n \<le> 4096"
    using domain_length_eq [OF assms(2)] assms(1)
    by (simp_all add: ds_accepts_def HIGGAION_DOMAIN_MAX_LEN_def)
  from small show "n \<le> of_nat HIGGAION_DOMAIN_MAX_LEN"
    by (simp add: word_le_nat_alt HIGGAION_DOMAIN_MAX_LEN_def)
  have m: "unat msg_len \<le> 104857600"
    using assms(1) by (simp add: ds_accepts_def word_le_nat_alt)
  have "n = of_nat (length (domain_bytes domain))"
    unfolding n [symmetric] by simp
  then show tot: "total_length n msg_len = Some (ds_length domain msg_len)"
    using small m by (simp add: total_length_eq ds_length_def)
  show "unat (ds_length domain msg_len) = 26 + length (domain_bytes domain) + unat msg_len"
    using total_length_exact [OF tot] n by simp
qed

lemma build_nomem:
  assumes "ds_readable message msg_len domain" "ds_accepts message msg_len domain"
    and "\<not> malloc_ok E (clock w) (ds_length domain msg_len)"
  shows "build_domain_separated_message E (Some out) (Some out_len) message msg_len domain w =
    Some ((False, Some None, Some 0), w\<lparr>clock := Suc (clock w)\<rparr>)"
proof -
  from assms(1) obtain n where n: "domain_length domain = Some n"
    by (auto simp: ds_readable_def)
  have "msg_len \<le> 104857600" "msg_len > 0 \<longrightarrow> message \<noteq> None"
    using assms(2) by (simp_all add: ds_accepts_def)
  then show ?thesis
    using assms(3) n ds_accepts_total [OF assms(2) n]
    by (auto simp: build_domain_separated_message_def malloc_def not_less)
qed

lemma build_done:
  assumes "ds_readable message msg_len domain" "ds_accepts message msg_len domain"
    and "malloc_ok E (clock w) (ds_length domain msg_len)"
  shows "build_domain_separated_message E (Some out) (Some out_len) message msg_len domain w =
    Some ((True, Some (Some (brk w)), Some (ds_length domain msg_len)),
      w\<lparr>clock := Suc (clock w), brk := Suc (brk w),
        heap := (heap w)(brk w \<mapsto>
          ds_encode (domain_bytes domain) (message_bytes message msg_len))\<rparr>)"
proof -
  from assms(1) obtain n where n: "domain_length domain = Some n"
    by (auto simp: ds_readable_def)
  have small: "unat n = length (domain_bytes domain)"
    using domain_length_eq [OF n] assms(2) by (simp add: ds_accepts_def)
  define old where "old = map (malloc_fill E (clock w)) [0..<unat (ds_length domain msg_len)]"
  let ?w = "w\<lparr>clock := Suc (clock w), brk := Suc (brk w), heap := (heap w)(brk w \<mapsto> old)\<rparr>"
  have "fill_message (brk w) domain n message msg_len ?w =
    Some (?w\<lparr>heap := (heap ?w)(brk w \<mapsto>
      ds_encode (domain_bytes domain) (message_bytes message msg_len))\<rparr>)"
    using ds_accepts_total(3) [OF assms(2) n] small
    by (intro fill_message_encodes [OF assms(2,1) n, where old = old]) (simp_all add: old_def)
  moreover have "msg_len \<le> 104857600" "msg_len > 0 \<longrightarrow> message \<noteq> None"
    using assms(2) by (simp_all add: ds_accepts_def)
  ultimately show ?thesis
    using assms(3) n ds_accepts_total [OF assms(2) n]
    by (auto simp: build_domain_separated_message_def malloc_def not_less old_def)
qed

subsection \<open>Properties\<close>

lemma ds_accepts_small:
  assumes "ds_accepts message msg_len domain" "ds_readable message msg_len domain"
  shows "length (domain_bytes domain) < 2 ^ 32" "length (message_bytes message msg_len) < 2 ^ 64"
  using assms length_message_bytes [OF assms] unsigned_less [of msg_len]
  by (auto simp: ds_accepts_def HIGGAION_DOMAIN_MAX_LEN_def)

lemma build_true_inputs:
  assumes "build_domain_separated_message E out out_len message msg_len domain w =
    Some ((True, r, t), w')"
  shows "ds_readable message msg_len domain" "ds_accepts message msg_len domain"
    "out \<noteq> None" "out_len \<noteq> None"
proof -
  from assms obtain n where n: "domain_length domain = Some n"
    "n \<le> of_nat HIGGAION_DOMAIN_MAX_LEN" "msg_len \<le> 104857600"
    "msg_len > 0 \<longrightarrow> message \<noteq> None" "out \<noteq> None" "out_len \<noteq> None"
    by (auto simp: build_domain_separated_message_def not_le not_less split: if_splits bind_splits)
  from n(2) have "unat n \<le> HIGGAION_DOMAIN_MAX_LEN"
    by (simp add: word_le_nat_alt HIGGAION_DOMAIN_MAX_LEN_def)
  with n show "ds_accepts message msg_len domain" "out \<noteq> None" "out_len \<noteq> None"
    using domain_length_eq [OF n(1)] by (auto simp: ds_accepts_def)
  have rd: "msg_len > 0 \<longrightarrow> read_bytes message (unat msg_len) \<noteq> None"
    using assms n(1,2,3,4)
    by (fastforce simp: build_domain_separated_message_def fill_message_def Let_def
        split: if_splits bind_splits option.splits prod.splits)
  have "case message of None \<Rightarrow> True | Some m \<Rightarrow> unat msg_len \<le> length m"
  proof (cases "msg_len = 0")
    case False
    then show ?thesis
      using rd by (auto simp: read_bytes_def word_gt_0 split: option.splits if_splits)
  qed (simp split: option.split)
  then show "ds_readable message msg_len domain" using n(1) by (simp add: ds_readable_def)
qed

lemma length_ds_block:
  assumes "ds_accepts message msg_len domain" "ds_readable message msg_len domain"
  shows "length (ds_encode (domain_bytes domain) (message_bytes message msg_len)) =
    unat (ds_length domain msg_len)"
proof -
  obtain n where "domain_length domain = Some n" using assms(2) by (auto simp: ds_readable_def)
  from ds_accepts_total(3) [OF assms(1) this] show ?thesis
    using length_message_bytes [OF assms] by (simp add: length_ds_encode)
qed

text \<open>
  C2. What \<open>build_domain_separated_message\<close> computes, on every input whose pointers are
  readable and under every allocator: it succeeds exactly when the message pointer is there,
  the message is at most 104857600 bytes, the domain at most 4096 and the allocation
  succeeds; then a new block holds the encoding, its length is reported exactly, and the
  encoding decodes to the domain and the message. Otherwise the outputs are NULL and 0 and
  the heap is unchanged. No input makes it write out of bounds.
\<close>

theorem ds_builder_correct:
  fixes E :: "'k evp" and w :: "'k world"
  assumes "ds_readable message msg_len domain"
  defines "ok \<equiv> ds_accepts message msg_len domain
    \<and> malloc_ok E (clock w) (ds_length domain msg_len)"
    and "block \<equiv> ds_encode (domain_bytes domain) (message_bytes message msg_len)"
  shows "\<exists>w'. build_domain_separated_message E (Some out) (Some out_len) message msg_len domain w =
      Some (if ok then (True, Some (Some (brk w)), Some (ds_length domain msg_len))
            else (False, Some None, Some 0), w')
    \<and> heap w' = (if ok then (heap w)(brk w \<mapsto> block) else heap w)
    \<and> (ok \<longrightarrow> unat (ds_length domain msg_len) = length block
         \<and> get_ds block = Some ((domain_bytes domain, message_bytes message msg_len), []))"
proof (cases "ds_accepts message msg_len domain")
  case False
  with build_rejected [OF assms(1) False, of E out out_len w] show ?thesis
    by (auto simp: ok_def)
next
  case acc: True
  have "unat (ds_length domain msg_len) = length block"
    using length_ds_block [OF acc assms(1)] by (simp add: block_def)
  moreover have "get_ds block = Some ((domain_bytes domain, message_bytes message msg_len), [])"
    using ds.get_put [of "(domain_bytes domain, message_bytes message msg_len)" "[]"]
      ds_accepts_small [OF acc assms(1)] by (simp add: block_def)
  ultimately show ?thesis
    using acc build_nomem [OF assms(1) acc, of E w out out_len]
      build_done [OF assms(1) acc, of E w out out_len]
    by (auto simp: ok_def block_def)
qed

definition abc :: bytes where
  "abc = bytes_of ''ABC''"

definition domain_A :: bytes where
  "domain_A = bytes_of ''A'' @ [0]"

lemma ds_builder_correct_witness:
  "\<exists>w'. build_domain_separated_message ideal_evp (Some None) (Some 0) (Some abc) 3 (Some domain_A)
      empty_world = Some ((True, Some (Some 1), Some 30), w')
    \<and> heap w' 1 = Some (ds_encode (bytes_of ''A'') abc)"
proof -
  have "ds_readable (Some abc) 3 (Some domain_A)" "ds_accepts (Some abc) 3 (Some domain_A)"
    "domain_bytes (Some domain_A) = bytes_of ''A''" "message_bytes (Some abc) 3 = abc"
    by (simp_all add: ds_readable_def ds_accepts_def domain_length_def domain_bytes_def cstr_def
        domain_A_def abc_def bytes_of_def HIGGAION_DOMAIN_MAX_LEN_def message_bytes_def)
  then show ?thesis
    using ds_builder_correct [where message = "Some abc" and msg_len = 3
        and domain = "Some domain_A" and E = ideal_evp and w = empty_world and out = None
        and out_len = 0]
    by (auto simp: ds_length_def bytes_of_def)
qed

text \<open>
  C7. The encoding is injective, as the comment at the head of the file demands: if two
  successful calls, in any two states and environments, leave the same bytes in their
  blocks, they were given the same domain bytes, message length and message bytes (a NULL
  domain counting as the empty one).
\<close>

theorem ds_builder_injective:
  assumes "build_domain_separated_message E1 o1 l1 m1 n1 d1 w1 =
      Some ((True, Some (Some b1), t1), w1')"
    and "build_domain_separated_message E2 o2 l2 m2 n2 d2 w2 =
      Some ((True, Some (Some b2), t2), w2')"
    and "heap w1' b1 = heap w2' b2"
  shows "domain_bytes d1 = domain_bytes d2 \<and> n1 = n2 \<and> message_bytes m1 n1 = message_bytes m2 n2"
proof -
  have block: "heap w' b = Some (ds_encode (domain_bytes d) (message_bytes m n))
      \<and> length (domain_bytes d) < 2 ^ 32 \<and> length (message_bytes m n) < 2 ^ 64
      \<and> length (message_bytes m n) = unat n"
    if res: "build_domain_separated_message E a l m n d w = Some ((True, Some (Some b), t), w')"
    for E :: "'c evp" and a l m n d w b t w'
  proof -
    note inp = build_true_inputs [OF res]
    obtain va vl where al: "a = Some va" "l = Some vl" using inp(3,4) by blast
    have "malloc_ok E (clock w) (ds_length d n)"
      using res build_nomem [OF inp(1,2), of E w va vl] by (auto simp: al)
    then show ?thesis
      using res build_done [OF inp(1,2), of E w va vl] ds_accepts_small [OF inp(2,1)]
        length_message_bytes [OF inp(2,1)]
      by (auto simp: al)
  qed
  let ?x = "(domain_bytes d1, message_bytes m1 n1)" and ?y = "(domain_bytes d2, message_bytes m2 n2)"
  have "ds_encode (fst ?x) (snd ?x) = ds_encode (fst ?y) (snd ?y)"
    using block [OF assms(1)] block [OF assms(2)] assms(3) by simp
  then have eq: "?x = ?y"
    using ds.put_prefix_free [of ?x ?y "[]" "[]"] block [OF assms(1)] block [OF assms(2)] by simp
  then have "unat n1 = unat n2"
    using block [OF assms(1)] block [OF assms(2)] by (metis prod.inject)
  with eq show ?thesis by (simp add: word_unat_eq_iff)
qed

lemma ds_builder_injective_witness:
  "\<exists>w'. build_domain_separated_message ideal_evp (Some None) (Some 0) (Some abc) 3 None
      empty_world = Some ((True, Some (Some 1), Some 29), w')
    \<and> domain_bytes (Some [0]) = domain_bytes None"
proof -
  have rd: "ds_readable (Some abc) 3 d \<and> ds_accepts (Some abc) 3 d \<and> domain_bytes d = []"
    if "d = None \<or> d = Some [0]" for d
    using that
    by (auto simp: ds_readable_def ds_accepts_def domain_length_def domain_bytes_def cstr_def
        abc_def HIGGAION_DOMAIN_MAX_LEN_def)
  obtain w1 where w1: "build_domain_separated_message ideal_evp (Some None) (Some 0) (Some abc) 3
      None empty_world = Some ((True, Some (Some 1), Some 29), w1)"
    "heap w1 1 = Some (ds_encode [] (message_bytes (Some abc) 3))"
    using build_done [of "Some abc" 3 None ideal_evp empty_world None 0] rd [of None]
    by (simp add: ds_length_def)
  obtain w2 where w2: "build_domain_separated_message ideal_evp (Some None) (Some 0) (Some abc) 3
      (Some [0]) empty_world = Some ((True, Some (Some 1), Some 29), w2)"
    "heap w2 1 = Some (ds_encode [] (message_bytes (Some abc) 3))"
    using build_done [of "Some abc" 3 "Some [0]" ideal_evp empty_world None 0] rd [of "Some [0]"]
    by (simp add: ds_length_def)
  have "domain_bytes (Some [0]) = domain_bytes None"
    using ds_builder_injective [OF w2(1) w1(1)] w1(2) w2(2) by simp
  with w1(1) show ?thesis by auto
qed

text \<open>
  C8. The four overflow checks before the allocation are exact: \<open>size_t\<close> arithmetic yields a
  total length if and only if the mathematical sum fits in 64 bits, and it is that sum.
\<close>

theorem total_length_never_wraps:
  "total_length dom_len msg_len = Some t \<longleftrightarrow>
     26 + unat dom_len + unat msg_len < 2 ^ 64 \<and> unat t = 26 + unat dom_len + unat msg_len"
proof
  assume "total_length dom_len msg_len = Some t"
  then show "26 + unat dom_len + unat msg_len < 2 ^ 64 \<and> unat t = 26 + unat dom_len + unat msg_len"
    using total_length_exact [of dom_len msg_len t] by (simp add: total_length_eq split: if_splits)
next
  assume a: "26 + unat dom_len + unat msg_len < 2 ^ 64 \<and> unat t = 26 + unat dom_len + unat msg_len"
  then have tot: "total_length dom_len msg_len = Some (26 + dom_len + msg_len)"
    by (simp add: total_length_eq)
  with a total_length_exact [OF tot] have "unat t = unat (26 + dom_len + msg_len)" by simp
  with tot show "total_length dom_len msg_len = Some t"
    by (metis word_unat_eq_iff)
qed

end
