(* ===== verification/KeyLifecycle.thy ===== *)
theory KeyLifecycle
  imports Runtime
begin

text \<open>
  Algorithm policy and key lifecycle of \<open>src/pqc_crypto.c\<close>: the allowlist
  (\<open>higgaion_is_algorithm_allowed\<close>), \<open>generate_keypair\<close>, \<open>higgaion_key_init\<close>,
  \<open>higgaion_key_free\<close> and \<open>higgaion_key_up_ref\<close> over the caller's \<open>HiggaionKey\<close> structs
  (pointers into \<open>structs\<close>, so two parameters may alias) and reference-counted \<open>EVP_PKEY\<close>
  objects. The lemmas give the ownership invariant: a struct never points to a destroyed
  object, and no sequence of operations frees an object twice.
\<close>

subsection \<open>Algorithm policy\<close>

definition HIGGAION_PQC_ALLOWLIST :: "string list" where
  "HIGGAION_PQC_ALLOWLIST =
     [''ML-DSA-87'', ''ML-DSA-65'', ''ML-DSA-44'', ''ML-KEM-1024'', ''ML-KEM-768'', ''ML-KEM-512'']"

text \<open>\<open>required\<close> is the build flag \<open>HIGGAION_PQC_REQUIRED\<close>.\<close>

fun allowlist_loop :: "string \<Rightarrow> string list \<Rightarrow> bool" where
  "allowlist_loop alg_name [] = False"
| "allowlist_loop alg_name (p # ps) = (if alg_name = p then True else allowlist_loop alg_name ps)"

definition higgaion_is_algorithm_allowed :: "bool \<Rightarrow> string option \<Rightarrow> bool" where
  "higgaion_is_algorithm_allowed required alg_name =
     (case alg_name of
        None \<Rightarrow> False
      | Some alg \<Rightarrow> if required then allowlist_loop alg HIGGAION_PQC_ALLOWLIST else True)"

lemma allowlist_loop_mem: "allowlist_loop alg ps \<longleftrightarrow> alg \<in> set ps"
  by (induction alg ps rule: allowlist_loop.induct) auto

subsection \<open>Operations\<close>

text \<open>
  \<open>EVP_PKEY_keygen(ctx, &key->pkey)\<close>: an object, when the call makes one, is stored in the
  field with one reference.
\<close>

definition evp_keygen :: "'k evp \<Rightarrow> addr \<Rightarrow> string \<Rightarrow> 'k world \<Rightarrow> (int \<times> 'k world) option" where
  "evp_keygen E key alg w =
     (let (rc, res) = keygen E (clock w) alg; w = ext_call E w in
      case res of
        None \<Rightarrow> Some (rc, w)
      | Some k \<Rightarrow> do {
          w \<leftarrow> set_pkey key (Some (brk w))
                (w\<lparr>brk := Suc (brk w), pkeys := (pkeys w)(brk w \<mapsto> (k, 1))\<rparr>);
          Some (rc, w) })"

definition log_provider :: "'k evp \<Rightarrow> addr \<Rightarrow> string \<Rightarrow> 'k world \<Rightarrow> 'k world option" where
  "log_provider E key alg w = do {
     field \<leftarrow> get_pkey key w;
     (case field of
        None \<Rightarrow> Some w
      | Some obj \<Rightarrow> do {
          k \<leftarrow> pkey_material obj w;
          (case provider_name E (clock w) k of
             None \<Rightarrow> Some w
           | Some prov \<Rightarrow> Some (log_message ''INFO'' ''CRYPTO''
               ''Generated %s keypair via provider: %s'' [LStr alg, LStr prov] w)) })
   }"

text \<open>The part of \<open>generate_keypair\<close> after the old key is gone: context, generation, log line.\<close>

definition generate_fresh :: "'k evp \<Rightarrow> addr \<Rightarrow> string \<Rightarrow> 'k world \<Rightarrow> 'k world option" where
  "generate_fresh E key alg w =
     (case key_ctx_new E alg w of
        (None, w) \<Rightarrow> Some (log_openssl_error ''EVP_PKEY_CTX_new_from_name'' w)
      | (Some ctx, w) \<Rightarrow>
          let rc = keygen_init E (clock w) alg; w = ext_call E w in
          if rc \<le> 0
          then key_ctx_free ctx (log_openssl_error ''EVP_PKEY_keygen_init'' w)
          else do {
            (rc, w) \<leftarrow> evp_keygen E key alg w;
            if rc \<le> 0
            then key_ctx_free ctx (log_openssl_error ''EVP_PKEY_keygen'' w)
            else do {
              w \<leftarrow> key_ctx_free ctx w;
              log_provider E key alg w } })"

definition generate_keypair ::
  "bool \<Rightarrow> 'k evp \<Rightarrow> addr option \<Rightarrow> string option \<Rightarrow> 'k world \<Rightarrow> 'k world option" where
  "generate_keypair required E key alg_name w =
     (case key of
        None \<Rightarrow> Some w
      | Some key \<Rightarrow>
          if \<not> higgaion_is_algorithm_allowed required alg_name
          then set_pkey key None
            (log_message ''ERROR'' ''CRYPTO''
              (''generate_keypair: algorithm '' @ [CHR 0x27] @ ''%s'' @ [CHR 0x27]
               @ '' rejected by PQC policy ''
               @ ''(only FIPS 203/204 algorithms permitted in production)'')
              [LStr (case alg_name of Some a \<Rightarrow> a | None \<Rightarrow> ''(null)'')] w)
          else do {
            old \<leftarrow> get_pkey key w;
            w \<leftarrow> (case old of
                    None \<Rightarrow> Some w
                  | Some obj \<Rightarrow> do { w \<leftarrow> pkey_free obj w; set_pkey key None w });
            generate_fresh E key (case alg_name of Some a \<Rightarrow> a | None \<Rightarrow> []) w
          })"

definition higgaion_key_init :: "addr option \<Rightarrow> 'k world \<Rightarrow> 'k world option" where
  "higgaion_key_init key w =
     (case key of None \<Rightarrow> Some w | Some key \<Rightarrow> Some (w\<lparr>structs := (structs w)(key \<mapsto> None)\<rparr>))"

definition higgaion_key_free :: "addr option \<Rightarrow> 'k world \<Rightarrow> 'k world option" where
  "higgaion_key_free key w =
     (case key of
        None \<Rightarrow> Some w
      | Some key \<Rightarrow> do {
          field \<leftarrow> get_pkey key w;
          (case field of
             None \<Rightarrow> Some w
           | Some obj \<Rightarrow> do { w \<leftarrow> pkey_free obj w; set_pkey key None w }) })"

text \<open>\<open>EVP_PKEY_up_ref\<close> adds a reference when it answers 1.\<close>

definition pkey_up_ref :: "'k evp \<Rightarrow> addr \<Rightarrow> 'k world \<Rightarrow> (int \<times> 'k world) option" where
  "pkey_up_ref E obj w =
     (case pkeys w obj of
        None \<Rightarrow> None
      | Some (k, n) \<Rightarrow>
          let rc = up_ref_rc E (clock w); w = ext_call E w in
          Some (rc, if rc = 1 then w\<lparr>pkeys := (pkeys w)(obj \<mapsto> (k, Suc n))\<rparr> else w))"

definition higgaion_key_up_ref ::
  "'k evp \<Rightarrow> addr option \<Rightarrow> addr option \<Rightarrow> 'k world \<Rightarrow> (int \<times> 'k world) option" where
  "higgaion_key_up_ref E dst src w =
     (case (dst, src) of
        (Some dst, Some src) \<Rightarrow> do {
          field \<leftarrow> get_pkey src w;
          (case field of
             None \<Rightarrow> Some (0, w)
           | Some obj \<Rightarrow> do {
               (rc, w) \<leftarrow> pkey_up_ref E obj w;
               if rc \<noteq> 1
               then Some (0, log_openssl_error ''EVP_PKEY_up_ref'' w)
               else do { w \<leftarrow> set_pkey dst (Some obj) w; Some (1, w) } }) }
      | _ \<Rightarrow> Some (0, w))"

subsection \<open>Ownership\<close>

text \<open>
  \<open>owners\<close> are the structs that hold an object, \<open>refs\<close> its reference count, \<open>slack\<close> the
  references nobody holds any more (leaked ones). \<open>key_safe\<close>: every held object is alive
  and has at least as many references as owners. \<open>leak_free\<close>: exactly as many.
\<close>

definition owners :: "(addr \<rightharpoonup> addr option) \<Rightarrow> addr \<Rightarrow> addr set" where
  "owners s obj = {a. s a = Some (Some obj)}"

definition refs :: "(addr \<rightharpoonup> 'k \<times> nat) \<Rightarrow> addr \<Rightarrow> nat" where
  "refs p obj = (case p obj of None \<Rightarrow> 0 | Some (k, n) \<Rightarrow> n)"

definition slack :: "'k world \<Rightarrow> addr \<Rightarrow> int" where
  "slack w obj = int (refs (pkeys w) obj) - int (card (owners (structs w) obj))"

definition key_safe :: "'k world \<Rightarrow> bool" where
  "key_safe w \<longleftrightarrow> wf_world w \<and> finite (dom (structs w)) \<and> (\<forall>obj. 0 \<le> slack w obj)
     \<and> (\<forall>obj k n. pkeys w obj = Some (k, n) \<longrightarrow> 0 < n)"

definition leak_free :: "'k world \<Rightarrow> bool" where
  "leak_free w \<longleftrightarrow> (\<forall>obj. slack w obj = 0)"

lemma owners_subset_dom: "owners s obj \<subseteq> dom s"
  by (auto simp: owners_def)

lemma finite_owners: "finite (dom s) \<Longrightarrow> finite (owners s obj)"
  by (rule finite_subset [OF owners_subset_dom])

lemma owners_upd:
  "owners (s(a \<mapsto> v)) obj =
     (if v = Some obj then insert a (owners s obj) else owners s obj - {a})"
  by (auto simp: owners_def)

lemma mem_owners: "a \<in> owners s obj \<longleftrightarrow> s a = Some (Some obj)"
  by (simp add: owners_def)

lemma card_owners_upd:
  assumes "finite (dom s)"
  shows "int (card (owners (s(a \<mapsto> v)) obj)) =
    int (card (owners s obj)) - of_bool (s a = Some (Some obj)) + of_bool (v = Some obj)"
proof -
  have fin: "finite (owners s obj)" using assms by (rule finite_owners)
  show ?thesis
  proof (cases "s a = Some (Some obj)")
    case True
    then have "a \<in> owners s obj" by (simp add: mem_owners)
    moreover from this fin have "0 < card (owners s obj)" by (auto simp: card_gt_0_iff)
    ultimately show ?thesis
      using fin True by (auto simp: owners_upd insert_absorb card_Diff_singleton)
  next
    case False
    then have "a \<notin> owners s obj" by (simp add: mem_owners)
    then show ?thesis using fin False by (auto simp: owners_upd)
  qed
qed

text \<open>Two states that agree on the fields the invariant reads.\<close>

definition same_keys :: "'k world \<Rightarrow> 'k world \<Rightarrow> bool" where
  "same_keys w w' \<longleftrightarrow> structs w' = structs w \<and> pkeys w' = pkeys w"

lemma same_keys_slack: "same_keys w w' \<Longrightarrow> slack w' = slack w"
  by (rule ext) (simp add: same_keys_def slack_def)

lemma same_keys_safe: "same_keys w w' \<Longrightarrow> wf_world w' \<Longrightarrow> key_safe w \<Longrightarrow> key_safe w'"
  by (simp add: key_safe_def same_keys_slack) (simp add: same_keys_def)

lemma key_safe_held:
  assumes "key_safe w" "structs w a = Some (Some obj)"
  obtains k n where "pkeys w obj = Some (k, n)" "0 < n"
proof -
  have "a \<in> owners (structs w) obj" using assms(2) by (simp add: mem_owners)
  moreover have "finite (owners (structs w) obj)"
    using assms(1) by (intro finite_owners) (simp add: key_safe_def)
  ultimately have "0 < card (owners (structs w) obj)" by (auto simp: card_gt_0_iff)
  moreover have "0 \<le> slack w obj" using assms(1) by (simp add: key_safe_def)
  ultimately have "0 < refs (pkeys w) obj" by (simp add: slack_def)
  then show ?thesis using that by (auto simp: refs_def split: option.splits)
qed

lemma wf_world_log [simp]:
  "wf_world (log_message l t f as w) = wf_world w"
  "wf_world (log_openssl_error msg w) = wf_world w"
  "wf_world (ext_call E w) = wf_world w"
  by (simp_all add: wf_world_def log_message_def log_openssl_error_def ext_call_def case_prod_beta Let_def)

lemma log_keys [simp]:
  "structs (log_message l t f as w) = structs w" "pkeys (log_message l t f as w) = pkeys w"
  "structs (log_openssl_error msg w) = structs w" "pkeys (log_openssl_error msg w) = pkeys w"
  "structs (ext_call E w) = structs w" "pkeys (ext_call E w) = pkeys w"
  "brk (ext_call E w) = brk w" "brk (log_openssl_error msg w) = brk w"
  "key_ctxs (log_openssl_error msg w) = key_ctxs w" "key_ctxs (ext_call E w) = key_ctxs w"
  "key_ctxs (log_message l t f as w) = key_ctxs w"
  by (simp_all add: log_message_def log_openssl_error_def ext_call_def case_prod_beta Let_def)

text \<open>Dropping the reference a struct holds: the object and the struct change together.\<close>

lemma drop_reference:
  assumes safe: "key_safe w" and held: "structs w a = Some (Some obj)"
  shows "\<exists>p. pkey_free obj w \<bind> set_pkey a None =
      Some (w\<lparr>pkeys := p, structs := (structs w)(a \<mapsto> None)\<rparr>)
    \<and> key_safe (w\<lparr>pkeys := p, structs := (structs w)(a \<mapsto> None)\<rparr>)
    \<and> slack (w\<lparr>pkeys := p, structs := (structs w)(a \<mapsto> None)\<rparr>) = slack w
    \<and> (\<forall>x. x \<noteq> obj \<longrightarrow> p x = pkeys w x)"
proof -
  obtain k n where kn: "pkeys w obj = Some (k, n)" "0 < n"
    using key_safe_held [OF safe held] by blast
  let ?p = "if n \<le> 1 then (pkeys w)(obj := None) else (pkeys w)(obj \<mapsto> (k, n - 1))"
  let ?w = "w\<lparr>pkeys := ?p, structs := (structs w)(a \<mapsto> None)\<rparr>"
  have eq: "pkey_free obj w \<bind> set_pkey a None = Some ?w"
    using kn held by (simp add: pkey_free_def set_pkey_def)
  have "int (refs ?p x) = int (refs (pkeys w) x) - of_bool (x = obj)" for x
    using kn by (auto simp: refs_def)
  moreover have fin: "finite (dom (structs w))" using safe by (simp add: key_safe_def)
  ultimately have sl: "slack ?w = slack w"
    using held by (auto simp: fun_eq_iff slack_def card_owners_upd)
  moreover have "wf_world ?w"
    using safe kn by (auto simp: key_safe_def wf_world_def)
  moreover have "\<forall>x k' m. ?p x = Some (k', m) \<longrightarrow> 0 < m"
    using safe by (auto simp: key_safe_def)
  moreover have "\<forall>x. x \<noteq> obj \<longrightarrow> ?p x = pkeys w x"
    by simp
  ultimately have "key_safe ?w"
    using safe fin unfolding key_safe_def by simp
  then show ?thesis
    using eq sl \<open>\<forall>x. x \<noteq> obj \<longrightarrow> ?p x = pkeys w x\<close> by blast
qed

text \<open>Overwriting a field that holds a reference loses exactly that reference.\<close>

lemma slack_overwrite:
  assumes "finite (dom (structs w))"
  shows "slack (w\<lparr>structs := (structs w)(a \<mapsto> None)\<rparr>) obj =
    slack w obj + of_bool (structs w a = Some (Some obj))"
  using assms by (simp add: slack_def card_owners_upd)

lemma key_safe_overwrite:
  assumes "key_safe w"
  shows "key_safe (w\<lparr>structs := (structs w)(a \<mapsto> None)\<rparr>)"
  using assms by (auto simp: key_safe_def slack_overwrite wf_world_def)

text \<open>A new object taken into an empty struct, and one more owner of an existing object.\<close>

lemma adopt_fresh:
  fixes k :: 'k and w :: "'k world"
  assumes safe: "key_safe w" and empty: "structs w a = Some None"
  defines "w' \<equiv> w\<lparr>brk := Suc (brk w), pkeys := (pkeys w)(brk w \<mapsto> (k, 1)),
    structs := (structs w)(a \<mapsto> Some (brk w))\<rparr>"
  shows "key_safe w' \<and> slack w' = slack w"
proof -
  have fresh: "pkeys w (brk w) = None" and fin: "finite (dom (structs w))"
    using safe wf_world_fresh by (auto simp: key_safe_def)
  have "0 \<le> slack w (brk w)" using safe by (simp add: key_safe_def)
  then have none: "card (owners (structs w) (brk w)) = 0"
    using fresh by (simp add: slack_def refs_def)
  have "slack w' obj = slack w obj" for obj
    using fin fresh none empty by (simp add: slack_def w'_def card_owners_upd refs_def)
  then have sl: "slack w' = slack w" by (rule ext)
  moreover have "wf_world w'"
    using safe by (auto simp: key_safe_def wf_world_def w'_def)
  moreover have "\<forall>x k' m. pkeys w' x = Some (k', m) \<longrightarrow> 0 < m"
    using safe by (auto simp: key_safe_def w'_def)
  moreover have "finite (dom (structs w'))" using fin by (simp add: w'_def)
  ultimately show ?thesis using safe by (simp add: key_safe_def)
qed

lemma adopt_shared:
  fixes a :: addr
  assumes safe: "key_safe w" and obj: "pkeys w obj = Some (k, n)"
  defines "w' \<equiv> w\<lparr>pkeys := (pkeys w)(obj \<mapsto> (k, Suc n)), structs := (structs w)(a \<mapsto> Some obj)\<rparr>"
  shows "key_safe w' \<and> slack w' x = slack w x + of_bool (structs w a = Some (Some x))"
proof -
  have fin: "finite (dom (structs w))" using safe by (simp add: key_safe_def)
  have sl: "slack w' y = slack w y + of_bool (structs w a = Some (Some y))" for y
    using fin obj by (auto simp: slack_def w'_def card_owners_upd refs_def)
  moreover have "wf_world w'"
    using safe obj by (auto simp: key_safe_def wf_world_def w'_def)
  moreover have "\<forall>x k' m. pkeys w' x = Some (k', m) \<longrightarrow> 0 < m"
    using safe by (auto simp: key_safe_def w'_def)
  moreover have "finite (dom (structs w'))" using fin by (simp add: w'_def)
  moreover have "\<forall>y. 0 \<le> slack w' y" using safe by (simp add: sl key_safe_def)
  ultimately show ?thesis by (simp add: key_safe_def)
qed

subsection \<open>The operations keep ownership\<close>

definition live_struct :: "'k world \<Rightarrow> addr option \<Rightarrow> bool" where
  "live_struct w key \<longleftrightarrow> (case key of None \<Rightarrow> True | Some a \<Rightarrow> structs w a \<noteq> None)"

definition held :: "'k world \<Rightarrow> addr option \<Rightarrow> addr option" where
  "held w key = (case key of None \<Rightarrow> None | Some a \<Rightarrow> (case structs w a of Some f \<Rightarrow> f | None \<Rightarrow> None))"

lemma key_init_safe:
  assumes "key_safe w"
  shows "\<exists>w'. higgaion_key_init key w = Some w' \<and> key_safe w' \<and> key_ctxs w' = key_ctxs w
    \<and> (\<forall>x. slack w' x = slack w x + of_bool (held w key = Some x))
    \<and> (\<forall>a. key = Some a \<longrightarrow> structs w' a = Some None)
    \<and> (\<forall>a. structs w a \<noteq> None \<longrightarrow> structs w' a \<noteq> None)"
proof (cases key)
  case None
  then show ?thesis using assms by (simp add: higgaion_key_init_def held_def)
next
  case (Some a)
  have "finite (dom (structs w))" using assms by (simp add: key_safe_def)
  then show ?thesis
    using assms Some key_safe_overwrite [OF assms, of a]
    by (simp add: higgaion_key_init_def slack_overwrite held_def split: option.split)
qed

lemma key_free_safe:
  assumes "key_safe w" "live_struct w key"
  shows "\<exists>w'. higgaion_key_free key w = Some w' \<and> key_safe w' \<and> slack w' = slack w
    \<and> key_ctxs w' = key_ctxs w
    \<and> structs w' = (case key of None \<Rightarrow> structs w | Some a \<Rightarrow> (structs w)(a \<mapsto> None))"
proof (cases "held w key")
  case None
  then show ?thesis
    using assms by (auto simp: higgaion_key_free_def held_def live_struct_def get_pkey_def
        split: option.splits)
next
  case (Some obj)
  then obtain a where a: "key = Some a" "structs w a = Some (Some obj)"
    by (auto simp: held_def split: option.splits)
  then show ?thesis
    using drop_reference [OF assms(1) a(2)]
    by (auto simp: higgaion_key_free_def get_pkey_def)
qed

lemma key_up_ref_safe:
  assumes "key_safe w" "live_struct w dst" "live_struct w src"
  shows "\<exists>rc w'. higgaion_key_up_ref E dst src w = Some (rc, w') \<and> key_safe w'
    \<and> key_ctxs w' = key_ctxs w
    \<and> (\<forall>x. slack w' x = slack w x + of_bool (rc = 1 \<and> held w dst = Some x))
    \<and> structs w' = (if rc = 1 then (structs w)(the dst \<mapsto> held w src) else structs w)
    \<and> (rc = 1 \<or> rc = 0)"
proof (cases "dst = None \<or> held w src = None")
  case True
  then have "higgaion_key_up_ref E dst src w = Some (0, w)"
    using assms
    by (auto simp: higgaion_key_up_ref_def held_def live_struct_def get_pkey_def
        split: option.splits)
  then show ?thesis using assms(1) by simp
next
  case False
  then obtain d s obj where ds: "dst = Some d" "src = Some s" "structs w s = Some (Some obj)"
    by (auto simp: held_def split: option.splits)
  obtain k n where kn: "pkeys w obj = Some (k, n)"
    using key_safe_held [OF assms(1) ds(3)] by blast
  obtain f where f: "structs w d = Some f"
    using assms(2) ds by (auto simp: live_struct_def)
  show ?thesis
  proof (cases "up_ref_rc E (clock w) = 1")
    case False
    let ?w = "log_openssl_error ''EVP_PKEY_up_ref'' (ext_call E w)"
    have "same_keys w ?w" by (simp add: same_keys_def)
    moreover from this have "key_safe ?w"
      using assms(1) by (intro same_keys_safe [of w ?w]) (simp_all add: key_safe_def)
    ultimately show ?thesis
      using False ds kn same_keys_slack [of w ?w]
      by (simp add: higgaion_key_up_ref_def get_pkey_def pkey_up_ref_def)
  next
    case True
    have safe1: "key_safe (ext_call E w)" and sl1: "slack (ext_call E w) = slack w"
      using same_keys_safe [of w "ext_call E w"] same_keys_slack [of w "ext_call E w"] assms(1)
      by (simp_all add: same_keys_def key_safe_def)
    let ?w = "(ext_call E w)\<lparr>pkeys := (pkeys (ext_call E w))(obj \<mapsto> (k, Suc n)),
      structs := (structs (ext_call E w))(d \<mapsto> Some obj)\<rparr>"
    have "higgaion_key_up_ref E dst src w = Some (1, ?w)"
      using True ds kn f by (simp add: higgaion_key_up_ref_def get_pkey_def pkey_up_ref_def set_pkey_def)
    moreover have "key_safe ?w \<and> slack ?w x = slack w x + of_bool (held w dst = Some x)" for x
      using adopt_shared [of "ext_call E w" obj k n d x] safe1 sl1 kn f ds by (simp add: held_def)
    ultimately show ?thesis
      using ds f by (simp add: held_def)
  qed
qed

text \<open>
  \<open>generate_keypair\<close>: a rejected algorithm overwrites the field (leaking what it held); an
  allowed one releases the old object first. The context is released on every path.
\<close>

lemma key_ctx_new_keys:
  assumes "key_ctx_new E alg w = (r, w')" "key_safe w"
  shows "key_safe w' \<and> slack w' = slack w \<and> structs w' = structs w \<and> pkeys w' = pkeys w
    \<and> (case r of None \<Rightarrow> key_ctxs w' = key_ctxs w
        | Some c \<Rightarrow> c \<notin> key_ctxs w \<and> key_ctxs w' = insert c (key_ctxs w))"
proof -
  have "brk w \<notin> key_ctxs w" using assms(2) wf_world_fresh by (auto simp: key_safe_def)
  then have "structs w' = structs w \<and> pkeys w' = pkeys w
    \<and> (case r of None \<Rightarrow> key_ctxs w' = key_ctxs w
        | Some c \<Rightarrow> c \<notin> key_ctxs w \<and> key_ctxs w' = insert c (key_ctxs w))"
    using assms(1) by (auto simp: key_ctx_new_def Let_def ext_call_def split: if_splits)
  moreover have "wf_world w'"
    using assms by (auto simp: key_ctx_new_def Let_def ext_call_def wf_world_def key_safe_def
        split: if_splits)
  ultimately show ?thesis
    using same_keys_safe [of w w'] same_keys_slack [of w w'] assms(2) by (auto simp: same_keys_def)
qed

lemma key_ctx_free_keys:
  assumes "key_safe w" "c \<in> key_ctxs w"
  shows "\<exists>w'. key_ctx_free c w = Some w' \<and> key_safe w' \<and> slack w' = slack w
    \<and> structs w' = structs w \<and> pkeys w' = pkeys w \<and> key_ctxs w' = key_ctxs w - {c}"
proof -
  let ?w = "w\<lparr>key_ctxs := key_ctxs w - {c}\<rparr>"
  have "same_keys w ?w" by (simp add: same_keys_def)
  moreover have "wf_world ?w" using assms(1) by (auto simp: wf_world_def key_safe_def)
  ultimately show ?thesis
    using assms same_keys_safe [of w ?w] same_keys_slack [of w ?w] by (simp add: key_ctx_free_def)
qed

lemma evp_keygen_keys:
  assumes "key_safe w" "structs w a = Some None"
  shows "\<exists>w'. evp_keygen E a alg w = Some (fst (keygen E (clock w) alg), w')
    \<and> key_safe w' \<and> slack w' = slack w \<and> key_ctxs w' = key_ctxs w
    \<and> (\<exists>f. structs w' = (structs w)(a \<mapsto> f) \<and> (f = None) = (snd (keygen E (clock w) alg) = None)
         \<and> (\<forall>obj. f = Some obj \<longrightarrow> pkeys w obj = None))"
proof -
  let ?e = "ext_call E w"
  have fresh: "pkeys w (brk w) = None"
    using assms(1) wf_world_fresh by (auto simp: key_safe_def)
  have same: "same_keys w ?e" by (simp add: same_keys_def)
  then have safe: "key_safe ?e" and sl: "slack ?e = slack w"
    using same_keys_safe [OF same] same_keys_slack [OF same] assms(1) by (simp_all add: key_safe_def)
  show ?thesis
  proof (cases "keygen E (clock w) alg")
    case (Pair rc res)
    show ?thesis
    proof (cases res)
      case None
      then show ?thesis
        using Pair safe sl assms(2) by (auto simp: evp_keygen_def fun_upd_idem)
    next
      case (Some k)
      show ?thesis
        using adopt_fresh [OF safe, of a k] Pair Some sl assms(2) fresh
        by (auto simp: evp_keygen_def set_pkey_def intro!: exI [of _ "Some (brk w)"])
    qed
  qed
qed

lemma ext_call_keys:
  "key_safe w \<Longrightarrow> key_safe (ext_call E w) \<and> slack (ext_call E w) = slack w"
  using same_keys_safe [of w "ext_call E w"] same_keys_slack [of w "ext_call E w"]
  by (simp add: same_keys_def key_safe_def)

lemma log_error_keys:
  "key_safe w \<Longrightarrow> key_safe (log_openssl_error m w) \<and> slack (log_openssl_error m w) = slack w"
  using same_keys_safe [of w "log_openssl_error m w"] same_keys_slack [of w "log_openssl_error m w"]
  by (simp add: same_keys_def key_safe_def)

lemma log_message_keys:
  "key_safe w \<Longrightarrow> key_safe (log_message l t f as w) \<and> slack (log_message l t f as w) = slack w"
  using same_keys_safe [of w "log_message l t f as w"] same_keys_slack [of w "log_message l t f as w"]
  by (simp add: same_keys_def key_safe_def)

lemma log_provider_keys:
  assumes "key_safe w" "structs w a = Some f"
  shows "\<exists>w'. log_provider E a alg w = Some w' \<and> key_safe w' \<and> slack w' = slack w
    \<and> structs w' = structs w \<and> pkeys w' = pkeys w \<and> key_ctxs w' = key_ctxs w"
proof (cases f)
  case None
  then show ?thesis using assms by (simp add: log_provider_def get_pkey_def)
next
  case (Some obj)
  then obtain k n where "pkeys w obj = Some (k, n)"
    using key_safe_held [OF assms(1)] assms(2) by blast
  then show ?thesis
    using assms Some log_message_keys [OF assms(1)]
    by (simp add: log_provider_def get_pkey_def pkey_material_def split: option.split)
qed

lemma generate_fresh_keys:
  assumes "key_safe w" "structs w a = Some None"
  shows "\<exists>w' f. generate_fresh E a alg w = Some w' \<and> key_safe w' \<and> slack w' = slack w
    \<and> key_ctxs w' = key_ctxs w \<and> structs w' = (structs w)(a \<mapsto> f)
    \<and> (\<forall>obj. f = Some obj \<longrightarrow> pkeys w obj = None)"
proof -
  have idem: "structs w = (structs w)(a \<mapsto> None)"
    using assms(2) by (simp add: fun_upd_idem)
  obtain r w1 where new: "key_ctx_new E alg w = (r, w1)" by fastforce
  note k1 = key_ctx_new_keys [OF new assms(1)]
  show ?thesis
  proof (cases r)
    case None
    then show ?thesis
      using new k1 idem log_error_keys [of w1]
      by (auto simp: generate_fresh_def intro!: exI [of _ None])
  next
    case (Some c)
    let ?e = "ext_call E w1"
    have e: "key_safe ?e" "slack ?e = slack w" "structs ?e a = Some None"
      "c \<in> key_ctxs ?e" "key_ctxs ?e - {c} = key_ctxs w"
      using k1 ext_call_keys [of w1 E] Some assms(2) by auto
    show ?thesis
    proof (cases "keygen_init E (clock w1) alg \<le> 0")
      case True
      let ?l = "log_openssl_error ''EVP_PKEY_keygen_init'' ?e"
      show ?thesis
        using key_ctx_free_keys [of ?l c] e k1 Some True new idem log_error_keys [OF e(1)]
        by (auto simp: generate_fresh_def Let_def intro!: exI [of _ None])
    next
      case False
      obtain w2 f where w2: "evp_keygen E a alg ?e = Some (fst (keygen E (clock ?e) alg), w2)"
        "key_safe w2" "slack w2 = slack ?e" "key_ctxs w2 = key_ctxs ?e"
        "structs w2 = (structs ?e)(a \<mapsto> f)" "\<forall>obj. f = Some obj \<longrightarrow> pkeys ?e obj = None"
        using evp_keygen_keys [OF e(1,3), of E alg] by blast
      show ?thesis
      proof (cases "fst (keygen E (clock ?e) alg) \<le> 0")
        case True
        let ?l = "log_openssl_error ''EVP_PKEY_keygen'' w2"
        show ?thesis
          using key_ctx_free_keys [of ?l c] e k1 Some True False new w2 log_error_keys [OF w2(2)]
          by (auto simp: generate_fresh_def Let_def)
      next
        case pos: False
        obtain w3 where w3: "key_ctx_free c w2 = Some w3" "key_safe w3" "slack w3 = slack w2"
          "structs w3 = structs w2" "key_ctxs w3 = key_ctxs w2 - {c}"
          using key_ctx_free_keys [OF w2(2), of c] w2(4) e(4) by auto
        show ?thesis
          using log_provider_keys [OF w3(2), of a f E alg] e k1 Some pos False new w2 w3
          by (auto simp: generate_fresh_def Let_def)
      qed
    qed
  qed
qed

lemma generate_keypair_allowed:
  assumes "higgaion_is_algorithm_allowed required alg_name"
  shows "generate_keypair required E (Some a) alg_name w =
    higgaion_key_free (Some a) w \<bind>
      generate_fresh E a (case alg_name of Some s \<Rightarrow> s | None \<Rightarrow> [])"
  using assms by (cases "get_pkey a w") (auto simp: generate_keypair_def higgaion_key_free_def)

lemma generate_keypair_safe:
  assumes "key_safe w" "live_struct w key"
  shows "\<exists>w'. generate_keypair required E key alg_name w = Some w' \<and> key_safe w'
    \<and> key_ctxs w' = key_ctxs w
    \<and> (\<forall>x. slack w' x = slack w x
         + of_bool (\<not> higgaion_is_algorithm_allowed required alg_name \<and> held w key = Some x))
    \<and> dom (structs w') = dom (structs w)"
proof (cases key)
  case None
  then show ?thesis using assms by (simp add: generate_keypair_def held_def)
next
  case (Some a)
  then obtain f where f: "structs w a = Some f" using assms(2) by (auto simp: live_struct_def)
  have fin: "finite (dom (structs w))" using assms(1) by (simp add: key_safe_def)
  show ?thesis
  proof (cases "higgaion_is_algorithm_allowed required alg_name")
    case True
    obtain w1 where w1: "higgaion_key_free key w = Some w1" "key_safe w1" "slack w1 = slack w"
      "key_ctxs w1 = key_ctxs w" "structs w1 = (structs w)(a \<mapsto> None)"
      using key_free_safe [OF assms] Some by auto
    from generate_fresh_keys [OF w1(2), of a E "case alg_name of Some s \<Rightarrow> s | None \<Rightarrow> []"]
    show ?thesis
      using True w1 f Some generate_keypair_allowed [OF True, of E a w] by auto
  next
    case False
    obtain lg where lg: "generate_keypair required E key alg_name w = set_pkey a None lg"
      "lg = log_message ''ERROR'' ''CRYPTO''
              (''generate_keypair: algorithm '' @ [CHR 0x27] @ ''%s'' @ [CHR 0x27]
               @ '' rejected by PQC policy ''
               @ ''(only FIPS 203/204 algorithms permitted in production)'')
              [LStr (case alg_name of Some a \<Rightarrow> a | None \<Rightarrow> ''(null)'')] w"
      using False Some by (simp add: generate_keypair_def)
    have k: "key_safe lg" "slack lg = slack w" "structs lg = structs w" "key_ctxs lg = key_ctxs w"
      using log_message_keys [OF assms(1)] lg(2) by simp_all
    show ?thesis
      using False f Some fin lg(1) k key_safe_overwrite [OF k(1), of a]
        slack_overwrite [of lg a, unfolded k(3)]
      by (auto simp: set_pkey_def held_def)
  qed
qed

subsection \<open>Sequences of key operations\<close>

datatype key_op =
    KInit "addr option"
  | KFree "addr option"
  | KGenerate "addr option" "string option"
  | KUpRef "addr option" "addr option"

definition key_step :: "bool \<Rightarrow> 'k evp \<Rightarrow> key_op \<Rightarrow> 'k world \<Rightarrow> 'k world option" where
  "key_step required E op w =
     (case op of
        KInit key \<Rightarrow> higgaion_key_init key w
      | KFree key \<Rightarrow> higgaion_key_free key w
      | KGenerate key alg \<Rightarrow> generate_keypair required E key alg w
      | KUpRef dst src \<Rightarrow> map_option snd (higgaion_key_up_ref E dst src w))"

fun key_run :: "bool \<Rightarrow> 'k evp \<Rightarrow> key_op list \<Rightarrow> 'k world \<Rightarrow> 'k world option" where
  "key_run required E [] w = Some w"
| "key_run required E (op # ops) w = key_step required E op w \<bind> key_run required E ops"

text \<open>The initialised structs an operation is called with.\<close>

fun op_structs :: "key_op \<Rightarrow> addr set" where
  "op_structs (KInit key) = {}"
| "op_structs (KFree key) = set_option key"
| "op_structs (KGenerate key alg) = set_option key"
| "op_structs (KUpRef dst src) = set_option dst \<union> set_option src"

text \<open>The uses that lose no reference.\<close>

fun disciplined :: "bool \<Rightarrow> 'k world \<Rightarrow> key_op \<Rightarrow> bool" where
  "disciplined required w (KInit key) = (held w key = None)"
| "disciplined required w (KFree key) = True"
| "disciplined required w (KGenerate key alg) =
     (held w key = None \<or> higgaion_is_algorithm_allowed required alg)"
| "disciplined required w (KUpRef dst src) = (held w dst = None)"

lemma live_struct_dom: "set_option key \<subseteq> dom (structs w) \<Longrightarrow> live_struct w key"
  by (cases key) (auto simp: live_struct_def)

lemma key_step_safe:
  assumes "key_safe w" "op_structs op \<subseteq> dom (structs w)"
  shows "\<exists>w'. key_step required E op w = Some w' \<and> key_safe w' \<and> key_ctxs w' = key_ctxs w
    \<and> (disciplined required w op \<longrightarrow> slack w' = slack w)
    \<and> dom (structs w) \<subseteq> dom (structs w')"
proof (cases op)
  case (KInit key)
  with key_init_safe [OF assms(1), of key] show ?thesis
    by (fastforce simp: key_step_def)
next
  case (KFree key)
  with key_free_safe [OF assms(1) live_struct_dom, of key] assms(2) show ?thesis
    by (fastforce simp: key_step_def split: option.splits)
next
  case (KGenerate key alg)
  with generate_keypair_safe [OF assms(1) live_struct_dom, of key required E alg] assms(2)
  show ?thesis by (fastforce simp: key_step_def)
next
  case (KUpRef dst src)
  with assms(2) have "live_struct w dst" "live_struct w src"
    by (auto intro: live_struct_dom)
  from key_up_ref_safe [OF assms(1) this, of E] obtain rc w' where
    w': "higgaion_key_up_ref E dst src w = Some (rc, w')" "key_safe w'" "key_ctxs w' = key_ctxs w"
    "\<forall>x. slack w' x = slack w x + of_bool (rc = 1 \<and> held w dst = Some x)"
    "structs w' = (if rc = 1 then (structs w)(the dst \<mapsto> held w src) else structs w)"
    by blast
  have "dom (structs w) \<subseteq> dom (structs w')" using w'(5) by auto
  moreover have "disciplined required w op \<longrightarrow> slack w' = slack w" using w'(4) KUpRef by auto
  ultimately show ?thesis using w' KUpRef by (simp add: key_step_def)
qed

lemma key_run_safe:
  assumes "key_safe w" "\<forall>op \<in> set ops. op_structs op \<subseteq> dom (structs w)"
  shows "\<exists>w'. key_run required E ops w = Some w' \<and> key_safe w' \<and> key_ctxs w' = key_ctxs w
    \<and> dom (structs w) \<subseteq> dom (structs w')"
  using assms
proof (induction ops arbitrary: w)
  case Nil
  then show ?case by simp
next
  case (Cons op ops)
  obtain w1 where w1: "key_step required E op w = Some w1" "key_safe w1"
    "key_ctxs w1 = key_ctxs w" "dom (structs w) \<subseteq> dom (structs w1)"
    using key_step_safe [of w op required E] Cons.prems by auto
  then have "\<forall>op \<in> set ops. op_structs op \<subseteq> dom (structs w1)"
    using Cons.prems(2) by (meson list.set_intros(2) order_trans)
  from Cons.IH [OF w1(2) this] w1 show ?case by auto
qed

lemma free_all_run:
  assumes "key_safe w" "set as \<subseteq> dom (structs w)"
  shows "\<exists>w'. key_run required E (map (\<lambda>a. KFree (Some a)) as) w = Some w' \<and> key_safe w'
    \<and> slack w' = slack w \<and> structs w' = (\<lambda>a. if a \<in> set as then Some None else structs w a)"
  using assms
proof (induction as arbitrary: w)
  case Nil
  then show ?case by simp
next
  case (Cons a as)
  obtain w1 where w1: "higgaion_key_free (Some a) w = Some w1" "key_safe w1"
    "slack w1 = slack w" "structs w1 = (structs w)(a \<mapsto> None)"
    using key_free_safe [OF Cons.prems(1) live_struct_dom, of "Some a"] Cons.prems(2) by auto
  moreover have "set as \<subseteq> dom (structs w1)" using Cons.prems(2) w1(4) by auto
  ultimately obtain w' where "key_run required E (map (\<lambda>a. KFree (Some a)) as) w1 = Some w'"
    "key_safe w'" "slack w' = slack w1"
    "structs w' = (\<lambda>a. if a \<in> set as then Some None else structs w1 a)"
    using Cons.IH [of w1] by blast
  with w1 show ?case by (auto simp: key_step_def fun_eq_iff)
qed

lemma no_owner_no_object:
  assumes "key_safe w" "leak_free w" "\<forall>a. structs w a = None \<or> structs w a = Some None"
  shows "pkeys w = Map.empty"
proof (rule ext)
  fix obj
  have "owners (structs w) obj = {}"
    using assms(3) by (metis (mono_tags, lifting) empty_Collect_eq option.distinct(1) option.inject owners_def)
  then have "refs (pkeys w) obj = 0" using assms(2) by (simp add: leak_free_def slack_def)
  then show "pkeys w obj = None"
    using assms(1) by (auto simp: refs_def key_safe_def split: option.splits)
qed

fun disciplined_run :: "bool \<Rightarrow> 'k evp \<Rightarrow> key_op list \<Rightarrow> 'k world \<Rightarrow> bool" where
  "disciplined_run required E [] w = True"
| "disciplined_run required E (op # ops) w =
     (op_structs op \<subseteq> dom (structs w) \<and> disciplined required w op
      \<and> (case key_step required E op w of
           None \<Rightarrow> False
         | Some w' \<Rightarrow> disciplined_run required E ops w'))"

lemma disciplined_run_slack:
  assumes "key_safe w" "disciplined_run required E ops w"
  shows "\<exists>w'. key_run required E ops w = Some w' \<and> key_safe w' \<and> slack w' = slack w"
  using assms
proof (induction ops arbitrary: w)
  case Nil
  then show ?case by simp
next
  case (Cons op ops)
  from Cons.prems obtain w1 where w1: "key_step required E op w = Some w1" "key_safe w1"
    "slack w1 = slack w" "disciplined_run required E ops w1"
    using key_step_safe [of w op required E] by auto
  from Cons.IH [OF w1(2,4)] w1 show ?case by auto
qed

text \<open>The two invariants as machines over runs of steps.\<close>

lemma key_step_invar:
  assumes "op_structs op \<subseteq> dom (structs w)" "key_step required E op w = Some w'" "key_safe w"
  shows "key_safe w' \<and> (disciplined required w op \<longrightarrow> slack w' = slack w)"
  using key_step_safe [OF assms(3,1), of required E] assms(2) by auto

interpretation key_machine: state_machine
  "\<lambda>w op w'. op_structs op \<subseteq> dom (structs w) \<and> key_step required E op w = Some w'" key_safe
  for required and E :: "'k evp"
  by unfold_locales (use key_step_invar in blast)

interpretation leak_machine: state_machine
  "\<lambda>w op w'. op_structs op \<subseteq> dom (structs w) \<and> disciplined required w op
     \<and> key_step required E op w = Some w'"
  "\<lambda>w. key_safe w \<and> leak_free w"
  for required and E :: "'k evp"
  by unfold_locales (use key_step_invar in \<open>fastforce simp: leak_free_def\<close>)

lemma key_run_runs:
  assumes "key_safe w" "\<forall>op \<in> set ops. op_structs op \<subseteq> dom (structs w)"
    "key_run required E ops w = Some w'"
  shows "runs (\<lambda>w op w'. op_structs op \<subseteq> dom (structs w) \<and> key_step required E op w = Some w')
    w ops w'"
  using assms
proof (induction ops arbitrary: w)
  case Nil
  then show ?case by simp
next
  case (Cons op ops)
  obtain w1 where w1: "key_step required E op w = Some w1" "key_safe w1"
    "dom (structs w) \<subseteq> dom (structs w1)"
    using key_step_safe [of w op required E] Cons.prems by auto
  then have "\<forall>op \<in> set ops. op_structs op \<subseteq> dom (structs w1)"
    using Cons.prems(2) by (meson list.set_intros(2) order_trans)
  with Cons w1 show ?case by (auto simp: runs_Cons_iff)
qed

subsection \<open>Properties\<close>

text \<open>
  C9. Memory safety of the key lifecycle: from a state in which every held key is alive and
  has enough references, no sequence of init, free, generate and up_ref calls, in any order,
  with any aliasing of the structs and any failures of the library, frees an object twice or
  touches a freed one; the invariant holds again at the end and no key context is leaked.
\<close>

theorem key_lifecycle_memory_safe:
  assumes "key_safe w" "\<forall>op \<in> set ops. op_structs op \<subseteq> dom (structs w)"
  shows "\<exists>w'. key_run required E ops w = Some w' \<and> key_safe w' \<and> key_ctxs w' = key_ctxs w
    \<and> (\<forall>a obj. structs w' a = Some (Some obj) \<longrightarrow> (\<exists>k n. pkeys w' obj = Some (k, n) \<and> 0 < n))"
proof -
  obtain w' where w': "key_run required E ops w = Some w'" "key_ctxs w' = key_ctxs w"
    using key_run_safe [OF assms] by blast
  moreover from this have "key_safe w'"
    using key_machine.runs_invar [OF key_run_runs [OF assms]] assms(1) by blast
  ultimately show ?thesis using key_safe_held by metis
qed

definition two_structs :: "nat world" where
  "two_structs = empty_world\<lparr>structs := [10 \<mapsto> None, 11 \<mapsto> None]\<rparr>"

lemma two_structs_sel [simp]:
  "clock two_structs = 0" "brk two_structs = 1" "heap two_structs = Map.empty"
  "freed two_structs = []" "structs two_structs = [10 \<mapsto> None, 11 \<mapsto> None]"
  "pkeys two_structs = Map.empty" "md_ctxs two_structs = {}" "key_ctxs two_structs = {}"
  "err_queue two_structs = []" "logs two_structs = []"
  by (simp_all add: two_structs_def empty_world_def)

lemma two_structs_safe: "key_safe two_structs \<and> leak_free two_structs"
  by (auto simp: key_safe_def wf_world_def slack_def refs_def owners_def leak_free_def)

lemma key_lifecycle_memory_safe_witness:
  "\<exists>w'. key_run True ideal_evp
      [KGenerate (Some 10) (Some ''ML-DSA-87''), KUpRef (Some 11) (Some 10), KFree (Some 10),
       KFree (Some 10), KFree (Some 11)] two_structs = Some w' \<and> key_safe w'"
  using key_lifecycle_memory_safe [of two_structs
      "[KGenerate (Some 10) (Some ''ML-DSA-87''), KUpRef (Some 11) (Some 10), KFree (Some 10),
        KFree (Some 10), KFree (Some 11)]" True ideal_evp] two_structs_safe
  by auto

text \<open>
  No leak: after any sequence of calls that never overwrites a held key, and a final
  \<open>higgaion_key_free\<close> on every struct, no key object is left alive, whatever was shared
  between the structs by \<open>higgaion_key_up_ref\<close>.
\<close>

lemma disciplined_use_frees_every_key:
  assumes "key_safe w" "leak_free w" "disciplined_run required E ops w"
    and "key_run required E ops w = Some w1" "set as = dom (structs w1)"
  shows "\<exists>w'. key_run required E (ops @ map (\<lambda>a. KFree (Some a)) as) w = Some w'
    \<and> pkeys w' = Map.empty"
proof -
  have w1: "key_safe w1" "leak_free w1"
    using disciplined_run_slack [OF assms(1,3)] assms(2,4) by (auto simp: leak_free_def)
  obtain w' where w': "key_run required E (map (\<lambda>a. KFree (Some a)) as) w1 = Some w'"
    "key_safe w'" "slack w' = slack w1"
    "structs w' = (\<lambda>a. if a \<in> set as then Some None else structs w1 a)"
    using free_all_run [OF w1(1), of as required E] assms(5) by auto
  have "pkeys w' = Map.empty"
    using w1(2) w' assms(5) by (intro no_owner_no_object) (auto simp: leak_free_def)
  moreover have "key_run required E (ops @ bs) w = key_run required E bs w1" for bs
    using assms(4) by (induction ops arbitrary: w) (auto split: bind_splits)
  ultimately show ?thesis using w'(1) by auto
qed

lemma disciplined_use_frees_every_key_witness:
  "\<exists>w'. key_run True ideal_evp
      ([KGenerate (Some 10) (Some ''ML-DSA-87''), KUpRef (Some 11) (Some 10)]
        @ map (\<lambda>a. KFree (Some a)) [10, 11]) two_structs = Some w' \<and> pkeys w' = Map.empty"
proof -
  let ?ops = "[KGenerate (Some 10) (Some ''ML-DSA-87''), KUpRef (Some 11) (Some 10)]"
  note defs = key_step_def generate_keypair_def generate_fresh_def evp_keygen_def log_provider_def
    higgaion_is_algorithm_allowed_def HIGGAION_PQC_ALLOWLIST_def get_pkey_def set_pkey_def
    key_ctx_new_def key_ctx_free_def ext_call_def log_message_def pkey_material_def
    higgaion_key_up_ref_def pkey_up_ref_def held_def
  obtain w1 where w1: "key_run True ideal_evp ?ops two_structs = Some w1"
    "disciplined_run True ideal_evp ?ops two_structs" "set [10, 11] = dom (structs w1)"
    by (simp add: defs Let_def) auto
  show ?thesis
    using disciplined_use_frees_every_key [OF _ _ w1(2,1,3)] two_structs_safe by blast
qed

text \<open>
  C10. Algorithm policy: in a production build an algorithm name outside the FIPS 203/204
  allowlist (or a NULL name) never reaches the library: the call returns, the struct holds no
  key, and no external call was made.
\<close>

theorem rejected_algorithm_yields_no_key:
  assumes "key_safe w" "structs w a \<noteq> None"
    and "\<forall>alg. alg_name = Some alg \<longrightarrow> alg \<notin> set HIGGAION_PQC_ALLOWLIST"
  shows "\<exists>w'. generate_keypair True E (Some a) alg_name w = Some w'
    \<and> structs w' = (structs w)(a \<mapsto> None) \<and> pkeys w' = pkeys w
    \<and> clock w' = clock w \<and> length (logs w') = Suc (length (logs w))"
proof -
  have "\<not> higgaion_is_algorithm_allowed True alg_name"
    using assms(3) by (auto simp: higgaion_is_algorithm_allowed_def allowlist_loop_mem split: option.split)
  then show ?thesis
    using assms(2) by (auto simp: generate_keypair_def set_pkey_def log_message_def)
qed

definition one_key :: "nat world" where
  "one_key = two_structs\<lparr>brk := 2, structs := [10 \<mapsto> Some 1, 11 \<mapsto> None], pkeys := [1 \<mapsto> (7, 1)]\<rparr>"

lemma one_key_sel [simp]:
  "clock one_key = 0" "brk one_key = 2" "heap one_key = Map.empty"
  "freed one_key = []" "structs one_key = [10 \<mapsto> Some 1, 11 \<mapsto> None]"
  "pkeys one_key = [1 \<mapsto> (7, 1)]" "md_ctxs one_key = {}" "key_ctxs one_key = {}"
  "err_queue one_key = []" "logs one_key = []"
  by (simp_all add: one_key_def two_structs_def empty_world_def)

lemma one_key_safe: "key_safe one_key \<and> leak_free one_key"
proof -
  have own: "owners (structs one_key) obj = (if obj = 1 then {10} else {})" for obj
    by (auto simp: owners_def)
  have "slack one_key obj = 0" for obj
    unfolding slack_def own by (simp add: refs_def)
  then show ?thesis by (auto simp: key_safe_def wf_world_def leak_free_def)
qed

lemma rejected_algorithm_yields_no_key_witness:
  "\<exists>w'. generate_keypair True ideal_evp (Some 10) (Some ''ED25519'') one_key = Some w'
    \<and> structs w' 10 = Some None"
proof -
  have "\<exists>w'. generate_keypair True ideal_evp (Some 10) (Some ''ED25519'') one_key = Some w'
    \<and> structs w' = (structs one_key)(10 \<mapsto> None) \<and> pkeys w' = pkeys one_key
    \<and> clock w' = clock one_key \<and> length (logs w') = Suc (length (logs one_key))"
    by (rule rejected_algorithm_yields_no_key)
      (use one_key_safe in \<open>simp_all add: HIGGAION_PQC_ALLOWLIST_def\<close>)
  then show ?thesis by auto
qed

text \<open>
  The rejection path overwrites \<open>key->pkey\<close> without releasing it: a struct that already
  holds a key loses its reference, and the object can never be freed again (it stays alive
  with one reference more than it has owners). The comment HIG-004 on the next lines states
  that regeneration releases an existing key; that is true of the accepted path only.
\<close>

lemma rejected_regeneration_leaks:
  assumes "key_safe w" "structs w a = Some (Some obj)"
    and "\<not> higgaion_is_algorithm_allowed required alg_name"
  shows "\<exists>w'. generate_keypair required E (Some a) alg_name w = Some w'
    \<and> pkeys w' obj = pkeys w obj \<and> pkeys w' obj \<noteq> None \<and> slack w' obj = slack w obj + 1"
proof -
  have live: "live_struct w (Some a)" and held: "held w (Some a) = Some obj"
    using assms(2) by (simp_all add: live_struct_def held_def)
  obtain w' where w': "generate_keypair required E (Some a) alg_name w = Some w'"
    "\<forall>x. slack w' x = slack w x + of_bool (\<not> higgaion_is_algorithm_allowed required alg_name
      \<and> held w (Some a) = Some x)"
    using generate_keypair_safe [OF assms(1) live, of required E alg_name] by blast
  have "pkeys w' = pkeys w"
    using w'(1) assms(2,3) by (auto simp: generate_keypair_def set_pkey_def)
  moreover have "pkeys w obj \<noteq> None" using key_safe_held [OF assms(1,2)] by (metis option.distinct(1))
  ultimately show ?thesis using w' held assms(3) by simp
qed

lemma rejected_regeneration_leaks_witness:
  "\<exists>w'. generate_keypair True ideal_evp (Some 10) (Some ''ED25519'') one_key = Some w'
    \<and> pkeys w' 1 = pkeys one_key 1 \<and> pkeys w' 1 \<noteq> None \<and> slack w' 1 = slack one_key 1 + 1"
  by (rule rejected_regeneration_leaks)
    (use one_key_safe in \<open>simp_all add: higgaion_is_algorithm_allowed_def HIGGAION_PQC_ALLOWLIST_def\<close>)

text \<open>
  What \<open>generate_keypair\<close> leaves behind with an accepted algorithm, under every pattern
  of library failures: the struct is empty or is the only owner, with exactly one reference,
  of an object that did not exist before, and the reference the struct held before is gone
  from its object.
\<close>

lemma generate_keypair_result:
  assumes "key_safe w" "structs w a = Some old"
    and "higgaion_is_algorithm_allowed required alg_name"
  shows "\<exists>w' f. generate_keypair required E (Some a) alg_name w = Some w'
    \<and> structs w' = (structs w)(a \<mapsto> f)
    \<and> (\<forall>obj. f = Some obj \<longrightarrow> owners (structs w') obj = {a} \<and> refs (pkeys w') obj = 1)
    \<and> (\<forall>x. f \<noteq> Some x \<longrightarrow>
         int (refs (pkeys w') x) = int (refs (pkeys w) x) - of_bool (old = Some x))"
proof -
  let ?s = "case alg_name of Some s \<Rightarrow> s | None \<Rightarrow> []"
  have live: "live_struct w (Some a)" using assms(2) by (simp add: live_struct_def)
  obtain w1 where w1: "higgaion_key_free (Some a) w = Some w1" "key_safe w1" "slack w1 = slack w"
    "structs w1 = (structs w)(a \<mapsto> None)"
    using key_free_safe [OF assms(1) live] by auto
  obtain w' f where w': "generate_fresh E a ?s w1 = Some w'" "key_safe w'" "slack w' = slack w1"
    "structs w' = (structs w1)(a \<mapsto> f)" "\<forall>obj. f = Some obj \<longrightarrow> pkeys w1 obj = None"
    using generate_fresh_keys [OF w1(2), of a E ?s] w1(4) by auto
  have fin: "finite (dom (structs w))" using assms(1) by (simp add: key_safe_def)
  have fresh: "owners (structs w1) obj = {} \<and> slack w1 obj = 0" if "f = Some obj" for obj
  proof -
    have "0 \<le> slack w1 obj" using w1(2) by (simp add: key_safe_def)
    then have "card (owners (structs w1) obj) = 0"
      using w'(5) that by (simp add: slack_def refs_def)
    moreover have "finite (owners (structs w1) obj)"
      using fin w1(4) by (intro finite_owners) simp
    ultimately show ?thesis using w'(5) that by (simp add: slack_def refs_def)
  qed
  have own: "owners (structs w') obj = {a} \<and> refs (pkeys w') obj = 1" if "f = Some obj" for obj
  proof -
    have own: "owners (structs w') obj = {a}"
      using fresh [OF that] that unfolding w'(4) by (simp add: owners_upd)
    moreover have "slack w' obj = 0" using fresh [OF that] w'(3) by simp
    ultimately show ?thesis by (simp add: slack_def)
  qed
  have count: "int (refs (pkeys w') x) = int (refs (pkeys w) x) - of_bool (old = Some x)"
    if "f \<noteq> Some x" for x
  proof -
    have "slack w' x = slack w x" using w'(3) w1(3) by simp
    moreover have "int (card (owners (structs w') x)) =
        int (card (owners (structs w) x)) - of_bool (old = Some x)"
      using fin assms(2) that card_owners_upd [of "structs w" a f x] w'(4) w1(4) by simp
    ultimately show ?thesis by (simp add: slack_def)
  qed
  have "generate_keypair required E (Some a) alg_name w = Some w'"
    using w'(1) w1(1) generate_keypair_allowed [OF assms(3), of E a w] by simp
  moreover have "structs w' = (structs w)(a \<mapsto> f)" using w'(4) w1(4) by simp
  ultimately show ?thesis using own count by blast
qed

lemma generate_keypair_result_witness:
  "\<exists>w' f. generate_keypair True ideal_evp (Some 10) (Some ''ML-DSA-87'') one_key = Some w'
    \<and> structs w' = (structs one_key)(10 \<mapsto> f)"
  using generate_keypair_result [of one_key 10 "Some 1" True "Some ''ML-DSA-87''" ideal_evp]
    one_key_safe
  by (auto simp: higgaion_is_algorithm_allowed_def HIGGAION_PQC_ALLOWLIST_def)

end
