(* ===== verification/SignVerify.thy ===== *)
theory SignVerify
  imports DomainSep KeyLifecycle
begin

text \<open>
  \<open>pqc_sign\<close> and \<open>pqc_verify\<close> of \<open>src/pqc_crypto.c\<close>, with every allocation, library call and
  early return. \<open>sign_result\<close> and \<open>verify_result\<close> say what a call answers as a function of the
  library's answers; the refinement lemmas show that the C code computes exactly that, without
  undefined behaviour, releases the context and the scratch block on every path, and wipes
  the scratch block before it frees it.
\<close>

subsection \<open>Signing\<close>

definition OPENSSL_cleanse :: "addr \<Rightarrow> u64 \<Rightarrow> 'k world \<Rightarrow> 'k world option" where
  "OPENSSL_cleanse buf len w = mem_write buf 0 (replicate (unat len) 0) w"

text \<open>\<open>OPENSSL_cleanse(buffer, total_len); free(buffer);\<close> and the same after \<open>EVP_MD_CTX_free\<close>\<close>

definition wipe_free :: "addr \<Rightarrow> u64 \<Rightarrow> 'k world \<Rightarrow> 'k world option" where
  "wipe_free buf len w = do { w \<leftarrow> OPENSSL_cleanse buf len w; free_block buf w }"

definition finish :: "addr \<Rightarrow> addr \<Rightarrow> u64 \<Rightarrow> 'k world \<Rightarrow> 'k world option" where
  "finish mdctx buf len w = do { w \<leftarrow> md_ctx_free mdctx w; wipe_free buf len w }"

definition read_block :: "addr \<Rightarrow> u64 \<Rightarrow> 'k world \<Rightarrow> bytes option" where
  "read_block buf len w = read_bytes (heap w buf) (unat len)"

text \<open>The second call of \<open>EVP_DigestSign\<close>, into a zeroed block of the size just asked for.\<close>

definition sign_execute ::
  "'k evp \<Rightarrow> addr \<Rightarrow> addr \<Rightarrow> 'k \<Rightarrow> addr \<Rightarrow> u64 \<Rightarrow> u64 \<Rightarrow> 'k world
    \<Rightarrow> ((addr option option \<times> u64 option) \<times> 'k world) option" where
  "sign_execute E mdctx signature k buf total_len sig_len w = do {
     w \<leftarrow> mem_write signature 0 (replicate (unat sig_len) 0) w;
     msg \<leftarrow> read_block buf total_len w;
     let (rc, out, n) = sign_exec E (clock w) k msg sig_len;
     let w = record_call (DigestSign k msg rc) (ext_call E w);
     w \<leftarrow> mem_write signature 0 out w;
     if rc \<le> 0
     then do {
       w \<leftarrow> free_block signature (log_openssl_error ''EVP_DigestSign (execute)'' w);
       w \<leftarrow> finish mdctx buf total_len w;
       Some ((Some None, Some 0), w) }
     else do {
       w \<leftarrow> finish mdctx buf total_len w;
       Some ((Some (Some signature), Some n), w) }
   }"

definition sign_with_context ::
  "'k evp \<Rightarrow> addr \<Rightarrow> 'k \<Rightarrow> addr \<Rightarrow> u64 \<Rightarrow> 'k world
    \<Rightarrow> ((addr option option \<times> u64 option) \<times> 'k world) option" where
  "sign_with_context E mdctx k buf total_len w =
     (let rc = sign_init E (clock w) k; w = ext_call E w in
      if rc \<le> 0
      then do {
        w \<leftarrow> finish mdctx buf total_len (log_openssl_error ''EVP_DigestSignInit'' w);
        Some ((Some None, Some 0), w) }
      else do {
        msg \<leftarrow> read_block buf total_len w;
        let (rc, sig_len) = sign_size E (clock w) k msg;
        let w = ext_call E w;
        if rc \<le> 0
        then do {
          w \<leftarrow> finish mdctx buf total_len (log_openssl_error ''EVP_DigestSign (size)'' w);
          Some ((Some None, Some sig_len), w) }
        else
          (case malloc E sig_len w of
             (None, w) \<Rightarrow> do {
               w \<leftarrow> finish mdctx buf total_len w;
               Some ((Some None, Some sig_len), w) }
           | (Some signature, w) \<Rightarrow> sign_execute E mdctx signature k buf total_len sig_len w)
      })"

definition pqc_sign ::
  "'k evp \<Rightarrow> addr option option \<Rightarrow> u64 option \<Rightarrow> bytes option \<Rightarrow> u64 \<Rightarrow> bytes option \<Rightarrow> addr option
    \<Rightarrow> 'k world \<Rightarrow> ((addr option option \<times> u64 option) \<times> 'k world) option" where
  "pqc_sign E signature sig_len message msg_len domain sk w =
     (let signature = map_option (\<lambda>_. None) signature;
          sig_len = map_option (\<lambda>_. 0) sig_len in
      if signature = None \<or> sig_len = None
      then Some ((signature, sig_len),
        log_message ''ERROR'' ''CRYPTO'' ''pqc_sign: invalid output pointers'' [] w)
      else case sk of
        None \<Rightarrow> Some ((signature, sig_len), w)
      | Some sk \<Rightarrow> do {
          field \<leftarrow> get_pkey sk w;
          (case field of
             None \<Rightarrow> Some ((signature, sig_len), w)
           | Some obj \<Rightarrow> do {
               ((ok, buffer, total_len), w) \<leftarrow>
                 build_domain_separated_message E (Some None) (Some 0) message msg_len domain w;
               (case (ok, buffer, total_len) of
                  (True, Some (Some buf), Some total_len) \<Rightarrow>
                    (case md_ctx_new E w of
                       (None, w) \<Rightarrow> do {
                         w \<leftarrow> wipe_free buf total_len w;
                         Some ((signature, sig_len), w) }
                     | (Some mdctx, w) \<Rightarrow> do {
                         k \<leftarrow> pkey_material obj w;
                         sign_with_context E mdctx k buf total_len w })
                | _ \<Rightarrow> Some ((signature, sig_len), w)) }) })"

subsection \<open>Verifying\<close>

definition verify_with_context ::
  "'k evp \<Rightarrow> addr \<Rightarrow> 'k \<Rightarrow> addr \<Rightarrow> u64 \<Rightarrow> u64 \<Rightarrow> bytes option \<Rightarrow> u64 \<Rightarrow> 'k world
    \<Rightarrow> (bool \<times> 'k world) option" where
  "verify_with_context E mdctx k buf total_len msg_len signature sig_len w =
     (let rc = verify_init E (clock w) k; w = ext_call E w in
      if rc \<le> 0
      then do {
        w \<leftarrow> finish mdctx buf total_len (log_openssl_error ''EVP_DigestVerifyInit'' w);
        Some (False, w) }
      else do {
        msg \<leftarrow> read_block buf total_len w;
        s \<leftarrow> read_bytes signature (unat sig_len);
        let rc = verify_exec E (clock w) k s msg;
        let w = record_call (DigestVerify k s msg rc) (ext_call E w);
        let w = (if rc \<noteq> 1
                 then log_openssl_error ''EVP_DigestVerify''
                   (log_message ''ERROR'' ''CRYPTO''
                     ''EVP_DigestVerify failed (rc=%d, msg_len=%zu, sig_len=%zu)''
                     [LNum rc, LNum (uint msg_len), LNum (uint sig_len)] w)
                 else w);
        w \<leftarrow> finish mdctx buf total_len w;
        Some (rc = 1, w)
      })"

definition pqc_verify ::
  "'k evp \<Rightarrow> bytes option \<Rightarrow> u64 \<Rightarrow> bytes option \<Rightarrow> u64 \<Rightarrow> bytes option \<Rightarrow> addr option
    \<Rightarrow> 'k world \<Rightarrow> (bool \<times> 'k world) option" where
  "pqc_verify E message msg_len signature sig_len domain pk w =
     (case pk of
        None \<Rightarrow> Some (False, w)
      | Some pk \<Rightarrow> do {
          field \<leftarrow> get_pkey pk w;
          (case field of
             None \<Rightarrow> Some (False, w)
           | Some obj \<Rightarrow>
               if signature = None then Some (False, w)
               else if sig_len = 0 then Some (False, w)
               else if msg_len > 0 \<and> message = None
               then Some (False, log_message ''ERROR'' ''CRYPTO''
                 ''pqc_verify: msg_len > 0 but message is NULL'' [] w)
               else do {
                 ((ok, buffer, total_len), w) \<leftarrow>
                   build_domain_separated_message E (Some None) (Some 0) message msg_len domain w;
                 (case (ok, buffer, total_len) of
                    (True, Some (Some buf), Some total_len) \<Rightarrow>
                      (case md_ctx_new E w of
                         (None, w) \<Rightarrow> do { w \<leftarrow> wipe_free buf total_len w; Some (False, w) }
                       | (Some mdctx, w) \<Rightarrow> do {
                           k \<leftarrow> pkey_material obj w;
                           verify_with_context E mdctx k buf total_len msg_len signature sig_len w })
                  | _ \<Rightarrow> Some (False, w)) }) })"

subsection \<open>What a call answers\<close>

text \<open>
  The answers of the library, in the order the code asks: \<open>c\<close> is the clock at the first call.
\<close>

definition sign_context_result :: "'k evp \<Rightarrow> nat \<Rightarrow> 'k \<Rightarrow> bytes \<Rightarrow> bytes option \<times> u64" where
  "sign_context_result E c k msg =
     (if sign_init E c k \<le> 0 then (None, 0)
      else let (rc, n) = sign_size E (c + 1) k msg in
      if rc \<le> 0 \<or> \<not> malloc_ok E (c + 2) n then (None, n)
      else let (rc, out, n') = sign_exec E (c + 3) k msg n in
      if rc \<le> 0 then (None, 0)
      else (Some (put_slice 0 out (replicate (unat n) 0)), n'))"

definition sign_result :: "'k evp \<Rightarrow> nat \<Rightarrow> 'k \<Rightarrow> bytes \<Rightarrow> u64 \<Rightarrow> bytes option \<times> u64" where
  "sign_result E c k msg t =
     (if malloc_ok E c t \<and> md_ctx_ok E (c + 1) then sign_context_result E (c + 2) k msg
      else (None, 0))"

definition verify_result :: "'k evp \<Rightarrow> nat \<Rightarrow> 'k \<Rightarrow> bytes \<Rightarrow> u64 \<Rightarrow> bytes \<Rightarrow> bool" where
  "verify_result E c k msg t s \<longleftrightarrow>
     malloc_ok E c t \<and> md_ctx_ok E (c + 1) \<and> verify_init E (c + 2) k > 0
     \<and> verify_exec E (c + 3) k s msg = 1"

text \<open>\<open>EVP_DigestSign\<close> writes at most \<open>*siglen\<close> bytes (its documented contract).\<close>

definition sign_fits :: "'k evp \<Rightarrow> bool" where
  "sign_fits E \<longleftrightarrow> (\<forall>c k msg n. length (fst (snd (sign_exec E c k msg n))) \<le> unat n)"

text \<open>
  What may change: the heap becomes \<open>h\<close>, the blocks \<open>fs\<close> were freed with these contents, the
  live contexts become \<open>cs\<close>; structs and keys are untouched.
\<close>

definition effect :: "'k world \<Rightarrow> 'k world \<Rightarrow> (addr \<rightharpoonup> bytes) \<Rightarrow> bytes list \<Rightarrow> addr set \<Rightarrow> bool" where
  "effect w w' h fs cs \<longleftrightarrow> heap w' = h \<and> freed w' = fs @ freed w \<and> md_ctxs w' = cs
     \<and> structs w' = structs w \<and> pkeys w' = pkeys w \<and> key_ctxs w' = key_ctxs w
     \<and> brk w \<le> brk w' \<and> wf_world w'"

lemma effect_key_safe: "effect w w' h fs cs \<Longrightarrow> key_safe w \<Longrightarrow> key_safe w' \<and> slack w' = slack w"
  using same_keys_safe [of w w'] same_keys_slack [of w w'] by (simp add: effect_def same_keys_def)

lemma mem_write_whole:
  "heap w a = Some old \<Longrightarrow> length bs = length old \<Longrightarrow>
     mem_write a 0 bs w = Some (w\<lparr>heap := (heap w)(a \<mapsto> bs)\<rparr>)"
  by (simp add: mem_write_at put_slice_whole)

lemma wipe_free_eq [c_mem]:
  assumes "heap w buf = Some bs" "length bs = unat len"
  shows "wipe_free buf len w = Some (w\<lparr>heap := (heap w)(buf := None),
    freed := replicate (unat len) 0 # freed w\<rparr>)"
  using assms by (simp add: wipe_free_def OPENSSL_cleanse_def mem_write_whole free_block_def)

lemma finish_eq [c_mem]:
  assumes "heap w buf = Some bs" "length bs = unat len" "c \<in> md_ctxs w"
  shows "finish c buf len w = Some (w\<lparr>md_ctxs := md_ctxs w - {c}, heap := (heap w)(buf := None),
    freed := replicate (unat len) 0 # freed w\<rparr>)"
  using assms by (simp add: finish_def md_ctx_free_def wipe_free_eq)

lemma log_world [simp]:
  "heap (log_message l t f as w) = heap w" "freed (log_message l t f as w) = freed w"
  "md_ctxs (log_message l t f as w) = md_ctxs w" "brk (log_message l t f as w) = brk w"
  "clock (log_message l t f as w) = clock w"
  "heap (log_openssl_error m w) = heap w" "freed (log_openssl_error m w) = freed w"
  "md_ctxs (log_openssl_error m w) = md_ctxs w" "clock (log_openssl_error m w) = clock w"
  "heap (ext_call E w) = heap w" "freed (ext_call E w) = freed w"
  "md_ctxs (ext_call E w) = md_ctxs w" "clock (ext_call E w) = Suc (clock w)"
  by (simp_all add: log_message_def log_openssl_error_def ext_call_def case_prod_beta Let_def)

text \<open>Leaving through \<open>finish\<close> from a state that still has the scratch block and the context.\<close>

lemma finish_effect:
  assumes "effect w0 w h fs cs" "heap w buf = Some bs" "length bs = unat len" "c \<in> md_ctxs w"
  shows "\<exists>w'. finish c buf len w = Some w'
    \<and> effect w0 w' (h(buf := None)) (replicate (unat len) 0 # fs) (cs - {c})"
  using assms by (auto simp: finish_eq effect_def wf_world_def)

lemma effect_log:
  "effect w0 (log_openssl_error m w) h fs cs = effect w0 w h fs cs"
  "effect w0 (log_message l t f as w) h fs cs = effect w0 w h fs cs"
  "effect w0 (ext_call E w) h fs cs = effect w0 w h fs cs"
  "effect w0 (record_call c w) h fs cs = effect w0 w h fs cs"
  by (simp_all add: effect_def)

lemma sign_execute_effect:
  assumes fits: "sign_fits E" and eff: "effect w0 w h fs cs"
    and sg: "heap w sg = Some old" "length old = unat n"
    and buf: "heap w buf = Some msg" "length msg = unat t" "buf \<noteq> sg" and c: "c \<in> md_ctxs w"
  shows "\<exists>w' r len. sign_execute E c sg k buf t n w = Some ((Some r, Some len), w')
    \<and> (let (rc, out, n') = sign_exec E (clock w) k msg n in
       if rc \<le> 0
       then r = None \<and> len = 0
         \<and> effect w0 w' (h(sg := None, buf := None))
             (replicate (unat t) 0 # put_slice 0 out (replicate (unat n) 0) # fs) (cs - {c})
       else r = Some sg \<and> len = n'
         \<and> effect w0 w' (h(sg \<mapsto> put_slice 0 out (replicate (unat n) 0), buf := None))
             (replicate (unat t) 0 # fs) (cs - {c}))"
proof -
  obtain rc out n' where ex: "sign_exec E (clock w) k msg n = (rc, out, n')"
    by (metis prod_cases3)
  have out: "length out \<le> unat n" using fits ex unfolding sign_fits_def by (metis fst_conv snd_conv)
  define sb where "sb = put_slice 0 out (replicate (unat n) (0::byte))"
  let ?z = "w\<lparr>heap := (heap w)(sg \<mapsto> replicate (unat n) 0)\<rparr>"
  let ?x = "record_call (DigestSign k msg rc) (ext_call E ?z)"
  let ?e = "?x\<lparr>heap := (heap w)(sg \<mapsto> sb)\<rparr>"
  have h: "h = heap w" using eff by (simp add: effect_def)
  have z: "mem_write sg 0 (replicate (unat n) 0) w = Some ?z"
    using sg by (simp add: mem_write_whole)
  have rd: "read_block buf t ?z = Some msg"
    using buf by (simp add: read_block_def read_bytes_def)
  have wr: "mem_write sg 0 out ?x = Some ?e"
    using out by (simp add: mem_write_def sb_def)
  have effe: "effect w0 ?e (h(sg \<mapsto> sb)) fs cs"
    using eff sg(1) unfolding effect_def wf_world_def
    by (auto simp: h)
  have bufe: "heap ?e buf = Some msg" "c \<in> md_ctxs ?e" using buf c by simp_all
  show ?thesis
  proof (cases "rc \<le> 0")
    case True
    let ?f = "(log_openssl_error ''EVP_DigestSign (execute)'' ?e)
      \<lparr>heap := (heap w)(sg := None), freed := sb # freed ?e\<rparr>"
    have "effect w0 ?f (h(sg := None)) (sb # fs) cs"
      using effe unfolding effect_def wf_world_def by (auto simp: h)
    from finish_effect [OF this _ buf(2), of buf c] buf(1,3) c
    obtain w' where w': "finish c buf t ?f = Some w'"
      "effect w0 w' ((h(sg := None))(buf := None)) (replicate (unat t) 0 # sb # fs) (cs - {c})"
      by auto
    have "free_block sg (log_openssl_error ''EVP_DigestSign (execute)'' ?e) = Some ?f"
      by (simp add: free_block_def)
    then have "sign_execute E c sg k buf t n w = Some ((Some None, Some 0), w')"
      using True w'(1) z rd ex wr by (simp add: sign_execute_def)
    then show ?thesis using True w'(2) ex by (simp add: sb_def)
  next
    case False
    from finish_effect [OF effe bufe(1) buf(2) bufe(2)]
    obtain w' where w': "finish c buf t ?e = Some w'"
      "effect w0 w' ((h(sg \<mapsto> sb))(buf := None)) (replicate (unat t) 0 # fs) (cs - {c})"
      by auto
    then have "sign_execute E c sg k buf t n w = Some ((Some (Some sg), Some n'), w')"
      using False z rd ex wr by (simp add: sign_execute_def)
    then show ?thesis using False w'(2) ex by (simp add: sb_def)
  qed
qed

lemma malloc_effect:
  assumes "effect w0 w h fs cs" "malloc E n w = (r, w')"
  shows "clock w' = Suc (clock w)
    \<and> (case r of
         None \<Rightarrow> \<not> malloc_ok E (clock w) n \<and> effect w0 w' h fs cs
       | Some a \<Rightarrow> malloc_ok E (clock w) n \<and> a = brk w \<and> (\<exists>old. length old = unat n
           \<and> effect w0 w' (h(a \<mapsto> old)) fs cs \<and> heap w' a = Some old))"
  using assms by (auto simp: malloc_def Let_def effect_def wf_world_def split: if_splits)

lemma sign_with_context_effect:
  assumes fits: "sign_fits E" and eff: "effect w0 w h fs cs"
    and buf: "heap w buf = Some msg" "length msg = unat t" and c: "c \<in> md_ctxs w"
  shows "\<exists>w' r len bss. sign_with_context E c k buf t w = Some ((Some r, Some len), w')
    \<and> len = snd (sign_context_result E (clock w) k msg)
    \<and> (case fst (sign_context_result E (clock w) k msg) of
         None \<Rightarrow> r = None \<and> length bss \<le> 1
           \<and> effect w0 w' (h(buf := None)) (replicate (unat t) 0 # bss @ fs) (cs - {c})
       | Some bs \<Rightarrow> r = Some (brk w)
           \<and> effect w0 w' (h(brk w \<mapsto> bs, buf := None)) (replicate (unat t) 0 # fs) (cs - {c}))"
proof -
  let ?e1 = "ext_call E w"
  let ?e2 = "ext_call E ?e1"
  have e1: "effect w0 ?e1 h fs cs" and e2: "effect w0 ?e2 h fs cs"
    using eff by (simp_all add: effect_log)
  have rd: "read_block buf t ?e1 = Some msg"
    using buf by (simp add: read_block_def read_bytes_def)
  obtain rc n where sz: "sign_size E (Suc (clock w)) k msg = (rc, n)" by fastforce
  have hw: "h = heap w" using eff by (simp add: effect_def)
  consider "sign_init E (clock w) k \<le> 0"
    | "sign_init E (clock w) k > 0" "rc \<le> 0"
    | "sign_init E (clock w) k > 0" "rc > 0" by linarith
  then show ?thesis
  proof cases
    case 1
    let ?l = "log_openssl_error ''EVP_DigestSignInit'' ?e1"
    from finish_effect [of w0 ?l h fs cs buf msg t c] e1 buf c
    obtain w' where "finish c buf t ?l = Some w'"
      "effect w0 w' (h(buf := None)) (replicate (unat t) 0 # [] @ fs) (cs - {c})"
      by (auto simp: effect_log)
    with 1 show ?thesis
      by (auto simp: sign_with_context_def sign_context_result_def Let_def intro!: exI [of _ "[]"])
  next
    case 2
    let ?l = "log_openssl_error ''EVP_DigestSign (size)'' ?e2"
    from finish_effect [of w0 ?l h fs cs buf msg t c] e2 buf c
    obtain w' where "finish c buf t ?l = Some w'"
      "effect w0 w' (h(buf := None)) (replicate (unat t) 0 # [] @ fs) (cs - {c})"
      by (auto simp: effect_log)
    with 2 sz rd show ?thesis
      by (auto simp: sign_with_context_def sign_context_result_def Let_def intro!: exI [of _ "[]"])
  next
    case 3
    obtain r w1 where mal: "malloc E n ?e2 = (r, w1)" by fastforce
    note m = malloc_effect [OF e2 mal]
    have brk: "brk ?e2 = brk w" by simp
    show ?thesis
    proof (cases r)
      case None
      have e3: "effect w0 w1 h fs cs" "heap w1 buf = Some msg" "c \<in> md_ctxs w1"
        using m None buf c mal by (auto simp: malloc_def Let_def split: if_splits)
      from finish_effect [OF e3(1,2) buf(2) e3(3)]
      obtain w' where "finish c buf t w1 = Some w'"
        "effect w0 w' (h(buf := None)) (replicate (unat t) 0 # [] @ fs) (cs - {c})"
        by auto
      with 3 sz rd None mal m show ?thesis
        by (auto simp: sign_with_context_def sign_context_result_def Let_def intro!: exI [of _ "[]"])
    next
      case (Some sg)
      obtain old where old: "length old = unat n" "effect w0 w1 (h(sg \<mapsto> old)) fs cs"
        "heap w1 sg = Some old" "sg = brk w" "malloc_ok E (clock ?e2) n" "clock w1 = Suc (clock ?e2)"
        using m Some brk by auto
      have wf: "wf_world w" using eff by (simp add: effect_def)
      have ne: "buf \<noteq> sg"
        using wf_world_fresh [OF wf] buf(1) old(4) by auto
      have hb: "heap w1 buf = Some msg" "c \<in> md_ctxs w1"
        using old(2,3) ne buf c mal Some by (auto simp: malloc_def Let_def split: if_splits)
      obtain rc2 out n' where ex: "sign_exec E (clock w1) k msg n = (rc2, out, n')"
        by (metis prod_cases3)
      have clk: "clock w1 = clock w + 3" "clock ?e2 = clock w + 2" using old(6) by simp_all
      have swc: "sign_with_context E c k buf t w = sign_execute E c sg k buf t n w1"
        using 3 sz rd Some mal by (simp add: sign_with_context_def Let_def)
      have none: "h(sg := None) = h"
        using wf_world_fresh [OF wf] old(4) hw by (simp add: fun_upd_idem)
      from sign_execute_effect [OF fits old(2,3,1) hb(1) buf(2) ne hb(2), of k]
      obtain w' r len where w': "sign_execute E c sg k buf t n w1 = Some ((Some r, Some len), w')"
        "if rc2 \<le> 0
         then r = None \<and> len = 0
           \<and> effect w0 w' (h(buf := None))
               (replicate (unat t) 0 # put_slice 0 out (replicate (unat n) 0) # fs) (cs - {c})
         else r = Some sg \<and> len = n'
           \<and> effect w0 w' (h(sg \<mapsto> put_slice 0 out (replicate (unat n) 0), buf := None))
               (replicate (unat t) 0 # fs) (cs - {c})"
        unfolding ex Let_def prod.case fun_upd_upd none by blast
      have res: "sign_context_result E (clock w) k msg =
          (if rc2 \<le> 0 then (None, 0) else (Some (put_slice 0 out (replicate (unat n) 0)), n'))"
        using 3 sz old(5) ex unfolding clk by (simp add: sign_context_result_def Let_def)
      show ?thesis
      proof (cases "rc2 \<le> 0")
        case True
        then show ?thesis
          using w' res swc
          by (auto intro!: exI [of _ "[put_slice 0 out (replicate (unat n) 0)]"])
      next
        case False
        then show ?thesis using w' res swc old(4) by auto
      qed
    qed
  qed
qed

lemma md_ctx_new_effect:
  assumes "effect w0 w h fs cs" "md_ctx_new E w = (r, w')"
  shows "clock w' = Suc (clock w)
    \<and> (case r of
         None \<Rightarrow> \<not> md_ctx_ok E (clock w) \<and> effect w0 w' h fs cs
       | Some c \<Rightarrow> md_ctx_ok E (clock w) \<and> c \<notin> cs \<and> effect w0 w' h fs (insert c cs))"
proof -
  have "brk w \<notin> cs"
    using assms(1) wf_world_fresh by (auto simp: effect_def)
  then show ?thesis
    using assms by (auto simp: md_ctx_new_def Let_def effect_def wf_world_def ext_call_def split: if_splits)
qed

lemma build_effect:
  assumes "wf_world w" "ds_readable message msg_len domain"
  defines "msg \<equiv> ds_encode (domain_bytes domain) (message_bytes message msg_len)"
  shows "\<exists>w'. build_domain_separated_message E (Some out) (Some ol) message msg_len domain w =
      Some (if ds_accepts message msg_len domain \<and> malloc_ok E (clock w) (ds_length domain msg_len)
            then (True, Some (Some (brk w)), Some (ds_length domain msg_len))
            else (False, Some None, Some 0), w')
    \<and> effect w w' (if ds_accepts message msg_len domain
          \<and> malloc_ok E (clock w) (ds_length domain msg_len)
        then (heap w)(brk w \<mapsto> msg) else heap w) [] (md_ctxs w)
    \<and> (ds_accepts message msg_len domain \<longrightarrow> clock w' = Suc (clock w))"
proof (cases "ds_accepts message msg_len domain")
  case False
  with build_rejected [OF assms(2) False, of E out ol w] assms(1) show ?thesis
    by (auto simp: effect_def wf_world_def)
next
  case True
  then show ?thesis
    using build_nomem [OF assms(2) True, of E w out ol] build_done [OF assms(2) True, of E w out ol]
      assms(1)
    by (auto simp: effect_def wf_world_def msg_def)
qed

lemma pqc_sign_effect:
  assumes safe: "key_safe w" and fits: "sign_fits E"
    and rd: "ds_readable message msg_len domain"
    and key: "structs w a = Some (Some obj)" "pkeys w obj = Some (k, cnt)"
  defines "msg \<equiv> ds_encode (domain_bytes domain) (message_bytes message msg_len)"
    and "t \<equiv> ds_length domain msg_len"
  defines "res \<equiv> if ds_accepts message msg_len domain then sign_result E (clock w) k msg t
    else (None, 0)"
  shows "\<exists>w' r len fs. pqc_sign E (Some s0) (Some l0) message msg_len domain (Some a) w =
      Some ((Some r, Some len), w')
    \<and> len = snd res
    \<and> (case fst res of
         None \<Rightarrow> r = None \<and> effect w w' (heap w) fs (md_ctxs w)
       | Some bs \<Rightarrow> \<exists>sg. r = Some sg \<and> heap w sg = None
           \<and> effect w w' ((heap w)(sg \<mapsto> bs)) fs (md_ctxs w))
    \<and> (fs = [] \<and> fst res = None \<or> (\<exists>bss. fs = replicate (unat t) 0 # bss \<and> length bss \<le> 1
         \<and> (fst res \<noteq> None \<longrightarrow> bss = [])))"
proof -
  let ?ok = "ds_accepts message msg_len domain \<and> malloc_ok E (clock w) t"
  have wf: "wf_world w" using safe by (simp add: key_safe_def)
  obtain w1 where w1: "build_domain_separated_message E (Some None) (Some 0) message msg_len domain w =
      Some (if ?ok then (True, Some (Some (brk w)), Some t) else (False, Some None, Some 0), w1)"
    "effect w w1 (if ?ok then (heap w)(brk w \<mapsto> msg) else heap w) [] (md_ctxs w)"
    "ds_accepts message msg_len domain \<longrightarrow> clock w1 = Suc (clock w)"
    using build_effect [OF wf rd, of E None 0] unfolding msg_def t_def by blast
  show ?thesis
  proof (cases ?ok)
    case False
    then have "res = (None, 0)" by (auto simp: res_def sign_result_def)
    moreover have "pqc_sign E (Some s0) (Some l0) message msg_len domain (Some a) w =
        Some ((Some None, Some 0), w1)"
      using w1(1) key unfolding if_not_P [OF False]
      by (simp add: pqc_sign_def get_pkey_def Let_def)
    ultimately show ?thesis using w1(2) False by auto
  next
    case ok: True
    have fresh: "heap w (brk w) = None" using wf_world_fresh [OF wf] by simp
    then have idem: "((heap w)(brk w \<mapsto> msg))(brk w := None) = heap w"
      by (simp add: fun_upd_idem)
    have eff1: "effect w w1 ((heap w)(brk w \<mapsto> msg)) [] (md_ctxs w)" using w1(2) ok by simp
    have len: "length msg = unat t"
      using ok length_ds_block [OF _ rd] by (simp add: msg_def t_def)
    obtain r w2 where new: "md_ctx_new E w1 = (r, w2)" by fastforce
    note c = md_ctx_new_effect [OF eff1 new]
    have clk: "clock w1 = Suc (clock w)" using w1(3) ok by simp
    show ?thesis
    proof (cases r)
      case None
      then have eff2: "effect w w2 ((heap w)(brk w \<mapsto> msg)) [] (md_ctxs w)"
        and res: "res = (None, 0)"
        using c ok by (auto simp: res_def sign_result_def clk)
      let ?w3 = "w2\<lparr>heap := (heap w2)(brk w := None), freed := replicate (unat t) 0 # freed w2\<rparr>"
      have hb: "heap w2 (brk w) = Some msg" using eff2 by (simp add: effect_def)
      have "effect w ?w3 (heap w) [replicate (unat t) 0] (md_ctxs w)"
        using eff2 idem fresh by (auto simp: effect_def wf_world_def split: if_splits)
      moreover have "pqc_sign E (Some s0) (Some l0) message msg_len domain (Some a) w =
          Some ((Some None, Some 0), ?w3)"
        using ok w1(1) key new None wipe_free_eq [OF hb len]
        by (simp add: pqc_sign_def get_pkey_def Let_def)
      ultimately show ?thesis using res by auto
    next
      case (Some ctx)
      then have eff2: "effect w w2 ((heap w)(brk w \<mapsto> msg)) [] (insert ctx (md_ctxs w))"
        and ctx: "ctx \<notin> md_ctxs w" and clk2: "clock w2 = clock w + 2"
        and res: "res = sign_context_result E (clock w + 2) k msg"
        using c ok by (auto simp: res_def sign_result_def clk)
      have hb: "heap w2 (brk w) = Some msg" "ctx \<in> md_ctxs w2" "pkeys w2 = pkeys w"
        "brk w \<le> brk w2" "wf_world w2" using eff2 by (simp_all add: effect_def)
      have diff: "insert ctx (md_ctxs w) - {ctx} = md_ctxs w" using ctx by simp
      have sign: "pqc_sign E (Some s0) (Some l0) message msg_len domain (Some a) w =
          sign_with_context E ctx k (brk w) t w2"
        using ok w1(1) key new Some hb(3)
        by (simp add: pqc_sign_def get_pkey_def Let_def pkey_material_def)
      have ne: "brk w2 \<noteq> brk w" using hb(1) wf_world_fresh [OF hb(5)] by auto
      have none: "heap w (brk w2) = None" using wf hb(4) by (simp add: wf_world_def)
      have swap: "((heap w)(brk w \<mapsto> msg, brk w2 \<mapsto> bs))(brk w := None) = (heap w)(brk w2 \<mapsto> bs)" for bs
        using ne fresh by (auto simp: fun_eq_iff)
      obtain w' r' l' bss where w': "sign_with_context E ctx k (brk w) t w2 =
          Some ((Some r', Some l'), w')" "l' = snd res"
        "case fst res of
           None \<Rightarrow> r' = None \<and> length bss \<le> 1
             \<and> effect w w' (heap w) (replicate (unat t) 0 # bss @ []) (md_ctxs w)
         | Some bs \<Rightarrow> r' = Some (brk w2)
             \<and> effect w w' ((heap w)(brk w2 \<mapsto> bs)) [replicate (unat t) 0] (md_ctxs w)"
        using sign_with_context_effect [OF fits eff2 hb(1) len hb(2), of k]
        unfolding clk2 res [symmetric] diff idem swap by blast
      then show ?thesis
        unfolding sign using none by (cases "fst res") auto
    qed
  qed
qed

lemma verify_with_context_effect:
  assumes eff: "effect w0 w h fs cs" and buf: "heap w buf = Some msg" "length msg = unat t"
    and c: "c \<in> md_ctxs w" and s: "unat sig_len \<le> length s"
  shows "\<exists>w'. verify_with_context E c k buf t msg_len (Some s) sig_len w =
      Some (verify_init E (clock w) k > 0
        \<and> verify_exec E (clock w + 1) k (take (unat sig_len) s) msg = 1, w')
    \<and> effect w0 w' (h(buf := None)) (replicate (unat t) 0 # fs) (cs - {c})"
proof -
  let ?e1 = "ext_call E w"
  let ?e2 = "ext_call E ?e1"
  have e: "effect w0 ?e1 h fs cs" "effect w0 ?e2 h fs cs"
    using eff by (simp_all add: effect_log)
  have rd: "read_block buf t ?e1 = Some msg" "read_bytes (Some s) (unat sig_len) = Some (take (unat sig_len) s)"
    using buf s by (simp_all add: read_block_def read_bytes_def)
  let ?rc = "verify_exec E (Suc (clock w)) k (take (unat sig_len) s) msg"
  let ?e3 = "record_call (DigestVerify k (take (unat sig_len) s) msg ?rc) ?e2"
  show ?thesis
  proof (cases "verify_init E (clock w) k \<le> 0")
    case True
    let ?l = "log_openssl_error ''EVP_DigestVerifyInit'' ?e1"
    from finish_effect [of w0 ?l h fs cs buf msg t c] e buf c True show ?thesis
      by (auto simp: verify_with_context_def effect_log Let_def)
  next
    case False
    let ?l = "if ?rc \<noteq> 1
      then log_openssl_error ''EVP_DigestVerify''
        (log_message ''ERROR'' ''CRYPTO''
          ''EVP_DigestVerify failed (rc=%d, msg_len=%zu, sig_len=%zu)''
          [LNum ?rc, LNum (uint msg_len), LNum (uint sig_len)] ?e3)
      else ?e3"
    have "effect w0 ?l h fs cs" using e by (simp add: effect_log)
    moreover have "heap ?l buf = Some msg" "c \<in> md_ctxs ?l" using buf c by simp_all
    ultimately obtain w' where "finish c buf t ?l = Some w'"
      "effect w0 w' (h(buf := None)) (replicate (unat t) 0 # fs) (cs - {c})"
      using finish_effect [of w0 ?l h fs cs buf msg t c] buf(2) by blast
    with False rd show ?thesis
      by (cases "?rc = 1") (auto simp: verify_with_context_def Let_def)
  qed
qed

lemma pqc_verify_effect:
  assumes safe: "key_safe w" and rd: "ds_readable message msg_len domain"
    and key: "structs w a = Some (Some obj)" "pkeys w obj = Some (k, cnt)"
    and s: "unat sig_len \<le> length s" "sig_len \<noteq> 0"
  defines "msg \<equiv> ds_encode (domain_bytes domain) (message_bytes message msg_len)"
    and "t \<equiv> ds_length domain msg_len"
  shows "\<exists>w' fs. pqc_verify E message msg_len (Some s) sig_len domain (Some a) w =
      Some (ds_accepts message msg_len domain
        \<and> verify_result E (clock w) k msg t (take (unat sig_len) s), w')
    \<and> effect w w' (heap w) fs (md_ctxs w)
    \<and> (fs = [] \<or> fs = [replicate (unat t) 0])"
proof -
  let ?ok = "ds_accepts message msg_len domain \<and> malloc_ok E (clock w) t"
  let ?v = "pqc_verify E message msg_len (Some s) sig_len domain (Some a) w"
  have wf: "wf_world w" using safe by (simp add: key_safe_def)
  obtain w1 where w1: "build_domain_separated_message E (Some None) (Some 0) message msg_len domain w =
      Some (if ?ok then (True, Some (Some (brk w)), Some t) else (False, Some None, Some 0), w1)"
    "effect w w1 (if ?ok then (heap w)(brk w \<mapsto> msg) else heap w) [] (md_ctxs w)"
    "ds_accepts message msg_len domain \<longrightarrow> clock w1 = Suc (clock w)"
    using build_effect [OF wf rd, of E None 0] unfolding msg_def t_def by blast
  consider "msg_len > 0" "message = None" | "\<not> (msg_len > 0 \<and> message = None)" "\<not> ?ok"
    | "\<not> (msg_len > 0 \<and> message = None)" ?ok by blast
  then show ?thesis
  proof cases
    case 1
    then have no: "\<not> ds_accepts message msg_len domain" by (simp add: ds_accepts_def)
    from 1 have "?v = Some (False, log_message ''ERROR'' ''CRYPTO''
        ''pqc_verify: msg_len > 0 but message is NULL'' [] w)"
      using key s by (simp add: pqc_verify_def get_pkey_def)
    with no show ?thesis using wf by (simp add: effect_def)
  next
    case 2
    then have "?v = Some (False, w1)"
      using key s w1(1) unfolding if_not_P [OF 2(2)] by (auto simp: pqc_verify_def get_pkey_def)
    moreover have "effect w w1 (heap w) [] (md_ctxs w)" using w1(2) unfolding if_not_P [OF 2(2)] .
    ultimately show ?thesis using 2(2) by (auto simp: verify_result_def)
  next
    case 3
    have fresh: "heap w (brk w) = None" using wf_world_fresh [OF wf] by simp
    then have idem: "((heap w)(brk w \<mapsto> msg))(brk w := None) = heap w"
      by (simp add: fun_upd_idem)
    have eff1: "effect w w1 ((heap w)(brk w \<mapsto> msg)) [] (md_ctxs w)"
      using w1(2) unfolding if_P [OF 3(2)] .
    have len: "length msg = unat t"
      using 3(2) length_ds_block [OF _ rd] by (simp add: msg_def t_def)
    obtain r w2 where new: "md_ctx_new E w1 = (r, w2)" by fastforce
    note c = md_ctx_new_effect [OF eff1 new]
    have clk: "clock w1 = Suc (clock w)" using w1(3) 3(2) by simp
    show ?thesis
    proof (cases r)
      case None
      then have eff2: "effect w w2 ((heap w)(brk w \<mapsto> msg)) [] (md_ctxs w)"
        and no: "\<not> md_ctx_ok E (Suc (clock w))"
        using c clk by auto
      let ?w3 = "w2\<lparr>heap := (heap w2)(brk w := None), freed := replicate (unat t) 0 # freed w2\<rparr>"
      have hb: "heap w2 (brk w) = Some msg" using eff2 by (simp add: effect_def)
      have "effect w ?w3 (heap w) [replicate (unat t) 0] (md_ctxs w)"
        using eff2 idem fresh by (auto simp: effect_def wf_world_def split: if_splits)
      moreover have "?v = Some (False, ?w3)"
        using 3(1) w1(1) key s new None wipe_free_eq [OF hb len] unfolding if_P [OF 3(2)]
        by (auto simp: pqc_verify_def get_pkey_def)
      ultimately show ?thesis using no by (auto simp: verify_result_def)
    next
      case (Some ctx)
      then have eff2: "effect w w2 ((heap w)(brk w \<mapsto> msg)) [] (insert ctx (md_ctxs w))"
        and ctx: "ctx \<notin> md_ctxs w" "md_ctx_ok E (Suc (clock w))" and clk2: "clock w2 = clock w + 2"
        using c clk by auto
      have hb: "heap w2 (brk w) = Some msg" "ctx \<in> md_ctxs w2" "pkeys w2 = pkeys w"
        using eff2 by (simp_all add: effect_def)
      have diff: "insert ctx (md_ctxs w) - {ctx} = md_ctxs w" using ctx(1) by simp
      have v: "?v = verify_with_context E ctx k (brk w) t msg_len (Some s) sig_len w2"
        using 3(1) w1(1) key s new Some hb(3) unfolding if_P [OF 3(2)]
        by (auto simp: pqc_verify_def get_pkey_def pkey_material_def)
      have clk3: "clock w2 + 1 = clock w + 3" using clk2 by simp
      obtain w' where w': "?v = Some (verify_init E (clock w + 2) k > 0
          \<and> verify_exec E (clock w + 3) k (take (unat sig_len) s) msg = 1, w')"
        "effect w w' (heap w) [replicate (unat t) 0] (md_ctxs w)"
        using verify_with_context_effect [OF eff2 hb(1) len hb(2) s(1), of E k msg_len]
        unfolding v clk2 diff idem clk3 [unfolded clk2] by blast
      then show ?thesis using 3(2) ctx(2) by (auto simp: verify_result_def)
    qed
  qed
qed

subsection \<open>Properties\<close>

text \<open>
  C11. \<open>pqc_sign\<close> computes \<open>sign_result\<close>, in every state with safe keys and under every pattern
  of failures of the library: the signature block is new and holds the provider's bytes, the
  reported length is the provider's, nothing else on the heap, no struct and no key changes,
  every context is released, and no step is undefined behaviour.
\<close>

theorem pqc_sign_refines_result:
  assumes "key_safe w" "sign_fits E" "ds_readable message msg_len domain"
    and "structs w a = Some (Some obj)" "pkeys w obj = Some (k, cnt)"
  defines "res \<equiv> if ds_accepts message msg_len domain
    then sign_result E (clock w) k (ds_encode (domain_bytes domain) (message_bytes message msg_len))
      (ds_length domain msg_len)
    else (None, 0)"
  shows "\<exists>w' r. pqc_sign E (Some s0) (Some l0) message msg_len domain (Some a) w =
      Some ((Some r, Some (snd res)), w')
    \<and> (case fst res of
         None \<Rightarrow> r = None \<and> heap w' = heap w
       | Some bs \<Rightarrow> \<exists>sg. r = Some sg \<and> heap w sg = None \<and> heap w' = (heap w)(sg \<mapsto> bs))
    \<and> structs w' = structs w \<and> pkeys w' = pkeys w \<and> md_ctxs w' = md_ctxs w
    \<and> key_safe w'"
proof -
  obtain w' r len fs where w': "pqc_sign E (Some s0) (Some l0) message msg_len domain (Some a) w =
      Some ((Some r, Some len), w')" "len = snd res"
    "case fst res of
       None \<Rightarrow> r = None \<and> effect w w' (heap w) fs (md_ctxs w)
     | Some bs \<Rightarrow> \<exists>sg. r = Some sg \<and> heap w sg = None
         \<and> effect w w' ((heap w)(sg \<mapsto> bs)) fs (md_ctxs w)"
    using pqc_sign_effect [OF assms(1-5), of s0 l0] unfolding res_def by blast
  then obtain h where eff: "effect w w' h fs (md_ctxs w)" by (auto split: option.splits)
  show ?thesis
  proof (intro exI conjI)
    show "pqc_sign E (Some s0) (Some l0) message msg_len domain (Some a) w =
      Some ((Some r, Some (snd res)), w')" using w'(1,2) by simp
    show "case fst res of
         None \<Rightarrow> r = None \<and> heap w' = heap w
       | Some bs \<Rightarrow> \<exists>sg. r = Some sg \<and> heap w sg = None \<and> heap w' = (heap w)(sg \<mapsto> bs)"
      using w'(3) by (auto simp: effect_def split: option.splits)
    show "structs w' = structs w" "pkeys w' = pkeys w" "md_ctxs w' = md_ctxs w"
      using eff by (simp_all add: effect_def)
    show "key_safe w'" using effect_key_safe [OF eff assms(1)] by simp
  qed
qed

text \<open>
  C12. Key hygiene of \<open>pqc_sign\<close>: whatever fails, the scratch block with the message is wiped
  before it is given back to the allocator (the block freed last, hence first in the list,
  is all zero), and a returned signature means the scratch block is the only one freed.
\<close>

theorem pqc_sign_wipes_scratch:
  assumes "key_safe w" "sign_fits E" "ds_readable message msg_len domain"
    and "structs w a = Some (Some obj)" "pkeys w obj = Some (k, cnt)"
  shows "\<exists>w' r len fs. pqc_sign E (Some s0) (Some l0) message msg_len domain (Some a) w =
      Some ((Some r, Some len), w')
    \<and> freed w' = fs @ freed w
    \<and> (fs = [] \<and> r = None
       \<or> hd fs = replicate (unat (ds_length domain msg_len)) 0 \<and> length fs \<le> 2
         \<and> (r \<noteq> None \<longrightarrow> length fs = 1))"
proof -
  define res where "res = (if ds_accepts message msg_len domain
    then sign_result E (clock w) k (ds_encode (domain_bytes domain) (message_bytes message msg_len))
      (ds_length domain msg_len)
    else (None, 0))"
  obtain w' r len fs where w': "pqc_sign E (Some s0) (Some l0) message msg_len domain (Some a) w =
      Some ((Some r, Some len), w')"
    "case fst res of
       None \<Rightarrow> r = None \<and> effect w w' (heap w) fs (md_ctxs w)
     | Some bs \<Rightarrow> \<exists>sg. r = Some sg \<and> heap w sg = None
         \<and> effect w w' ((heap w)(sg \<mapsto> bs)) fs (md_ctxs w)"
    "fs = [] \<and> fst res = None \<or> (\<exists>bss. fs = replicate (unat (ds_length domain msg_len)) 0 # bss
       \<and> length bss \<le> 1 \<and> (fst res \<noteq> None \<longrightarrow> bss = []))"
    using pqc_sign_effect [OF assms, of s0 l0] unfolding res_def by blast
  have "freed w' = fs @ freed w" and "(r \<noteq> None) = (fst res \<noteq> None)"
    using w'(2) by (auto simp: effect_def split: option.splits)
  with w'(1,3) show ?thesis by auto
qed

definition signing_world :: "nat world" where
  "signing_world = one_key\<lparr>brk := 20\<rparr>"

lemma signing_world_sel [simp]:
  "clock signing_world = 0" "brk signing_world = 20" "heap signing_world = Map.empty"
  "freed signing_world = []" "structs signing_world = [10 \<mapsto> Some 1, 11 \<mapsto> None]"
  "pkeys signing_world = [1 \<mapsto> (7, 1)]" "md_ctxs signing_world = {}"
  "key_ctxs signing_world = {}" "err_queue signing_world = []" "logs signing_world = []"
  by (simp_all add: signing_world_def)

lemma signing_world_safe: "key_safe signing_world"
  using one_key_safe by (auto simp: key_safe_def wf_world_def slack_def)

lemma ideal_sign_fits: "sign_fits ideal_evp"
  by (auto simp: sign_fits_def)

text \<open>The inputs of the examples: message ABC, domain A, key material 7 held by struct 10.\<close>

lemma abc_inputs:
  "ds_readable (Some abc) 3 (Some domain_A)" "ds_accepts (Some abc) 3 (Some domain_A)"
  "domain_bytes (Some domain_A) = [65]" "message_bytes (Some abc) 3 = abc"
  "ds_length (Some domain_A) 3 = 30"
  by (simp_all add: ds_readable_def ds_accepts_def domain_length_def domain_bytes_def cstr_def
      domain_A_def abc_def bytes_of_def HIGGAION_DOMAIN_MAX_LEN_def message_bytes_def ds_length_def)

lemma length_abc: "length abc = 3"
  by (simp add: abc_def)

lemma abc_length: "length (ds_encode [65] abc) = 30"
  by (simp add: length_ds_encode abc_def)

lemma pqc_sign_refines_result_witness:
  "\<exists>w' sg. pqc_sign ideal_evp (Some None) (Some 0) (Some abc) 3 (Some domain_A) (Some 10)
      signing_world = Some ((Some (Some sg), Some 31), w')
    \<and> heap w' sg = Some (7 # ds_encode [65] abc)"
proof -
  have "sign_result ideal_evp 0 7 (ds_encode [65] abc) 30 = (Some (7 # ds_encode [65] abc), 31)"
    by (simp add: sign_result_def sign_context_result_def abc_length put_slice_def)
  then show ?thesis
    using pqc_sign_refines_result [OF signing_world_safe ideal_sign_fits abc_inputs(1),
        of 10 1 7 1 None 0]
    by (auto simp: abc_inputs)
qed

lemma pqc_sign_wipes_scratch_witness:
  "\<exists>w' r len fs. pqc_sign ideal_evp (Some None) (Some 0) (Some abc) 3 (Some domain_A) (Some 10)
      signing_world = Some ((Some r, Some len), w')
    \<and> freed w' = fs \<and> (fs = [] \<and> r = None \<or> hd fs = replicate 30 0)"
  using pqc_sign_wipes_scratch [OF signing_world_safe ideal_sign_fits abc_inputs(1),
      of 10 1 7 1 None 0]
  by (auto simp: abc_inputs)

text \<open>
  C13. \<open>pqc_verify\<close> computes \<open>verify_result\<close> on the domain-separated encoding: it answers
  true exactly when the inputs are accepted, every call succeeds and the library accepts the
  signature; the heap, the structs, the keys and the contexts are left as they were, and the
  only block it frees has been wiped.
\<close>

theorem pqc_verify_refines_result:
  assumes "key_safe w" "ds_readable message msg_len domain"
    and "structs w a = Some (Some obj)" "pkeys w obj = Some (k, cnt)"
    and "unat sig_len \<le> length s" "sig_len \<noteq> 0"
  shows "\<exists>w'. pqc_verify E message msg_len (Some s) sig_len domain (Some a) w =
      Some (ds_accepts message msg_len domain
        \<and> verify_result E (clock w) k
            (ds_encode (domain_bytes domain) (message_bytes message msg_len))
            (ds_length domain msg_len) (take (unat sig_len) s), w')
    \<and> heap w' = heap w \<and> structs w' = structs w \<and> pkeys w' = pkeys w \<and> md_ctxs w' = md_ctxs w
    \<and> key_safe w'
    \<and> (freed w' = freed w \<or> freed w' = replicate (unat (ds_length domain msg_len)) 0 # freed w)"
proof -
  obtain w' fs where w': "pqc_verify E message msg_len (Some s) sig_len domain (Some a) w =
      Some (ds_accepts message msg_len domain
        \<and> verify_result E (clock w) k
            (ds_encode (domain_bytes domain) (message_bytes message msg_len))
            (ds_length domain msg_len) (take (unat sig_len) s), w')"
    "effect w w' (heap w) fs (md_ctxs w)"
    "fs = [] \<or> fs = [replicate (unat (ds_length domain msg_len)) 0]"
    using pqc_verify_effect [OF assms, of E] by blast
  then show ?thesis
    using effect_key_safe [OF w'(2) assms(1)] by (auto simp: effect_def)
qed

lemma pqc_verify_refines_result_witness:
  "\<exists>w'. pqc_verify ideal_evp (Some abc) 3 (Some (7 # ds_encode [65] abc)) 31 (Some domain_A)
      (Some 10) signing_world = Some (True, w')"
proof -
  have "verify_result ideal_evp 0 7 (ds_encode [65] abc) 30 (7 # ds_encode [65] abc)"
    by (simp add: verify_result_def)
  then show ?thesis
    using pqc_verify_refines_result [OF signing_world_safe abc_inputs(1), of 10 1 7 1 31
        "7 # ds_encode [65] abc" ideal_evp]
    by (auto simp: abc_inputs abc_length)
qed

text \<open>
  Correctness of the signature scheme: a signature the provider reports as made, under any
  clock, is not empty, has the reported length, and is accepted for the same key and bytes.
\<close>

definition sig_correct :: "'k evp \<Rightarrow> bool" where
  "sig_correct E \<longleftrightarrow>
     (\<forall>c c' k msg n. case sign_exec E c k msg n of (rc, out, n') \<Rightarrow>
        rc > 0 \<longrightarrow> out \<noteq> [] \<and> unat n' = length out \<and> verify_exec E c' k out msg = 1)"

lemma sig_correctD:
  assumes "sig_correct E" "sign_exec E c k msg n = (rc, out, n')" "rc > 0"
  shows "out \<noteq> []" "unat n' = length out" "verify_exec E c' k out msg = 1"
proof -
  have "case sign_exec E c k msg n of (rc, out, n') \<Rightarrow>
      rc > 0 \<longrightarrow> out \<noteq> [] \<and> unat n' = length out \<and> verify_exec E c' k out msg = 1"
    by (rule assms(1) [unfolded sig_correct_def, rule_format])
  with assms(2,3) show "out \<noteq> []" "unat n' = length out" "verify_exec E c' k out msg = 1" by simp_all
qed

text \<open>A signature that was made is what one call of \<open>EVP_DigestSign\<close> wrote into a zeroed block.\<close>

lemma sign_result_out:
  assumes "sign_result E c k msg t = (Some blk, len)"
  obtains c' n rc out where "sign_exec E c' k msg n = (rc, out, len)" "rc > 0"
    "blk = put_slice 0 out (replicate (unat n) 0)"
proof -
  define n where "n = snd (sign_size E (c + 3) k msg)"
  obtain rc out n' where ex: "sign_exec E (c + 5) k msg n = (rc, out, n')"
    by (metis prod_cases3)
  then have "rc > 0" "blk = put_slice 0 out (replicate (unat n) 0)" "n' = len"
    using assms
    by (auto simp: sign_result_def sign_context_result_def n_def numeral_eq_Suc case_prod_beta
        Let_def split: if_splits)
  with that ex show thesis by blast
qed

text \<open>The block begins with the signature, and its length is the one reported.\<close>

lemma sign_block:
  assumes "sign_fits E" "sign_exec E c k msg n = (rc, out, len)" "unat len = length out" "out \<noteq> []"
  shows "0 < len" "unat len \<le> length (put_slice 0 out (replicate (unat n) 0))"
    "take (unat len) (put_slice 0 out (replicate (unat n) 0)) = out"
proof -
  have "length out \<le> unat n"
    using assms(1,2) unfolding sign_fits_def by (metis fst_conv snd_conv)
  then show "unat len \<le> length (put_slice 0 out (replicate (unat n) 0))"
    "take (unat len) (put_slice 0 out (replicate (unat n) 0)) = out"
    using assms(3) by (simp_all add: put_slice_def)
  show "0 < len" using assms(3,4) by (auto simp: word_gt_0)
qed

lemma sign_result_made:
  assumes "sig_correct E" "sign_fits E" "sign_result E c k msg t = (Some blk, len)"
  shows "0 < len" "unat len \<le> length blk"
    "verify_exec E c' k (take (unat len) blk) msg = 1"
proof -
  obtain c0 n rc out where out: "sign_exec E c0 k msg n = (rc, out, len)" "rc > 0"
    "blk = put_slice 0 out (replicate (unat n) 0)"
    using sign_result_out [OF assms(3)] by blast
  note ok = sig_correctD [OF assms(1) out(1,2)]
  from ok(3) [of c'] sign_block [OF assms(2) out(1) ok(2,1)] show "0 < len" "unat len \<le> length blk"
    "verify_exec E c' k (take (unat len) blk) msg = 1"
    unfolding out(3) by simp_all
qed

text \<open>
  C14. Round trip: a signature that \<open>pqc_sign\<close> returns is accepted by \<open>pqc_verify\<close>, in any later
  state and through any struct that holds the same key, for any pointers to the same message
  and domain bytes, as soon as the verifier's allocations and its initialisation succeed.
\<close>

theorem sign_then_verify:
  assumes "key_safe w" "sign_fits E" "sig_correct E" "ds_readable message msg_len domain"
    and "structs w a = Some (Some obj)" "pkeys w obj = Some (k, cnt)"
    and "pqc_sign E (Some s0) (Some l0) message msg_len domain (Some a) w =
      Some ((Some (Some sg), Some len), w1)"
    and "heap w1 sg = Some blk"
    and "key_safe v" "structs v a' = Some (Some obj')" "pkeys v obj' = Some (k, cnt')"
    and "ds_readable message' msg_len domain'" "ds_accepts message' msg_len domain'"
    and "domain_bytes domain' = domain_bytes domain"
      "message_bytes message' msg_len = message_bytes message msg_len"
    and "malloc_ok E (clock v) (ds_length domain' msg_len)" "md_ctx_ok E (clock v + 1)"
      "verify_init E (clock v + 2) k > 0"
  shows "\<exists>v'. pqc_verify E message' msg_len (Some blk) len domain' (Some a') v = Some (True, v')"
proof -
  let ?msg = "ds_encode (domain_bytes domain) (message_bytes message msg_len)"
  let ?t = "ds_length domain msg_len"
  obtain w' r l fs where w': "pqc_sign E (Some s0) (Some l0) message msg_len domain (Some a) w =
      Some ((Some r, Some l), w')"
    "l = snd (if ds_accepts message msg_len domain then sign_result E (clock w) k ?msg ?t else (None, 0))"
    "case fst (if ds_accepts message msg_len domain then sign_result E (clock w) k ?msg ?t else (None, 0)) of
       None \<Rightarrow> r = None \<and> effect w w' (heap w) fs (md_ctxs w)
     | Some bs \<Rightarrow> \<exists>sg. r = Some sg \<and> heap w sg = None
         \<and> effect w w' ((heap w)(sg \<mapsto> bs)) fs (md_ctxs w)"
    using pqc_sign_effect [OF assms(1,2,4,5,6), of s0 l0] by blast
  have same: "r = Some sg" "l = len" "w' = w1" using w'(1) assms(7) by simp_all
  have res: "sign_result E (clock w) k ?msg ?t = (Some blk, len)"
    using w'(2,3) same assms(8)
    by (cases "sign_result E (clock w) k ?msg ?t")
      (auto simp: effect_def split: if_splits option.splits)
  note made = sign_result_made [OF assms(3,2) res]
  obtain v' where "pqc_verify E message' msg_len (Some blk) len domain' (Some a') v =
      Some (ds_accepts message' msg_len domain'
        \<and> verify_result E (clock v) k (ds_encode (domain_bytes domain') (message_bytes message' msg_len))
            (ds_length domain' msg_len) (take (unat len) blk), v')"
    using pqc_verify_effect [OF assms(9,12,10,11) made(2), of E] made(1) by (auto simp: word_gt_0)
  moreover have "verify_result E (clock v) k ?msg (ds_length domain' msg_len) (take (unat len) blk)"
    using assms(16-18) made(3) by (simp add: verify_result_def)
  ultimately show ?thesis using assms(13-15) by simp
qed

lemma ideal_sig_correct: "sig_correct ideal_evp"
  unfolding sig_correct_def
proof (intro allI)
  fix c c' k :: nat and msg :: bytes and n :: u64
  show "case sign_exec ideal_evp c k msg n of (rc, out, n') \<Rightarrow>
      rc > 0 \<longrightarrow> out \<noteq> [] \<and> unat n' = length out \<and> verify_exec ideal_evp c' k out msg = 1"
  proof (cases "unat n < Suc (length msg)")
    case False
    have "unat n < 2 ^ 64" using unsigned_less [of n] by simp
    with False have "Suc (length msg) < 2 ^ LENGTH(64)" by simp
    from unat_of_nat_fits [OF this] False show ?thesis by simp
  qed simp
qed

lemma sign_then_verify_witness:
  "\<exists>sg w1 v' blk. pqc_sign ideal_evp (Some None) (Some 0) (Some abc) 3 (Some domain_A) (Some 10)
      signing_world = Some ((Some (Some sg), Some 31), w1)
    \<and> heap w1 sg = Some blk
    \<and> pqc_verify ideal_evp (Some abc) 3 (Some blk) 31 (Some domain_A) (Some 10) signing_world =
        Some (True, v')"
proof -
  have res: "sign_result ideal_evp 0 7 (ds_encode [65] abc) 30 = (Some (7 # ds_encode [65] abc), 31)"
    by (simp add: sign_result_def sign_context_result_def abc_length put_slice_def)
  obtain w1 r l fs where "pqc_sign ideal_evp (Some None) (Some 0) (Some abc) 3 (Some domain_A)
      (Some 10) signing_world = Some ((Some r, Some l), w1)"
    "l = 31" "\<exists>sg. r = Some sg \<and> effect signing_world w1
      ((heap signing_world)(sg \<mapsto> 7 # ds_encode [65] abc)) fs (md_ctxs signing_world)"
    using pqc_sign_effect [OF signing_world_safe ideal_sign_fits abc_inputs(1), of 10 1 7 1 None 0] res
    by (auto simp: abc_inputs)
  then obtain sg where sg: "pqc_sign ideal_evp (Some None) (Some 0) (Some abc) 3 (Some domain_A)
      (Some 10) signing_world = Some ((Some (Some sg), Some 31), w1)"
    "heap w1 sg = Some (7 # ds_encode [65] abc)"
    by (auto simp: effect_def)
  have "\<exists>v'. pqc_verify ideal_evp (Some abc) 3 (Some (7 # ds_encode [65] abc)) 31
      (Some domain_A) (Some 10) signing_world = Some (True, v')"
    by (rule sign_then_verify [OF signing_world_safe ideal_sign_fits ideal_sig_correct abc_inputs(1)
          _ _ sg signing_world_safe _ _ abc_inputs(1,2), of 1 7 1 10 1 1])
      simp_all
  with sg show ?thesis by blast
qed

text \<open>
  Invalid arguments of \<open>pqc_sign\<close> (a NULL output pointer, a NULL or empty key struct): it
  clears the outputs it can, makes no library call and leaves memory as it was.
\<close>

lemma pqc_sign_invalid_arguments:
  assumes "signature = None \<or> sig_len = None \<or> sk = None
    \<or> (\<exists>a. sk = Some a \<and> structs w a = Some None)"
  shows "\<exists>w'. pqc_sign E signature sig_len message msg_len domain sk w =
      Some ((map_option (\<lambda>_. None) signature, map_option (\<lambda>_. 0) sig_len), w')
    \<and> heap w' = heap w \<and> pkeys w' = pkeys w \<and> structs w' = structs w
    \<and> clock w' = clock w \<and> freed w' = freed w"
  using assms
  by (cases signature; cases sig_len; cases sk)
    (auto simp: pqc_sign_def get_pkey_def Let_def)

lemma pqc_sign_invalid_arguments_witness:
  "\<exists>w'. pqc_sign ideal_evp (Some (Some 5)) (Some 99) (Some abc) 3 None (Some 11) signing_world =
    Some ((Some None, Some 0), w')"
  using pqc_sign_invalid_arguments [of "Some (Some 5)" "Some 99" "Some 11" signing_world ideal_evp
      "Some abc" 3 None]
  by auto

text \<open>
  When the allocation of the signature fails after the size query, \<open>pqc_sign\<close> returns a
  NULL signature together with the non-zero size it asked for: unlike its other error paths
  it does not reset \<open>*sig_len\<close>, so a caller must test the pointer and not the length.
\<close>

lemma failed_signature_allocation_keeps_length:
  assumes "key_safe w" "sign_fits E" "ds_readable message msg_len domain"
    and "structs w a = Some (Some obj)" "pkeys w obj = Some (k, cnt)"
    and "ds_accepts message msg_len domain"
    and "malloc_ok E (clock w) (ds_length domain msg_len)" "md_ctx_ok E (clock w + 1)"
    and "sign_init E (clock w + 2) k > 0"
    and "sign_size E (clock w + 3) k
        (ds_encode (domain_bytes domain) (message_bytes message msg_len)) = (1, n)"
    and "\<not> malloc_ok E (clock w + 4) n"
  shows "\<exists>w'. pqc_sign E (Some s0) (Some l0) message msg_len domain (Some a) w =
    Some ((Some None, Some n), w')"
proof -
  let ?msg = "ds_encode (domain_bytes domain) (message_bytes message msg_len)"
  have "sign_result E (clock w) k ?msg (ds_length domain msg_len) = (None, n)"
    using assms(7-11) by (simp add: sign_result_def sign_context_result_def numeral_eq_Suc)
  then show ?thesis
    using pqc_sign_effect [OF assms(1-5), of s0 l0] assms(6) by auto
qed

definition poor_evp :: "nat evp" where
  "poor_evp = ideal_evp\<lparr>malloc_ok := (\<lambda>c n. c \<noteq> 4)\<rparr>"

lemma failed_signature_allocation_keeps_length_witness:
  "\<exists>w'. pqc_sign poor_evp (Some None) (Some 0) (Some abc) 3 (Some domain_A) (Some 10) signing_world =
    Some ((Some None, Some 31), w')"
  by (rule failed_signature_allocation_keeps_length
      [OF signing_world_safe _ abc_inputs(1) _ _ abc_inputs(2), of _ 10 1 7 1])
    (use ideal_sign_fits in \<open>simp_all add: poor_evp_def abc_inputs abc_length sign_fits_def\<close>)

end
