(* ===== verification/Utilities.thy ===== *)
theory Utilities
  imports Runtime
begin

text \<open>
  The utilities of \<open>src/pqc_crypto.c\<close> and the constants of \<open>include/higgaion/pqc_types.h\<close>:
  the error codes and their strings, \<open>secure_zero\<close> and the SHA3-256 wrapper \<open>hash\<close> (which
  zeroes its output on every failure).
\<close>

subsection \<open>Error codes\<close>

datatype HigError =
    HIG_OK
  | HIG_ERR_NOMEM
  | HIG_ERR_INVALID_PARAM
  | HIG_ERR_IO
  | HIG_ERR_CRYPTO
  | HIG_ERR_AUTH
  | HIG_ERR_VALIDATION
  | HIG_ERR_TIMEOUT
  | HIG_ERR_RATE_LIMITED
  | HIG_ERR_ALGORITHM_REJECTED

fun HigError_value :: "HigError \<Rightarrow> int" where
  "HigError_value HIG_OK = 0"
| "HigError_value HIG_ERR_NOMEM = 1"
| "HigError_value HIG_ERR_INVALID_PARAM = 2"
| "HigError_value HIG_ERR_IO = 3"
| "HigError_value HIG_ERR_CRYPTO = 4"
| "HigError_value HIG_ERR_AUTH = 5"
| "HigError_value HIG_ERR_VALIDATION = 6"
| "HigError_value HIG_ERR_TIMEOUT = 7"
| "HigError_value HIG_ERR_RATE_LIMITED = 8"
| "HigError_value HIG_ERR_ALGORITHM_REJECTED = 9"

definition HIG_SUCCEEDED :: "HigError \<Rightarrow> bool" where
  "HIG_SUCCEEDED err \<longleftrightarrow> err = HIG_OK"

definition HIG_FAILED :: "HigError \<Rightarrow> bool" where
  "HIG_FAILED err \<longleftrightarrow> err \<noteq> HIG_OK"

text \<open>A C enum parameter may hold any integer, so the function takes one.\<close>

definition hig_error_str :: "int \<Rightarrow> string" where
  "hig_error_str err =
     (if err = HigError_value HIG_OK then ''OK''
      else if err = HigError_value HIG_ERR_NOMEM then ''out of memory''
      else if err = HigError_value HIG_ERR_INVALID_PARAM then ''invalid parameter''
      else if err = HigError_value HIG_ERR_IO then ''I/O error''
      else if err = HigError_value HIG_ERR_CRYPTO then ''cryptographic error''
      else if err = HigError_value HIG_ERR_AUTH then ''auth error''
      else if err = HigError_value HIG_ERR_VALIDATION then ''validation error''
      else if err = HigError_value HIG_ERR_TIMEOUT then ''timeout''
      else if err = HigError_value HIG_ERR_RATE_LIMITED then ''rate limited''
      else if err = HigError_value HIG_ERR_ALGORITHM_REJECTED
        then ''algorithm rejected by PQC policy''
      else ''unknown error'')"

instantiation HigError :: linorder
begin

definition less_eq_HigError :: "HigError \<Rightarrow> HigError \<Rightarrow> bool" where
  "less_eq_HigError a b \<longleftrightarrow> HigError_value a \<le> HigError_value b"

definition less_HigError :: "HigError \<Rightarrow> HigError \<Rightarrow> bool" where
  "less_HigError a b \<longleftrightarrow> HigError_value a < HigError_value b"

instance
proof
  fix a b c :: HigError
  show "a < b \<longleftrightarrow> a \<le> b \<and> \<not> b \<le> a"
    by (auto simp: less_eq_HigError_def less_HigError_def)
  show "a \<le> a" by (simp add: less_eq_HigError_def)
  show "a \<le> b \<Longrightarrow> b \<le> c \<Longrightarrow> a \<le> c" by (simp add: less_eq_HigError_def)
  show "a \<le> b \<Longrightarrow> b \<le> a \<Longrightarrow> a = b"
    by (cases a; cases b) (simp_all add: less_eq_HigError_def)
  show "a \<le> b \<or> b \<le> a" by (auto simp: less_eq_HigError_def)
qed

end

subsection \<open>Sizes of the PQC parameters\<close>

definition KEM_CIPHERTEXT_SIZE :: nat where "KEM_CIPHERTEXT_SIZE = 1568"
definition KEM_SHARED_SECRET_SIZE :: nat where "KEM_SHARED_SECRET_SIZE = 32"
definition KEM_PUBLIC_KEY_SIZE :: nat where "KEM_PUBLIC_KEY_SIZE = 1700"
definition KEM_PRIVATE_KEY_SIZE :: nat where "KEM_PRIVATE_KEY_SIZE = 3168"
definition DSA_SIG_SIZE :: nat where "DSA_SIG_SIZE = 4627"
definition DSA_PUBLIC_KEY_SIZE :: nat where "DSA_PUBLIC_KEY_SIZE = 2700"
definition PQC_ALGORITHM_NAME :: string where "PQC_ALGORITHM_NAME = ''ML-DSA-87''"

subsection \<open>\<open>secure_zero\<close> and \<open>hash\<close>\<close>

text \<open>Both write through a pointer of the caller: the bytes behind it, before and after.\<close>

definition secure_zero :: "bytes \<Rightarrow> nat \<Rightarrow> bytes option" where
  "secure_zero ptr len =
     (if len \<le> length ptr then Some (put_slice 0 (replicate len 0) ptr) else None)"

text \<open>\<open>EVP_DigestFinal_ex\<close> writes the digest at \<open>out\<close>.\<close>

definition digest_final :: "'k evp \<Rightarrow> bytes \<Rightarrow> bytes \<Rightarrow> 'k world \<Rightarrow> ((int \<times> bytes) \<times> 'k world) option" where
  "digest_final E data out w =
     (let (rc, digest) = sha3_final E (clock w) data; w = ext_call E w in
      if length digest \<le> length out then Some ((rc, put_slice 0 digest out), w) else None)"

definition hash :: "'k evp \<Rightarrow> bytes \<Rightarrow> bytes option \<Rightarrow> nat \<Rightarrow> 'k world
    \<Rightarrow> ((bool \<times> bytes) \<times> 'k world) option" where
  "hash E out data len w =
     (case md_ctx_new E w of
        (None, w) \<Rightarrow> do { out \<leftarrow> secure_zero out 32; Some ((False, out), w) }
      | (Some ctx, w) \<Rightarrow> do {
          let rc1 = sha3_init E (clock w);
          let w = ext_call E w;
          ((success, out), w) \<leftarrow>
            (if rc1 = 1
             then do {
               d \<leftarrow> (if len = 0 then Some [] else read_bytes data len);
               let rc2 = sha3_update E (clock w) d;
               let w = ext_call E w;
               if rc2 = 1
               then do {
                 ((rc3, out), w) \<leftarrow> digest_final E d out w;
                 Some ((rc3 = 1, out), w) }
               else Some ((False, out), w) }
             else Some ((False, out), w));
          w \<leftarrow> md_ctx_free ctx w;
          out \<leftarrow> (if \<not> success then secure_zero out 32 else Some out);
          Some ((success, out), w) })"

subsection \<open>Properties\<close>

text \<open>
  Every error code has a text of its own, different from the text of unknown values, so a
  log line identifies the error; and every integer outside the enum is "unknown error".
\<close>

lemma hig_error_str_distinct:
  "inj (\<lambda>e. hig_error_str (HigError_value e))
    \<and> (\<forall>n. (hig_error_str n = ''unknown error'') = (\<forall>e. HigError_value e \<noteq> n))"
proof
  show "inj (\<lambda>e. hig_error_str (HigError_value e))"
  proof (rule injI)
    fix x y assume "hig_error_str (HigError_value x) = hig_error_str (HigError_value y)"
    then show "x = y" by (cases x; cases y) (simp_all add: hig_error_str_def)
  qed
  show "\<forall>n. (hig_error_str n = ''unknown error'') = (\<forall>e. HigError_value e \<noteq> n)"
  proof
    fix n
    show "(hig_error_str n = ''unknown error'') = (\<forall>e. HigError_value e \<noteq> n)"
    proof
      assume "hig_error_str n = ''unknown error''"
      then show "\<forall>e. HigError_value e \<noteq> n"
        by (intro allI) (case_tac e; auto simp: hig_error_str_def)
    next
      assume "\<forall>e. HigError_value e \<noteq> n"
      then have "n \<noteq> HigError_value e" for e by metis
      then show "hig_error_str n = ''unknown error''"
        unfolding hig_error_str_def by (simp only: if_False)
    qed
  qed
qed

lemma secure_zero_eq: "32 \<le> length out \<Longrightarrow>
    secure_zero out 32 = Some (replicate 32 0 @ drop 32 out)"
  by (simp add: secure_zero_def put_slice_def)

text \<open>
  \<open>hash\<close> never leaves a partial digest: with an output of at least 32 bytes and a provider
  whose digest fits, it returns, releases its context, and either succeeds, with the digest
  of the provider at \<open>out\<close>, or fails with 32 zero bytes there; the bytes after them are untouched.
\<close>

lemma hash_all_or_zero:
  assumes "wf_world w" "32 \<le> length out" "len = 0 \<or> (\<exists>d. data = Some d \<and> len \<le> length d)"
    and "\<forall>c d. length (snd (sha3_final E c d)) = 32"
  shows "\<exists>ok out' w'. hash E out data len w = Some ((ok, out'), w')
    \<and> md_ctxs w' = md_ctxs w \<and> heap w' = heap w
    \<and> (if ok
       then out' = snd (sha3_final E (clock w + 3) (take len (case data of Some d \<Rightarrow> d | None \<Rightarrow> [])))
         @ drop 32 out
       else out' = replicate 32 0 @ drop 32 out)"
proof -
  let ?d = "take len (case data of Some d \<Rightarrow> d | None \<Rightarrow> [])"
  have d: "(if len = 0 then Some [] else read_bytes data len) = Some ?d"
    using assms(3) by (auto simp: read_bytes_def)
  have fresh: "brk w \<notin> md_ctxs w" using assms(1) wf_world_fresh by blast
  let ?D = "snd (sha3_final E (Suc (Suc (Suc (clock w)))) ?d)"
  have D: "length ?D = 32" using assms(4) by blast
  have put: "put_slice 0 ?D out = ?D @ drop 32 out" using D by (simp add: put_slice_def)
  have z1: "secure_zero out 32 = Some (replicate 32 0 @ drop 32 out)"
    using assms(2) by (rule secure_zero_eq)
  have z2: "secure_zero (?D @ drop 32 out) 32 = Some (replicate 32 0 @ drop 32 out)"
    using D assms(2) by (subst secure_zero_eq) simp_all
  have fin: "digest_final E ?d out v = Some ((fst (sha3_final E (clock v) ?d), ?D @ drop 32 out), ext_call E v)"
    if "clock v = Suc (Suc (Suc (clock w)))" for v
    using that D assms(2) put by (simp add: digest_final_def case_prod_beta Let_def)
  define ok where "ok \<longleftrightarrow> md_ctx_ok E (clock w) \<and> sha3_init E (Suc (clock w)) = 1
    \<and> sha3_update E (Suc (Suc (clock w))) ?d = 1
    \<and> fst (sha3_final E (Suc (Suc (Suc (clock w)))) ?d) = 1"
  obtain w' where w': "hash E out data len w =
      Some ((ok, (if ok then ?D else replicate 32 0) @ drop 32 out), w')"
    "md_ctxs w' = md_ctxs w" "heap w' = heap w"
    using fresh
    by (cases "md_ctx_ok E (clock w)"; cases "sha3_init E (Suc (clock w)) = 1";
        cases "sha3_update E (Suc (Suc (clock w))) ?d = 1";
        cases "fst (sha3_final E (Suc (Suc (Suc (clock w)))) ?d) = 1")
      (simp_all add: hash_def md_ctx_new_def md_ctx_free_def ext_call_def Let_def d z1 z2 fin ok_def)
  have three: "clock w + 3 = Suc (Suc (Suc (clock w)))" by simp
  show ?thesis
    unfolding three
    by (intro exI [of _ ok] exI [of _ "(if ok then ?D else replicate 32 0) @ drop 32 out"]
        exI [of _ w'])
      (simp add: w')
qed

lemma hash_all_or_zero_witness:
  "\<exists>ok out' w'. hash ideal_evp (replicate 32 9) (Some [1, 2]) 2 empty_world = Some ((ok, out'), w')
    \<and> md_ctxs w' = {}"
  using hash_all_or_zero [OF wf_empty_world, of "replicate 32 9" 2 "Some [1, 2]" ideal_evp]
  by auto

end
