(* ===== verification/LegacyCrypto.thy ===== *)
theory LegacyCrypto
  imports SignVerify Utilities
begin

text \<open>
  The older copy of the crypto module at the root of the repository (\<open>pqc_crypto.c\<close>): it
  concatenates domain and message without lengths, has no algorithm policy, leaves outputs
  unset on early returns and frees the scratch buffer unwiped on its error paths. The lemmas
  show the differences that \<open>src/pqc_crypto.c\<close> removes.
\<close>

subsection \<open>Keys\<close>

definition legacy_generate_keypair :: "'k evp \<Rightarrow> addr option \<Rightarrow> string \<Rightarrow> 'k world \<Rightarrow> 'k world option" where
  "legacy_generate_keypair E key alg_name w =
     (case key of
        None \<Rightarrow> Some w
      | Some key \<Rightarrow> do { w \<leftarrow> set_pkey key None w; generate_fresh E key alg_name w })"

definition legacy_key_init :: "addr option \<Rightarrow> 'k world \<Rightarrow> 'k world option" where
  "legacy_key_init key w =
     (case key of None \<Rightarrow> Some w | Some key \<Rightarrow> Some (w\<lparr>structs := (structs w)(key \<mapsto> None)\<rparr>))"

definition legacy_key_free :: "addr option \<Rightarrow> 'k world \<Rightarrow> 'k world option" where
  "legacy_key_free key w =
     (case key of
        None \<Rightarrow> Some w
      | Some key \<Rightarrow> do {
          field \<leftarrow> get_pkey key w;
          (case field of
             None \<Rightarrow> Some w
           | Some obj \<Rightarrow> do { w \<leftarrow> pkey_free obj w; set_pkey key None w }) })"

subsection \<open>The signed bytes\<close>

definition legacy_domain_length :: "bytes option \<Rightarrow> u64 option" where
  "legacy_domain_length domain =
     (case domain of None \<Rightarrow> Some 0 | Some d \<Rightarrow> map_option of_nat (strlen d))"

definition legacy_total_length :: "u64 \<Rightarrow> u64 \<Rightarrow> u64 option" where
  "legacy_total_length dom_len msg_len =
     (let total_len = dom_len + msg_len in
      if total_len < dom_len \<or> total_len < msg_len then None else Some total_len)"

text \<open>
  The answer is the state with the block and its length, or (\<open>Inr\<close>) the state in which the
  caller returns early. \<open>who\<close> is the function name in the log line.
\<close>

definition legacy_concat ::
  "'k evp \<Rightarrow> string \<Rightarrow> bytes option \<Rightarrow> u64 \<Rightarrow> bytes option \<Rightarrow> 'k world
    \<Rightarrow> (addr \<times> u64 \<times> 'k world + 'k world) option" where
  "legacy_concat E who message msg_len domain w = do {
     dom_len \<leftarrow> legacy_domain_length domain;
     (case legacy_total_length dom_len msg_len of
        None \<Rightarrow> Some (Inr (log_message ''ERROR'' ''CRYPTO''
          (who @ '': domain+message length overflow'') [] w))
      | Some total_len \<Rightarrow>
          (case malloc E total_len w of
             (None, w) \<Rightarrow> Some (Inr w)
           | (Some buf, w) \<Rightarrow> do {
               w \<leftarrow> (case domain of
                       None \<Rightarrow> Some w
                     | Some d \<Rightarrow> do {
                         src \<leftarrow> read_bytes domain (unat dom_len);
                         mem_write buf 0 src w });
               src \<leftarrow> read_bytes message (unat msg_len);
               w \<leftarrow> mem_write buf (unat dom_len) src w;
               Some (Inl (buf, total_len, w)) }))
   }"

definition drop_context :: "addr \<Rightarrow> addr \<Rightarrow> 'k world \<Rightarrow> 'k world option" where
  "drop_context mdctx buf w = do { w \<leftarrow> md_ctx_free mdctx w; free_block buf w }"

subsection \<open>Signing and verifying\<close>

definition legacy_sign_execute ::
  "'k evp \<Rightarrow> addr \<Rightarrow> addr \<Rightarrow> 'k \<Rightarrow> addr \<Rightarrow> u64 \<Rightarrow> u64 \<Rightarrow> 'k world
    \<Rightarrow> ((addr option option \<times> u64 option) \<times> 'k world) option" where
  "legacy_sign_execute E mdctx signature k buf total_len sig_len w = do {
     w \<leftarrow> mem_write signature 0 (replicate (unat sig_len) 0) w;
     msg \<leftarrow> read_block buf total_len w;
     let (rc, out, n) = sign_exec E (clock w) k msg sig_len;
     let w = record_call (DigestSign k msg rc) (ext_call E w);
     w \<leftarrow> mem_write signature 0 out w;
     (res, w) \<leftarrow>
       (if rc \<le> 0
        then do {
          w \<leftarrow> free_block signature (log_openssl_error ''EVP_DigestSign (execute)'' w);
          Some (None, w) }
        else Some (Some signature, w));
     w \<leftarrow> finish mdctx buf total_len w;
     Some ((Some res, Some n), w)
   }"

definition legacy_pqc_sign ::
  "'k evp \<Rightarrow> addr option option \<Rightarrow> u64 option \<Rightarrow> bytes option \<Rightarrow> u64 \<Rightarrow> bytes option \<Rightarrow> addr option
    \<Rightarrow> 'k world \<Rightarrow> ((addr option option \<times> u64 option) \<times> 'k world) option" where
  "legacy_pqc_sign E signature sig_len message msg_len domain sk w =
     (case sk of
        None \<Rightarrow> Some ((signature, sig_len), w)
      | Some sk \<Rightarrow> do {
          field \<leftarrow> get_pkey sk w;
          (case field of
             None \<Rightarrow> Some ((signature, sig_len), w)
           | Some obj \<Rightarrow> do {
               built \<leftarrow> legacy_concat E ''pqc_sign'' message msg_len domain w;
               (case built of
                  Inr w \<Rightarrow> Some ((signature, sig_len), w)
                | Inl (buf, total_len, w) \<Rightarrow>
                    (case md_ctx_new E w of
                       (None, w) \<Rightarrow> do {
                         w \<leftarrow> free_block buf w;
                         Some ((signature, sig_len), w) }
                     | (Some mdctx, w) \<Rightarrow> do {
                         k \<leftarrow> pkey_material obj w;
                         let rc = sign_init E (clock w) k;
                         let w = ext_call E w;
                         if rc \<le> 0
                         then do {
                           w \<leftarrow> drop_context mdctx buf (log_openssl_error ''EVP_DigestSignInit'' w);
                           Some ((signature, sig_len), w) }
                         else do {
                           msg \<leftarrow> read_block buf total_len w;
                           old_len \<leftarrow> sig_len;
                           let (rc, n) = sign_size E (clock w) k msg;
                           let w = ext_call E w;
                           if rc \<le> 0
                           then do {
                             w \<leftarrow> drop_context mdctx buf
                                   (log_openssl_error ''EVP_DigestSign (size)'' w);
                             Some ((signature, Some n), w) }
                           else do {
                             old_sig \<leftarrow> signature;
                             (case malloc E n w of
                                (None, w) \<Rightarrow> do {
                                  w \<leftarrow> drop_context mdctx buf w;
                                  Some ((Some None, Some n), w) }
                              | (Some sg, w) \<Rightarrow>
                                  legacy_sign_execute E mdctx sg k buf total_len n w) } } })) }) })"

definition legacy_verify_with_context ::
  "'k evp \<Rightarrow> addr \<Rightarrow> 'k \<Rightarrow> addr \<Rightarrow> u64 \<Rightarrow> u64 \<Rightarrow> bytes option \<Rightarrow> u64 \<Rightarrow> 'k world
    \<Rightarrow> (bool \<times> 'k world) option" where
  "legacy_verify_with_context E mdctx k buf total_len msg_len signature sig_len w =
     (let rc = verify_init E (clock w) k; w = ext_call E w in
      if rc \<le> 0
      then do {
        w \<leftarrow> drop_context mdctx buf (log_openssl_error ''EVP_DigestVerifyInit'' w);
        Some (False, w) }
      else do {
        msg \<leftarrow> read_block buf total_len w;
        s \<leftarrow> read_bytes signature (unat sig_len);
        let rc = verify_exec E (clock w) k s msg;
        let w = record_call (DigestVerify k s msg rc) (ext_call E w);
        let w = (if rc \<noteq> 1
                 then log_openssl_error ''EVP_DigestVerify''
                   (log_message ''ERROR'' ''CRYPTO''
                     ''EVP_DigestVerify failed (rc=%d, msg_len=%zu, sig_len=%zu)''
                     [LNum rc, LNum (uint msg_len), LNum (uint sig_len)] w)
                 else w);
        w \<leftarrow> finish mdctx buf total_len w;
        Some (rc = 1, w) })"

definition legacy_pqc_verify ::
  "'k evp \<Rightarrow> bytes option \<Rightarrow> u64 \<Rightarrow> bytes option \<Rightarrow> u64 \<Rightarrow> bytes option \<Rightarrow> addr option
    \<Rightarrow> 'k world \<Rightarrow> (bool \<times> 'k world) option" where
  "legacy_pqc_verify E message msg_len signature sig_len domain pk w =
     (case pk of
        None \<Rightarrow> Some (False, w)
      | Some pk \<Rightarrow> do {
          field \<leftarrow> get_pkey pk w;
          (case field of
             None \<Rightarrow> Some (False, w)
           | Some obj \<Rightarrow>
               if signature = None then Some (False, w)
               else do {
                 built \<leftarrow> legacy_concat E ''pqc_verify'' message msg_len domain w;
                 (case built of
                    Inr w \<Rightarrow> Some (False, w)
                  | Inl (buf, total_len, w) \<Rightarrow>
                      (case md_ctx_new E w of
                         (None, w) \<Rightarrow> do { w \<leftarrow> free_block buf w; Some (False, w) }
                       | (Some mdctx, w) \<Rightarrow> do {
                           k \<leftarrow> pkey_material obj w;
                           legacy_verify_with_context E mdctx k buf total_len msg_len signature
                             sig_len w })) }) })"

text \<open>The older \<open>hash\<close> returns nothing and leaves the output as it was when a call fails.\<close>

definition legacy_hash :: "'k evp \<Rightarrow> bytes \<Rightarrow> bytes option \<Rightarrow> nat \<Rightarrow> 'k world
    \<Rightarrow> (bytes \<times> 'k world) option" where
  "legacy_hash E out data len w =
     (case md_ctx_new E w of
        (None, w) \<Rightarrow> Some (out, w)
      | (Some ctx, w) \<Rightarrow> do {
          let rc1 = sha3_init E (clock w);
          let w = ext_call E w;
          (out, w) \<leftarrow>
            (if rc1 = 1
             then do {
               d \<leftarrow> (if len = 0 then Some [] else read_bytes data len);
               let rc2 = sha3_update E (clock w) d;
               let w = ext_call E w;
               if rc2 = 1
               then do {
                 ((rc3, out), w) \<leftarrow> digest_final E d out w;
                 Some (out, w) }
               else Some (out, w) }
             else Some (out, w));
          w \<leftarrow> md_ctx_free ctx w;
          Some (out, w) })"

text \<open>The error strings; the header of this copy is missing, so codes are taken by name.\<close>

definition legacy_error_str :: "string \<Rightarrow> string" where
  "legacy_error_str err =
     (if err = ''HIG_OK'' then ''OK''
      else if err = ''HIG_ERR_NOMEM'' then ''out of memory''
      else if err = ''HIG_ERR_INVALID_PARAM'' then ''invalid parameter''
      else if err = ''HIG_ERR_IO'' then ''I/O error''
      else if err = ''HIG_ERR_CRYPTO'' then ''cryptographic error''
      else if err = ''HIG_ERR_NETWORK'' then ''network error''
      else if err = ''HIG_ERR_CONSENSUS'' then ''consensus error''
      else if err = ''HIG_ERR_WAL'' then ''WAL error''
      else if err = ''HIG_ERR_AUTH'' then ''auth error''
      else if err = ''HIG_ERR_SHARD'' then ''shard error''
      else if err = ''HIG_ERR_VALIDATION'' then ''validation error''
      else if err = ''HIG_ERR_DUPLICATE'' then ''duplicate''
      else if err = ''HIG_ERR_STORAGE'' then ''storage error''
      else if err = ''HIG_ERR_TIMEOUT'' then ''timeout''
      else if err = ''HIG_ERR_RATE_LIMITED'' then ''rate limited''
      else if err = ''HIG_ERR_CIRCUIT_OPEN'' then ''circuit open''
      else ''unknown error'')"

subsection \<open>What the builder produces\<close>

lemma legacy_total_length_eq:
  "legacy_total_length d m = (if unat d + unat m < 2 ^ 64 then Some (d + m) else None)"
proof (cases "unat d + unat m < 2 ^ 64")
  case True
  then have "unat (d + m) = unat d + unat m" by (simp add: unat_word_ariths)
  with True show ?thesis by (simp add: legacy_total_length_def word_less_nat_alt)
next
  case False
  have "unat d < 2 ^ 64" "unat m < 2 ^ 64" using unsigned_less [of d] unsigned_less [of m] by simp_all
  with False have "unat (d + m) = unat d + unat m - 2 ^ 64"
    by (simp add: unat_word_ariths mod_if)
  with False \<open>unat m < 2 ^ 64\<close> have "unat (d + m) < unat d" by arith
  with False show ?thesis by (simp add: legacy_total_length_def word_less_nat_alt)
qed

definition legacy_readable :: "bytes option \<Rightarrow> u64 \<Rightarrow> bytes option \<Rightarrow> bool" where
  "legacy_readable message msg_len domain \<longleftrightarrow>
     (\<exists>m. message = Some m \<and> unat msg_len \<le> length m)
     \<and> (\<forall>d. domain = Some d \<longrightarrow> 0 \<in> set d)
     \<and> length (domain_bytes domain) + unat msg_len < 2 ^ 64"

lemma legacy_domain_length_eq:
  assumes "legacy_readable message msg_len domain"
  shows "\<exists>n. legacy_domain_length domain = Some n \<and> unat n = length (domain_bytes domain)"
proof (cases domain)
  case None
  then show ?thesis by (simp add: legacy_domain_length_def domain_bytes_def)
next
  case (Some d)
  then have "strlen d = Some (length (cstr d))" "length (cstr d) < 2 ^ LENGTH(64)"
    using assms strlen_terminated by (auto simp: legacy_readable_def domain_bytes_def)
  then show ?thesis
    using unat_of_nat_fits [where 'a = 64] Some
    by (auto simp: legacy_domain_length_def domain_bytes_def)
qed

lemma legacy_concat_eq:
  assumes rd: "legacy_readable message msg_len domain"
  defines "msg \<equiv> domain_bytes domain @ message_bytes message msg_len"
  shows "legacy_concat E who message msg_len domain w = Some
      (if malloc_ok E (clock w) (of_nat (length msg))
       then Inl (brk w, of_nat (length msg),
         w\<lparr>clock := Suc (clock w), brk := Suc (brk w), heap := (heap w)(brk w \<mapsto> msg)\<rparr>)
       else Inr (w\<lparr>clock := Suc (clock w)\<rparr>))"
    and "unat (of_nat (length msg) :: u64) = length msg"
proof -
  obtain n where n: "legacy_domain_length domain = Some n" "unat n = length (domain_bytes domain)"
    using legacy_domain_length_eq [OF rd] by blast
  obtain m where m: "message = Some m" "unat msg_len \<le> length m"
    using rd by (auto simp: legacy_readable_def)
  let ?m = "message_bytes message msg_len"
  have lm: "length ?m = unat msg_len" using m by (simp add: message_bytes_def)
  have sum: "unat n + unat msg_len < 2 ^ 64"
    using rd n(2) by (simp add: legacy_readable_def)
  have len: "length msg = unat n + unat msg_len" by (simp add: msg_def n(2) lm)
  have tot: "n + msg_len = of_nat (length msg)"
    unfolding len by simp
  show fits: "unat (of_nat (length msg) :: u64) = length msg"
    using sum len by (intro unat_of_nat_fits) simp
  have lt: "legacy_total_length n msg_len = Some (of_nat (length msg))"
    using sum by (simp add: legacy_total_length_eq tot)
  define old where "old = map (malloc_fill E (clock w)) [0..<length msg]"
  have lo: "length old = unat n + unat msg_len" by (simp add: old_def len)
  let ?w = "w\<lparr>clock := Suc (clock w), brk := Suc (brk w), heap := (heap w)(brk w \<mapsto> old)\<rparr>"
  let ?v = "?w\<lparr>heap := (heap w)(brk w \<mapsto> domain_bytes domain @ drop (unat n) old)\<rparr>"
  have w1: "(case domain of None \<Rightarrow> Some ?w
      | Some d \<Rightarrow> do { src \<leftarrow> read_bytes domain (unat n); mem_write (brk w) 0 src ?w }) = Some ?v"
  proof (cases domain)
    case None
    then show ?thesis using n(2) by (simp add: domain_bytes_def)
  next
    case (Some d)
    then have "read_bytes domain (unat n) = Some (domain_bytes domain)"
      using n(2) length_cstr_le [of d] take_cstr [of d] by (simp add: read_bytes_def domain_bytes_def)
    moreover have "mem_write (brk w) 0 (domain_bytes domain) ?w = Some ?v"
      using mem_write_append [of ?w "brk w" "[]" old 0 "domain_bytes domain"] n(2) len
      by (simp add: old_def)
    ultimately show ?thesis by (simp add: Some)
  qed
  have rdm: "read_bytes message (unat msg_len) = Some ?m"
    using m by (simp add: read_bytes_def message_bytes_def)
  have w2: "mem_write (brk w) (unat n) ?m ?v = Some (?w\<lparr>heap := (heap w)(brk w \<mapsto> msg)\<rparr>)"
    by (subst mem_write_append [where pre = "domain_bytes domain" and rest = "drop (unat n) old"])
      (simp_all only: n(2) [symmetric] lm lo length_drop world.simps fun_upd_same fun_upd_upd
        drop_drop msg_def, simp_all add: lo lm)
  show "legacy_concat E who message msg_len domain w = Some
      (if malloc_ok E (clock w) (of_nat (length msg))
       then Inl (brk w, of_nat (length msg),
         w\<lparr>clock := Suc (clock w), brk := Suc (brk w), heap := (heap w)(brk w \<mapsto> msg)\<rparr>)
       else Inr (w\<lparr>clock := Suc (clock w)\<rparr>))"
  proof (cases "malloc_ok E (clock w) (of_nat (length msg))")
    case True
    then have mal: "malloc E (of_nat (length msg)) w = (Some (brk w), ?w)"
      by (simp only: malloc_def Let_def fits old_def if_True world.simps)
    show ?thesis
      unfolding legacy_concat_def n(1) bind.bind_lunit lt option.case mal prod.case w1 rdm w2
      using True by simp
  next
    case False
    then have mal: "malloc E (of_nat (length msg)) w = (None, w\<lparr>clock := Suc (clock w)\<rparr>)"
      by (simp add: malloc_def Let_def del: of_nat_add)
    show ?thesis
      unfolding legacy_concat_def n(1) bind.bind_lunit lt option.case mal prod.case
      using False by simp
  qed
qed

lemma finish_heads:
  assumes "md_ctxs v = md_ctxs u" "heap v = heap u"
  shows "(finish c b t v = None) = (finish c b t u = None)"
  using assms
  by (auto simp: finish_def md_ctx_free_def wipe_free_def OPENSSL_cleanse_def mem_write_def
      free_block_def split: option.splits bind_splits)

lemma legacy_verify_length_irrelevant:
  "map_option fst (legacy_verify_with_context E c k b t n1 s l w) =
   map_option fst (legacy_verify_with_context E c k b t n2 s l w)"
proof -
  have fst_bind: "map_option fst (Option.bind (finish c b t v) (\<lambda>w. Some (r, w))) =
      (if finish c b t v = None then None else Some r)" for v and r :: bool
    by (cases "finish c b t v") auto
  have same: "(finish c b t (log_openssl_error m (log_message lv tg f as v)) = None) =
      (finish c b t v = None)" for m lv tg f as v
    by (rule finish_heads) simp_all
  then have ex: "(\<exists>y. finish c b t (log_openssl_error m (log_message lv tg f as v)) = Some y) =
      (\<exists>y. finish c b t v = Some y)" for m lv tg f as v
    by (metis not_None_eq)
  show ?thesis
    by (cases "verify_init E (clock w) k \<le> 0"; cases "read_block b t (ext_call E w)";
        cases "read_bytes s (unat l)")
      (simp_all add: legacy_verify_with_context_def Let_def fst_bind same ex)
qed

subsection \<open>Properties\<close>

text \<open>
  The overflow test of the older code, \<open>total_len < dom_len || total_len < msg_len\<close>, is
  exact although it is made after the addition has wrapped.
\<close>

lemma legacy_length_check_exact:
  "legacy_total_length dom_len msg_len = Some t \<longleftrightarrow>
     unat dom_len + unat msg_len < 2 ^ 64 \<and> unat t = unat dom_len + unat msg_len"
  by (auto simp: legacy_total_length_eq unat_word_ariths word_unat_eq_iff)

text \<open>
  C38. The older encoding is not injective: \<open>pqc_verify\<close> gives the same answer for any two
  (domain, message) pairs whose concatenations agree, so a signature made for one pair is
  accepted for the other (the confusion described at the head of \<open>src/pqc_crypto.c\<close>).
\<close>

theorem legacy_cross_domain_confusion:
  assumes "legacy_readable m1 n1 d1" "legacy_readable m2 n2 d2"
    and "domain_bytes d1 @ message_bytes m1 n1 = domain_bytes d2 @ message_bytes m2 n2"
  shows "map_option fst (legacy_pqc_verify E m1 n1 s sig_len d1 pk w) =
    map_option fst (legacy_pqc_verify E m2 n2 s sig_len d2 pk w)"
proof (cases pk)
  case None
  then show ?thesis by (simp add: legacy_pqc_verify_def)
next
  case (Some p)
  show ?thesis
  proof (cases "get_pkey p w")
    case None
    then show ?thesis using Some by (simp add: legacy_pqc_verify_def)
  next
    case (Some field)
    then show ?thesis
      using \<open>pk = Some p\<close> legacy_concat_eq(1) [OF assms(1), of E "''pqc_verify''" w]
        legacy_concat_eq(1) [OF assms(2), of E "''pqc_verify''" w]
        legacy_verify_length_irrelevant [of E _ _ _ _ n1 s sig_len _ n2]
      by (cases field)
        (simp_all add: legacy_pqc_verify_def assms(3) map_option_bind comp_def split: option.split prod.split)
  qed
qed

definition char_msg :: "string \<Rightarrow> bytes" where
  "char_msg s = bytes_of s @ [0]"

lemma legacy_cross_domain_confusion_witness:
  "map_option fst (legacy_pqc_verify ideal_evp (Some (bytes_of ''BC'')) 2 (Some [1, 2, 3]) 3 (Some (char_msg ''A'')) (Some 10) signing_world) =
   map_option fst (legacy_pqc_verify ideal_evp (Some (bytes_of ''C'')) 1 (Some [1, 2, 3]) 3 (Some (char_msg ''AB'')) (Some 10) signing_world)"
  by (rule legacy_cross_domain_confusion)
    (simp_all add: legacy_readable_def char_msg_def bytes_of_def domain_bytes_def cstr_def
      message_bytes_def)

text \<open>
  When no digest context can be made, the older \<open>pqc_sign\<close> frees its buffer with domain and
  message still in it (\<open>pqc_sign_wipes_scratch\<close> is the same path of the current code), and
  leaves both outputs as the caller had them, set or not.
\<close>

lemma legacy_sign_frees_plaintext:
  assumes "legacy_readable message msg_len domain" "structs w a = Some (Some obj)"
    and "malloc_ok E (clock w) (of_nat (length (domain_bytes domain @ message_bytes message msg_len)))"
    and "\<not> md_ctx_ok E (Suc (clock w))"
  shows "\<exists>w'. legacy_pqc_sign E signature sig_len message msg_len domain (Some a) w =
      Some ((signature, sig_len), w')
    \<and> freed w' = (domain_bytes domain @ message_bytes message msg_len) # freed w"
  using assms(2-4) legacy_concat_eq(1) [OF assms(1), of E "''pqc_sign''" w]
  by (simp add: legacy_pqc_sign_def get_pkey_def md_ctx_new_def ext_call_def Let_def free_block_def)

lemma legacy_sign_frees_plaintext_witness:
  "\<exists>w'. legacy_pqc_sign (ideal_evp\<lparr>md_ctx_ok := (\<lambda>c. False)\<rparr>) (Some (Some 77)) (Some 5)
      (Some (bytes_of ''BC'')) 2 (Some (char_msg ''A'')) (Some 10) signing_world =
      Some ((Some (Some 77), Some 5), w')
    \<and> freed w' = [bytes_of ''ABC'']"
proof -
  have r: "legacy_readable (Some (bytes_of ''BC'')) 2 (Some (char_msg ''A''))"
    and d: "domain_bytes (Some (char_msg ''A'')) @ message_bytes (Some (bytes_of ''BC'')) 2 =
      bytes_of ''ABC''"
    by (simp_all add: legacy_readable_def char_msg_def bytes_of_def domain_bytes_def cstr_def
        message_bytes_def)
  show ?thesis
    using legacy_sign_frees_plaintext [OF r, of signing_world 10 1
        "ideal_evp\<lparr>md_ctx_ok := (\<lambda>c. False)\<rparr>" "Some (Some 77)" "Some 5"]
    unfolding d by simp
qed

text \<open>
  The older \<open>generate_keypair\<close> leaks on every regeneration: whatever key the struct held
  keeps a reference that nobody owns, for every algorithm name and every library behaviour.
\<close>

lemma legacy_regeneration_always_leaks:
  assumes "key_safe w" "structs w a = Some (Some obj)"
  shows "\<exists>w'. legacy_generate_keypair E (Some a) alg w = Some w' \<and> key_safe w'
    \<and> slack w' obj = slack w obj + 1"
proof -
  let ?v = "w\<lparr>structs := (structs w)(a \<mapsto> None)\<rparr>"
  have fin: "finite (dom (structs w))" using assms(1) by (simp add: key_safe_def)
  obtain w' f where "generate_fresh E a alg ?v = Some w'" "key_safe w'" "slack w' = slack ?v"
    using generate_fresh_keys [OF key_safe_overwrite [OF assms(1), of a], of a E alg] by auto
  moreover have "slack ?v obj = slack w obj + 1"
    using slack_overwrite [OF fin] assms(2) by simp
  ultimately show ?thesis
    using assms(2) by (simp add: legacy_generate_keypair_def set_pkey_def)
qed

lemma legacy_regeneration_always_leaks_witness:
  "\<exists>w'. legacy_generate_keypair ideal_evp (Some 10) ''ML-DSA-87'' one_key = Some w' \<and> key_safe w'
    \<and> slack w' 1 = slack one_key 1 + 1"
  by (rule legacy_regeneration_always_leaks) (use one_key_safe in simp_all)

end
