(* ===== verification/EraseDurable.thy ===== *)
theory EraseDurable
  imports KeyLifecycle
begin

text \<open>
  \<open>higgaion_key_erase_durable\<close> of \<open>src/pqc_crypto.c\<close>: the write-ahead marker file around the
  destruction of a key. The function is modelled with the list of file-system events it
  causes; \<open>replay\<close> gives the files visible after a list of them, and \<open>survivors\<close> the lists a
  power failure can leave of a prefix, so a statement about all prefixes and survivors is a
  statement about a crash at any point. Which system calls fail is the
  parameter \<open>os\<close>.
\<close>

subsection \<open>Events and files\<close>

datatype event =
    EvOpen string
  | EvWrite string nat bytes
  | EvSync string
  | EvFreeKey addr
  | EvClose string
  | EvRename string string
  | EvSyncDir string
  | EvCloseDir string

type_synonym files = "string \<rightharpoonup> bytes"

definition file_write :: "nat \<Rightarrow> bytes \<Rightarrow> bytes \<Rightarrow> bytes" where
  "file_write off bs old =
     take off (old @ replicate (off - length old) 0) @ bs @ drop (off + length bs) old"

text \<open>\<open>open\<close> with \<open>O_CREAT | O_TRUNC\<close> leaves an empty file.\<close>

fun apply_event :: "event \<Rightarrow> files \<Rightarrow> files" where
  "apply_event (EvOpen p) fs = fs(p \<mapsto> [])"
| "apply_event (EvWrite p off bs) fs =
     fs(p \<mapsto> file_write off bs (case fs p of Some old \<Rightarrow> old | None \<Rightarrow> []))"
| "apply_event (EvRename p q) fs = (fs(q := fs p))(p := None)"
| "apply_event (EvSync p) fs = fs"
| "apply_event (EvFreeKey obj) fs = fs"
| "apply_event (EvClose p) fs = fs"
| "apply_event (EvSyncDir p) fs = fs"
| "apply_event (EvCloseDir p) fs = fs"

fun replay :: "files \<Rightarrow> event list \<Rightarrow> files" where
  "replay fs [] = fs"
| "replay fs (e # es) = replay (apply_event e fs) es"

lemma replay_append [simp]: "replay fs (es @ es') = replay (replay fs es) es'"
  by (induction fs es rule: replay.induct) simp_all

text \<open>
  The operating system: which calls succeed, and the results of the two \<open>write\<close> calls (a
  short count writes that many bytes, a negative one nothing).
\<close>

record os =
  open_ok :: "string \<Rightarrow> bool"
  write_rc1 :: int
  write_rc2 :: int
  lseek_ok :: bool
  rename_ok :: bool
  open_dir_ok :: "string \<Rightarrow> bool"

definition written :: "int \<Rightarrow> bytes \<Rightarrow> bytes" where
  "written rc bs = take (nat rc) bs"

subsection \<open>The function\<close>

definition ERASING :: bytes where
  "ERASING = bytes_of ''ERASING''"

definition ERASED :: bytes where
  "ERASED = bytes_of ''ERASED ''"

fun strrchr :: "char \<Rightarrow> string \<Rightarrow> nat option" where
  "strrchr c [] = None"
| "strrchr c (x # xs) =
     (case strrchr c xs of
        Some i \<Rightarrow> Some (Suc i)
      | None \<Rightarrow> if x = c then Some 0 else None)"

definition sync_parent :: "os \<Rightarrow> string \<Rightarrow> event list" where
  "sync_parent os wal_path =
     (case strrchr CHR ''/'' wal_path of
        None \<Rightarrow> []
      | Some dir_len \<Rightarrow>
          if dir_len > 0 \<and> dir_len < 1024
          then let dir_path = take dir_len wal_path in
            if open_dir_ok os dir_path then [EvSyncDir dir_path, EvCloseDir dir_path] else []
          else [])"

definition higgaion_key_erase_durable ::
  "os \<Rightarrow> addr option \<Rightarrow> string option \<Rightarrow> 'k world \<Rightarrow> ((bool \<times> event list) \<times> 'k world) option" where
  "higgaion_key_erase_durable os key wal_path w =
     (case key of
        None \<Rightarrow> Some ((False, []), w)
      | Some key \<Rightarrow> do {
          field \<leftarrow> get_pkey key w;
          (case (field, wal_path) of
             (Some obj, Some wal_path) \<Rightarrow>
               let tmp_path = wal_path @ ''.tmp'' in
               if length tmp_path \<ge> 1024 then Some ((False, []), w)
               else if \<not> open_ok os tmp_path then Some ((False, []), w)
               else
                 let ev = [EvOpen tmp_path, EvWrite tmp_path 0 (written (write_rc1 os) ERASING)] in
                 if write_rc1 os \<noteq> 7 then Some ((False, ev @ [EvClose tmp_path]), w)
                 else do {
                   let ev = ev @ [EvSync tmp_path];
                   w \<leftarrow> pkey_free obj w;
                   w \<leftarrow> set_pkey key None w;
                   let off = (if lseek_ok os then 0 else 7);
                   let ev = ev @ [EvFreeKey obj,
                     EvWrite tmp_path off (written (write_rc2 os) ERASED)];
                   if write_rc2 os \<noteq> 7 then Some ((False, ev @ [EvClose tmp_path]), w)
                   else
                     let ev = ev @ [EvSync tmp_path, EvClose tmp_path] in
                     if \<not> rename_ok os then Some ((False, ev), w)
                     else Some ((True,
                       ev @ [EvRename tmp_path wal_path] @ sync_parent os wal_path), w) }
           | _ \<Rightarrow> Some ((False, []), w)) })"

subsection \<open>Shape of the event list\<close>

lemma markers:
  "length ERASING = 7" "length ERASED = 7" "written 7 ERASING = ERASING" "written 7 ERASED = ERASED"
  "ERASING \<noteq> ERASED"
  by (simp_all add: ERASING_def ERASED_def written_def bytes_of_def)

lemma file_write_start: "length old \<le> length bs \<Longrightarrow> file_write 0 bs old = bs"
  by (simp add: file_write_def)

lemma file_write_end: "file_write (length old) bs old = old @ bs"
  by (simp add: file_write_def)

lemma sync_parent_events:
  "\<forall>e \<in> set (sync_parent os p). \<exists>d. e = EvSyncDir d \<or> e = EvCloseDir d"
  by (auto simp: sync_parent_def Let_def split: option.splits)

lemma replay_dir_events:
  "\<forall>e \<in> set es. \<exists>d. e = EvSyncDir d \<or> e = EvCloseDir d \<Longrightarrow> replay fs es = fs"
  by (induction fs es rule: replay.induct) auto

text \<open>
  The phases of a call: the events before the key is destroyed, the rest up to the rename.
\<close>

definition phase1 :: "os \<Rightarrow> string \<Rightarrow> event list" where
  "phase1 os tmp = [EvOpen tmp, EvWrite tmp 0 (written (write_rc1 os) ERASING)]"

definition phase2 :: "os \<Rightarrow> string \<Rightarrow> addr \<Rightarrow> event list" where
  "phase2 os tmp obj = phase1 os tmp @ [EvSync tmp, EvFreeKey obj,
     EvWrite tmp (if lseek_ok os then 0 else 7) (written (write_rc2 os) ERASED)]"

definition phase3 :: "os \<Rightarrow> string \<Rightarrow> addr \<Rightarrow> event list" where
  "phase3 os path obj = phase2 os (path @ ''.tmp'') obj @ [EvSync (path @ ''.tmp''),
     EvClose (path @ ''.tmp''), EvRename (path @ ''.tmp'') path] @ sync_parent os path"

lemma erase_eq:
  assumes "structs w a = Some (Some obj)" "pkey_free obj w = Some w1" "set_pkey a None w1 = Some w2"
  shows "higgaion_key_erase_durable os (Some a) (Some path) w = Some
    (if length (path @ ''.tmp'') \<ge> 1024 \<or> \<not> open_ok os (path @ ''.tmp'') then ((False, []), w)
     else if write_rc1 os \<noteq> 7
       then ((False, phase1 os (path @ ''.tmp'') @ [EvClose (path @ ''.tmp'')]), w)
     else if write_rc2 os \<noteq> 7
       then ((False, phase2 os (path @ ''.tmp'') obj @ [EvClose (path @ ''.tmp'')]), w2)
     else if \<not> rename_ok os
       then ((False, phase2 os (path @ ''.tmp'') obj
         @ [EvSync (path @ ''.tmp''), EvClose (path @ ''.tmp'')]), w2)
     else ((True, phase3 os path obj), w2))"
  using assms
  by (simp add: higgaion_key_erase_durable_def get_pkey_def Let_def phase1_def phase2_def
      phase3_def)

lemma erase_outcome:
  assumes "key_safe w" "structs w a = Some (Some obj)"
  shows "\<exists>r evs w'. higgaion_key_erase_durable os (Some a) (Some path) w = Some ((r, evs), w')
    \<and> key_safe w' \<and> slack w' = slack w
    \<and> (let tmp = path @ ''.tmp'' in
       (evs = [] \<and> \<not> r \<and> w' = w)
       \<or> (evs = phase1 os tmp @ [EvClose tmp] \<and> \<not> r \<and> w' = w \<and> write_rc1 os \<noteq> 7)
       \<or> (write_rc1 os = 7 \<and> structs w' = (structs w)(a \<mapsto> None)
          \<and> (\<forall>x. x \<noteq> obj \<longrightarrow> pkeys w' x = pkeys w x)
          \<and> ((evs = phase2 os tmp obj @ [EvClose tmp] \<and> \<not> r \<and> write_rc2 os \<noteq> 7)
             \<or> (evs = phase2 os tmp obj @ [EvSync tmp, EvClose tmp] \<and> \<not> r \<and> write_rc2 os = 7)
             \<or> (evs = phase3 os path obj \<and> r \<and> write_rc2 os = 7))))"
proof -
  obtain p where p: "pkey_free obj w \<bind> set_pkey a None =
      Some (w\<lparr>pkeys := p, structs := (structs w)(a \<mapsto> None)\<rparr>)"
    "key_safe (w\<lparr>pkeys := p, structs := (structs w)(a \<mapsto> None)\<rparr>)"
    "slack (w\<lparr>pkeys := p, structs := (structs w)(a \<mapsto> None)\<rparr>) = slack w"
    "\<forall>x. x \<noteq> obj \<longrightarrow> p x = pkeys w x"
    using drop_reference [OF assms] by blast
  from p(1) obtain w1 where w1: "pkey_free obj w = Some w1"
    "set_pkey a None w1 = Some (w\<lparr>pkeys := p, structs := (structs w)(a \<mapsto> None)\<rparr>)"
    by (auto simp: bind_eq_Some_conv)
  note eq = erase_eq [OF assms(2) w1, of os path]
  consider (none) "length (path @ ''.tmp'') \<ge> 1024 \<or> \<not> open_ok os (path @ ''.tmp'')"
    | (short) "\<not> (length (path @ ''.tmp'') \<ge> 1024 \<or> \<not> open_ok os (path @ ''.tmp''))"
        "write_rc1 os \<noteq> 7"
    | (full) "\<not> (length (path @ ''.tmp'') \<ge> 1024 \<or> \<not> open_ok os (path @ ''.tmp''))"
        "write_rc1 os = 7" by blast
  then show ?thesis
  proof cases
    case none
    then show ?thesis unfolding eq if_P [OF none] using assms(1)
      by (intro exI [of _ False] exI [of _ "[]"] exI [of _ w]) simp
  next
    case short
    then show ?thesis unfolding eq if_not_P [OF short(1)] using assms(1)
      by (simp add: ex_bool_eq)
  next
    case full
    show ?thesis
      unfolding eq if_not_P [OF full(1)] using full(2) p(2-4)
      by (cases "write_rc2 os = 7"; cases "rename_ok os") (simp_all add: ex_bool_eq Let_def)
  qed
qed


subsection \<open>Properties\<close>

lemma tmp_ne: "path @ ''.tmp'' \<noteq> path"
  by simp

lemma prefix_cases:
  "pre @ post = e # es \<Longrightarrow> pre = [] \<or> (\<exists>pre'. pre = e # pre' \<and> pre' @ post = es)"
  by (cases pre) auto

text \<open>Until the rename no event touches the marker file itself.\<close>

lemma replay_other:
  assumes "\<forall>e \<in> set es. (\<forall>p q. e \<noteq> EvRename p q) \<and> (\<forall>p. e = EvOpen p \<longrightarrow> p \<noteq> path)
    \<and> (\<forall>p off bs. e = EvWrite p off bs \<longrightarrow> p \<noteq> path)"
  shows "replay fs es path = fs path"
  using assms
proof (induction fs es rule: replay.induct)
  case (2 fs e es)
  then have "replay (apply_event e fs) es path = apply_event e fs path" by simp
  also have "\<dots> = fs path" using 2(2) by (cases e) auto
  finally show ?case by simp
qed simp

definition touches :: "string \<Rightarrow> event \<Rightarrow> bool" where
  "touches path e \<longleftrightarrow> (\<exists>p q. e = EvRename p q) \<or> e = EvOpen path \<or> (\<exists>off bs. e = EvWrite path off bs)"

lemma replay_untouched: "\<forall>e \<in> set es. \<not> touches path e \<Longrightarrow> replay fs es path = fs path"
  by (rule replay_other) (auto simp: touches_def)

lemma phases_untouched:
  "e \<in> set (phase1 os (path @ ''.tmp'')) \<Longrightarrow> \<not> touches path e"
  "e \<in> set (phase2 os (path @ ''.tmp'') obj) \<Longrightarrow> \<not> touches path e"
  "e \<in> set (phase1 os (path @ ''.tmp'') @ [EvClose q]) \<Longrightarrow> \<not> touches path e"
  "e \<in> set (phase2 os (path @ ''.tmp'') obj @ [EvClose q]) \<Longrightarrow> \<not> touches path e"
  "e \<in> set (phase2 os (path @ ''.tmp'') obj @ [EvSync p, EvClose q]) \<Longrightarrow> \<not> touches path e"
  by (auto simp: phase1_def phase2_def touches_def)

lemma phase2_file:
  assumes "write_rc1 os = 7" "write_rc2 os = 7"
  shows "replay fs (phase2 os tmp obj) tmp = Some (if lseek_ok os then ERASED else ERASING @ ERASED)"
  using assms file_write_end [of ERASING ERASED]
  by (simp add: phase2_def phase1_def markers file_write_start)

text \<open>
  What a power failure after \<open>pre\<close> can leave of the events: a creation or a write reaches the
  disk for certain only if the file is synced later, a rename only if the directory of the new
  name is; anything else may have been lost (a write is lost as a whole). The code ignores the results of \<open>fsync\<close>, so
  this assumes that an \<open>fsync\<close> that was called worked; \<open>unsynced_announcement_survives\<close> shows what happens otherwise.
\<close>

fun durable :: "event \<Rightarrow> event list \<Rightarrow> bool" where
  "durable (EvOpen p) later = (EvSync p \<in> set later)"
| "durable (EvWrite p off bs) later = (EvSync p \<in> set later)"
| "durable (EvRename p q) later =
     (case strrchr CHR ''/'' q of None \<Rightarrow> False | Some n \<Rightarrow> EvSyncDir (take n q) \<in> set later)"
| "durable (EvSync p) later = True"
| "durable (EvFreeKey x) later = True"
| "durable (EvClose p) later = True"
| "durable (EvSyncDir p) later = True"
| "durable (EvCloseDir p) later = True"

fun survivors :: "event list \<Rightarrow> event list list" where
  "survivors [] = [[]]"
| "survivors (e # es) =
     (let kept = survivors es in
      if durable e es then map ((#) e) kept else map ((#) e) kept @ kept)"

lemma survivors_subset: "kept \<in> set (survivors es) \<Longrightarrow> set kept \<subseteq> set es"
proof (induction es arbitrary: kept)
  case (Cons e es)
  then show ?case by (fastforce simp: Let_def split: if_splits)
qed simp

lemma all_survive: "es \<in> set (survivors es)"
  by (induction es rule: survivors.induct) (auto simp: Let_def)

lemma survivors_dir_events:
  assumes "\<forall>e \<in> set es. \<exists>d. e = EvSyncDir d \<or> e = EvCloseDir d"
  shows "survivors es = [es]"
  using assms by (induction es) auto

text \<open>Everything before the rename is on the disk by then.\<close>

definition ready :: "os \<Rightarrow> string \<Rightarrow> addr \<Rightarrow> event list" where
  "ready os path obj = phase2 os (path @ ''.tmp'') obj
     @ [EvSync (path @ ''.tmp''), EvClose (path @ ''.tmp'')]"

lemma phase3_ready:
  "phase3 os path obj = ready os path obj @ EvRename (path @ ''.tmp'') path # sync_parent os path"
  by (simp add: phase3_def ready_def)

lemma ready_survives: "survivors (ready os path obj @ es) = map ((@) (ready os path obj)) (survivors es)"
  by (simp add: ready_def phase2_def phase1_def Let_def comp_def)

lemma ready_file:
  assumes "write_rc1 os = 7" "write_rc2 os = 7"
  shows "replay fs (ready os path obj) (path @ ''.tmp'') =
    Some (if lseek_ok os then ERASED else ERASING @ ERASED)"
  unfolding ready_def using phase2_file [OF assms, of fs "path @ ''.tmp''" obj] by simp

lemma ready_untouched: "replay fs (ready os path obj) path = fs path"
  by (rule replay_untouched) (auto simp: ready_def phase2_def phase1_def touches_def)

text \<open>The events of a crash after the rename.\<close>

lemma renamed_survivor:
  assumes "write_rc1 os = 7" "write_rc2 os = 7"
    and "\<forall>e \<in> set rest. \<exists>d. e = EvSyncDir d \<or> e = EvCloseDir d"
    and "kept \<in> set (survivors (ready os path obj @ EvRename (path @ ''.tmp'') path # rest))"
  shows "replay fs kept path = Some (if lseek_ok os then ERASED else ERASING @ ERASED)
    \<or> \<not> durable (EvRename (path @ ''.tmp'') path) rest \<and> replay fs kept path = fs path"
proof -
  have "kept = ready os path obj @ EvRename (path @ ''.tmp'') path # rest
      \<or> \<not> durable (EvRename (path @ ''.tmp'') path) rest \<and> kept = ready os path obj @ rest"
    using assms(4) unfolding ready_survives
    by (auto simp: Let_def survivors_dir_events [OF assms(3)] split: if_splits)
  then show ?thesis
    using ready_file [OF assms(1,2), of fs path obj] ready_untouched [of fs os path obj]
    by (auto simp: replay_dir_events [OF assms(3)])
qed

text \<open>Where the rename stands in the events of a call.\<close>

lemma erase_rename_position:
  assumes "key_safe w" "structs w a = Some (Some obj)"
    and "higgaion_key_erase_durable os (Some a) (Some path) w = Some ((r, pre @ post), w')"
    and "\<exists>e \<in> set pre. touches path e"
  obtains rest where "pre = ready os path obj @ EvRename (path @ ''.tmp'') path # rest"
    "rest @ post = sync_parent os path" "write_rc1 os = 7" "write_rc2 os = 7"
proof -
  let ?tmp = "path @ ''.tmp''"
  let ?mid = "ready os path obj"
  have notouch: "e \<in> set ?mid \<Longrightarrow> \<not> touches path e" for e
    using phases_untouched(5) [of e os path obj ?tmp ?tmp] by (simp add: ready_def)
  obtain e where e: "e \<in> set (pre @ post)" "touches path e" using assms(4) by auto
  have c: "pre @ post = phase3 os path obj" and rc: "write_rc1 os = 7" "write_rc2 os = 7"
    using erase_outcome [OF assms(1,2), of os path] assms(3) e phases_untouched(3-5) empty_iff
    unfolding Let_def by (metis (no_types, lifting) Pair_inject list.set(1) option.inject)+
  obtain us where us: "pre @ us = ?mid \<and> us @ EvRename ?tmp path # sync_parent os path = post
      \<or> pre = ?mid @ us \<and> us @ post = EvRename ?tmp path # sync_parent os path"
    using c unfolding phase3_ready append_eq_append_conv2 by metis
  have "set pre \<subseteq> set ?mid" if "pre @ us = ?mid" using that by (metis Un_upper1 set_append)
  then have "\<not> pre @ us = ?mid" using assms(4) notouch by blast
  with us have u: "pre = ?mid @ us" "us @ post = EvRename ?tmp path # sync_parent os path" by auto
  from prefix_cases [OF u(2)] have "us \<noteq> []" using u(1) assms(4) notouch by auto
  with prefix_cases [OF u(2)] obtain rest where "us = EvRename ?tmp path # rest"
    "rest @ post = sync_parent os path" by auto
  with u(1) rc that show thesis by blast
qed

lemma sync_parent_dir:
  "sync_parent os path \<noteq> [] \<Longrightarrow> durable (EvRename p path) (sync_parent os path)"
  by (auto simp: sync_parent_def Let_def split: option.splits if_splits)

text \<open>
  C17. Crash safety of the marker: whatever a power failure at any point of a call leaves on
  the disk (after any prefix of its file system events, any unsynced writes and renames among them lost), the file
  at \<open>wal_path\<close> holds either what it held before or the complete marker, and the marker only
  after the key has been released: \<open>"ERASED "\<close>, or \<open>"ERASING"\<close> followed by it when the
  unchecked \<open>lseek\<close> failed. Once a call whose parent directory could be opened has returned true, no failure
  loses the marker.
\<close>

theorem erase_marker_crash_safe:
  assumes "key_safe w" "structs w a = Some (Some obj)"
    and "higgaion_key_erase_durable os (Some a) (Some path) w = Some ((r, pre @ post), w')"
    and "kept \<in> set (survivors pre)"
  shows "(replay fs kept path = fs path
      \<or> replay fs kept path = Some (if lseek_ok os then ERASED else ERASING @ ERASED)
        \<and> EvFreeKey obj \<in> set pre)
    \<and> (r \<and> post = [] \<and> sync_parent os path \<noteq> [] \<longrightarrow>
        replay fs kept path = Some (if lseek_ok os then ERASED else ERASING @ ERASED))"
proof (cases "\<exists>e \<in> set pre. touches path e")
  case False
  then have "replay fs kept path = fs path"
    using replay_untouched [of kept path fs] survivors_subset [OF assms(4)] by blast
  moreover have "\<not> (r \<and> post = [])"
  proof
    assume "r \<and> post = []"
    then have "pre = phase3 os path obj"
      using erase_outcome [OF assms(1,2), of os path] assms(3) by (auto simp: Let_def)
    then show False using False by (auto simp: phase3_def touches_def)
  qed
  ultimately show ?thesis by blast
next
  case True
  obtain rest where rest: "pre = ready os path obj @ EvRename (path @ ''.tmp'') path # rest"
    "rest @ post = sync_parent os path" "write_rc1 os = 7" "write_rc2 os = 7"
    by (rule erase_rename_position [OF assms(1-3) True])
  have dirs: "\<forall>e \<in> set rest. \<exists>d. e = EvSyncDir d \<or> e = EvCloseDir d"
    using sync_parent_events [of os path] rest(2) by (metis Un_iff set_append)
  have free: "EvFreeKey obj \<in> set pre" unfolding rest(1) by (simp add: ready_def phase2_def)
  have "durable (EvRename (path @ ''.tmp'') path) rest" if "post = []" "sync_parent os path \<noteq> []"
    using sync_parent_dir [OF that(2)] rest(2) that(1) by simp
  with renamed_survivor [OF rest(3,4) dirs assms(4) [unfolded rest(1)], of fs] free
  show ?thesis by blast
qed

definition calm_os :: os where
  "calm_os = \<lparr>open_ok = (\<lambda>p. True), write_rc1 = 7, write_rc2 = 7, lseek_ok = True,
     rename_ok = True, open_dir_ok = (\<lambda>p. True)\<rparr>"

lemma calm_erase:
  "\<exists>w'. higgaion_key_erase_durable calm_os (Some 10) (Some ''/w/k'') one_key =
    Some ((True, phase3 calm_os ''/w/k'' 1), w')"
  using one_key_safe
  by (simp add: higgaion_key_erase_durable_def get_pkey_def calm_os_def Let_def pkey_free_def
      set_pkey_def phase1_def phase2_def phase3_def)

lemma erase_marker_crash_safe_witness:
  "\<exists>kept. survivors (phase3 calm_os ''/w/k'' 1) = [kept]
    \<and> replay (Map.empty :: files) kept ''/w/k'' = Some ERASED
    \<and> sync_parent calm_os ''/w/k'' \<noteq> []"
proof -
  obtain w' where run: "higgaion_key_erase_durable calm_os (Some 10) (Some ''/w/k'') one_key =
      Some ((True, phase3 calm_os ''/w/k'' 1 @ []), w')"
    using calm_erase by auto
  have dir: "sync_parent calm_os ''/w/k'' = [EvSyncDir ''/w'', EvCloseDir ''/w'']"
    by (simp add: sync_parent_def calm_os_def Let_def)
  have s: "survivors (phase3 calm_os ''/w/k'' 1) = [phase3 calm_os ''/w/k'' 1]"
    unfolding phase3_ready ready_survives dir by (simp add: Let_def)
  from erase_marker_crash_safe [OF _ _ run, of 1 "phase3 calm_os ''/w/k'' 1" "Map.empty"] one_key_safe s
  show ?thesis using dir by (simp add: calm_os_def)
qed

text \<open>
  The results of \<open>fsync\<close> matter although the code ignores them: if the calls did not reach the
  disk, a call that returned true can leave the announcement alone behind the final name, or
  an empty file, with the key gone.
\<close>

lemma unsynced_announcement_survives:
  "\<exists>kept \<in> set (survivors (filter (\<lambda>e. \<forall>p. e \<noteq> EvSync p) (phase3 calm_os ''/w/k'' 1))).
     replay (Map.empty :: files) kept ''/w/k'' = Some ERASING"
  "\<exists>kept \<in> set (survivors (filter (\<lambda>e. \<forall>p. e \<noteq> EvSync p) (phase3 calm_os ''/w/k'' 1))).
     replay (Map.empty :: files) kept ''/w/k'' = Some []"
  by (simp_all add: phase3_def phase2_def phase1_def calm_os_def sync_parent_def Let_def
      file_write_start markers)

text \<open>
  C18. The announcement precedes the destruction: whenever a call releases the key, the
  temporary file contained exactly \<open>"ERASING"\<close> at that moment and had just been synced, and
  the key is released once.
\<close>

theorem erase_announced_before_release:
  assumes "key_safe w" "structs w a = Some (Some obj)"
    and "higgaion_key_erase_durable os (Some a) (Some path) w = Some ((r, pre @ EvFreeKey x # post), w')"
  shows "x = obj \<and> replay fs pre (path @ ''.tmp'') = Some ERASING
    \<and> last pre = EvSync (path @ ''.tmp'') \<and> (\<forall>y. EvFreeKey y \<notin> set post)"
proof -
  let ?tmp = "path @ ''.tmp''"
  have free1: "EvFreeKey y \<notin> set (phase1 os ?tmp @ [EvClose ?tmp])" for y
    by (simp add: phase1_def)
  have dirs: "EvFreeKey y \<notin> set (sync_parent os path)" for y
    using sync_parent_events [of os path] by auto
  have mem: "EvFreeKey x \<in> set (pre @ EvFreeKey x # post)" by simp
  have rc: "write_rc1 os = 7"
    and c: "pre @ EvFreeKey x # post = phase2 os ?tmp obj @ [EvClose ?tmp]
      \<or> pre @ EvFreeKey x # post = phase2 os ?tmp obj @ [EvSync ?tmp, EvClose ?tmp]
      \<or> pre @ EvFreeKey x # post = phase3 os path obj"
    using erase_outcome [OF assms(1,2), of os path] assms(3) free1 mem empty_iff
    unfolding Let_def by (metis (no_types, lifting) Pair_inject list.set(1) option.inject)+
  let ?head = "phase1 os ?tmp @ [EvSync ?tmp]"
  obtain tail where tail: "pre @ EvFreeKey x # post = ?head @ EvFreeKey obj # tail"
    "\<forall>y. EvFreeKey y \<notin> set tail"
    using c dirs by (auto simp: phase3_def phase2_def)
  have free: "EvFreeKey y \<notin> set ?head" for y by (simp add: phase1_def)
  have split: "pre = ?head \<and> EvFreeKey x = EvFreeKey obj \<and> post = tail"
    using free tail(2) by (intro split_at_unique [OF tail(1), where Q = "\<lambda>e. \<exists>y. e = EvFreeKey y"]) auto
  then show ?thesis
    using rc tail(2) by (auto simp: phase1_def markers file_write_start)
qed

lemma erase_announced_before_release_witness:
  "replay (Map.empty :: files) (phase1 calm_os ''/w/k.tmp'' @ [EvSync ''/w/k.tmp'']) ''/w/k.tmp'' =
    Some ERASING"
proof -
  obtain w' tail where "higgaion_key_erase_durable calm_os (Some 10) (Some ''/w/k'') one_key =
      Some ((True, (phase1 calm_os ''/w/k.tmp'' @ [EvSync ''/w/k.tmp'']) @ EvFreeKey 1 # tail), w')"
    using calm_erase by (auto simp: phase3_def phase2_def)
  from erase_announced_before_release [OF _ _ this, of 1 "Map.empty"] one_key_safe show ?thesis
    by simp
qed

text \<open>
  C19. What success means: the marker file holds \<open>"ERASED "\<close> (preceded by \<open>"ERASING"\<close> if the
  ignored \<open>lseek\<close> failed), the temporary file is gone, the struct is empty, and exactly one
  reference was dropped: key material shared through \<open>higgaion_key_up_ref\<close> survives an erase
  that reports success.
\<close>

theorem erase_success:
  assumes "key_safe w" "structs w a = Some (Some obj)"
    and "higgaion_key_erase_durable os (Some a) (Some path) w = Some ((True, evs), w')"
  shows "replay fs evs path = Some (if lseek_ok os then ERASED else ERASING @ ERASED)
    \<and> replay fs evs (path @ ''.tmp'') = None
    \<and> structs w' = (structs w)(a \<mapsto> None)
    \<and> refs (pkeys w') obj = refs (pkeys w) obj - 1
    \<and> (\<forall>b \<noteq> a. structs w b = Some (Some obj) \<longrightarrow> pkeys w' obj \<noteq> None)"
proof -
  let ?tmp = "path @ ''.tmp''"
  have out: "key_safe w'" "slack w' = slack w" "structs w' = (structs w)(a \<mapsto> None)"
    "evs = phase3 os path obj" "write_rc1 os = 7" "write_rc2 os = 7"
    using erase_outcome [OF assms(1,2), of os path] assms(3) by (auto simp: Let_def)
  have fin: "finite (dom (structs w))" using assms(1) by (simp add: key_safe_def)
  have "0 < refs (pkeys w) obj"
    using key_safe_held [OF assms(1,2)] by (metis case_prod_conv option.case(2) refs_def)
  moreover have "int (refs (pkeys w') obj) = int (refs (pkeys w) obj) - 1"
    using out(2) card_owners_upd [OF fin, of a None obj] assms(2) out(3)
    by (auto simp: slack_def dest: fun_cong [where x = obj])
  ultimately have refs: "refs (pkeys w') obj = refs (pkeys w) obj - 1" by arith
  have files: "replay fs evs = (replay fs (phase2 os ?tmp obj))
      (path := replay fs (phase2 os ?tmp obj) ?tmp, ?tmp := None)"
    unfolding out(4) phase3_def using replay_dir_events [OF sync_parent_events] by simp
  have "pkeys w' obj \<noteq> None" if "b \<noteq> a" "structs w b = Some (Some obj)" for b
  proof -
    have "structs w' b = Some (Some obj)" using that out(3) by simp
    from key_safe_held [OF out(1) this] show ?thesis by (metis option.distinct(1))
  qed
  then show ?thesis
    using refs out(3) phase2_file [OF out(5,6), of fs ?tmp obj] files by simp
qed

lemma erase_success_witness:
  "replay (Map.empty :: files) (phase3 calm_os ''/w/k'' 1) ''/w/k'' = Some ERASED"
proof -
  obtain w' where "higgaion_key_erase_durable calm_os (Some 10) (Some ''/w/k'') one_key =
      Some ((True, phase3 calm_os ''/w/k'' 1), w')"
    using calm_erase by auto
  from erase_success [OF _ _ this, of 1 "Map.empty"] one_key_safe show ?thesis
    by (simp add: calm_os_def)
qed

text \<open>
  C39. What failure means: nothing certain. A call that returns false may have left the key
  in place or have released it (a failed second \<open>write\<close> or \<open>rename\<close>); the two are told apart by
  the first \<open>write\<close> alone, and in the second case the marker file never appears.
\<close>

theorem erase_failure_is_ambiguous:
  assumes "key_safe w" "structs w a = Some (Some obj)"
    and "higgaion_key_erase_durable os (Some a) (Some path) w = Some ((False, evs), w')"
  shows "replay fs evs path = fs path
    \<and> (if EvFreeKey obj \<in> set evs then write_rc1 os = 7 \<and> structs w' = (structs w)(a \<mapsto> None)
       else w' = w)"
proof -
  let ?tmp = "path @ ''.tmp''"
  consider "evs = []" "w' = w" | "evs = phase1 os ?tmp @ [EvClose ?tmp]" "w' = w"
    | "evs = phase2 os ?tmp obj @ [EvClose ?tmp]" "structs w' = (structs w)(a \<mapsto> None)" "write_rc1 os = 7"
    | "evs = phase2 os ?tmp obj @ [EvSync ?tmp, EvClose ?tmp]"
      "structs w' = (structs w)(a \<mapsto> None)" "write_rc1 os = 7"
    using erase_outcome [OF assms(1,2), of os path] assms(3) by (auto simp: Let_def)
  then show ?thesis
  proof cases
    case 2
    then show ?thesis using replay_untouched [of evs path fs] phases_untouched(3)
      by (auto simp: phase1_def)
  next
    case 3
    then show ?thesis using replay_untouched [of evs path fs] phases_untouched(4)
      by (auto simp: phase2_def)
  next
    case 4
    then show ?thesis using replay_untouched [of evs path fs] phases_untouched(5)
      by (auto simp: phase2_def)
  qed simp
qed

lemma erase_failure_is_ambiguous_witness:
  "\<exists>evs w'. higgaion_key_erase_durable (calm_os\<lparr>rename_ok := False\<rparr>) (Some 10) (Some ''/w/k'')
      one_key = Some ((False, evs), w') \<and> structs w' 10 = Some None"
proof -
  obtain evs w' where e: "higgaion_key_erase_durable (calm_os\<lparr>rename_ok := False\<rparr>) (Some 10)
      (Some ''/w/k'') one_key = Some ((False, evs), w')" "EvFreeKey 1 \<in> set evs"
    by (simp add: higgaion_key_erase_durable_def get_pkey_def calm_os_def Let_def pkey_free_def
        set_pkey_def)
  from erase_failure_is_ambiguous [OF _ _ e(1), of 1 Map.empty] e one_key_safe show ?thesis
    by auto
qed

end
