(* ===== verification/Authenticity.thy ===== *)
theory Authenticity
  imports SignVerify
begin

text \<open>
  Which bytes \<open>pqc_sign\<close> and \<open>pqc_verify\<close> hand to libcrypto, read off the ghost list
  \<open>sig_calls\<close>, and the game that says what unforgeability asks of one run. The lemmas show
  that a call signs or checks at most one string, the encoding of its own (domain, message) pair,
  under the key of the struct it was given.
\<close>

subsection \<open>The forgery game\<close>

text \<open>
  Existential unforgeability under chosen messages, for one run and one key: \<open>M\<close> are the byte
  strings the library has signed with \<open>k\<close> so far (the oracle's answered queries), and
  no call of \<open>EVP_DigestVerify\<close> accepts a string that is not among them. It restricts only the
  calls that were made; it leaves every string its valid signatures, and allows an accepted
  signature to differ from the one that was issued.
\<close>

fun unforged :: "'k \<Rightarrow> bytes set \<Rightarrow> 'k sig_call list \<Rightarrow> bool" where
  "unforged k M [] = True"
| "unforged k M (DigestSign k' m rc # cs) =
     unforged k (if k' = k \<and> rc > 0 then insert m M else M) cs"
| "unforged k M (DigestVerify k' s m rc # cs) =
     ((k' = k \<and> rc = 1 \<longrightarrow> m \<in> M) \<and> unforged k M cs)"

text \<open>The strings that were signed with \<open>k\<close>.\<close>

definition signed_strings :: "'k \<Rightarrow> 'k sig_call list \<Rightarrow> bytes set" where
  "signed_strings k cs = {m. \<exists>rc > 0. DigestSign k m rc \<in> set cs}"

lemma signed_strings_simps [simp]:
  "signed_strings k [] = {}"
  "signed_strings k (DigestSign k' m rc # cs) =
     (if k' = k \<and> rc > 0 then insert m (signed_strings k cs) else signed_strings k cs)"
  "signed_strings k (DigestVerify k' s m rc # cs) = signed_strings k cs"
  "signed_strings k (cs @ cs') = signed_strings k cs \<union> signed_strings k cs'"
  by (auto simp: signed_strings_def)

lemma unforged_last:
  "unforged k M (cs @ [DigestVerify k s m 1]) \<Longrightarrow> m \<in> M \<union> signed_strings k cs"
  by (induction k M cs rule: unforged.induct) (auto split: if_splits)

subsection \<open>What leaves the list of calls alone\<close>

named_theorems quiet \<open>an operation makes no signature call\<close>

lemma log_calls [simp]:
  "sig_calls (log_message l t f as w) = sig_calls w"
  "sig_calls (log_openssl_error m w) = sig_calls w"
  "sig_calls (ext_call E w) = sig_calls w"
  by (simp_all add: log_message_def log_openssl_error_def ext_call_def case_prod_beta Let_def)

lemma mem_write_quiet [quiet]: "mem_write a off bs w = Some w' \<Longrightarrow> sig_calls w' = sig_calls w"
  by (auto simp: mem_write_def split: option.splits if_splits)

lemma free_block_quiet [quiet]: "free_block a w = Some w' \<Longrightarrow> sig_calls w' = sig_calls w"
  by (auto simp: free_block_def split: option.splits)

lemma wipe_free_quiet [quiet]: "wipe_free buf len w = Some w' \<Longrightarrow> sig_calls w' = sig_calls w"
  by (auto simp: wipe_free_def OPENSSL_cleanse_def bind_eq_Some_conv dest!: quiet)

lemma md_ctx_free_quiet [quiet]: "md_ctx_free c w = Some w' \<Longrightarrow> sig_calls w' = sig_calls w"
  by (auto simp: md_ctx_free_def split: if_splits)

lemma finish_quiet [quiet]: "finish c buf len w = Some w' \<Longrightarrow> sig_calls w' = sig_calls w"
  by (auto simp: finish_def bind_eq_Some_conv dest!: quiet)

lemma md_ctx_new_quiet [quiet]: "md_ctx_new E w = (r, w') \<Longrightarrow> sig_calls w' = sig_calls w"
  by (auto simp: md_ctx_new_def Let_def split: if_splits)

lemma malloc_quiet [quiet]: "malloc E n w = (r, w') \<Longrightarrow> sig_calls w' = sig_calls w"
  by (auto simp: malloc_def Let_def split: if_splits)

lemma build_quiet:
  assumes "ds_readable message msg_len domain"
    and "build_domain_separated_message E (Some out) (Some ol) message msg_len domain w = Some (r, w')"
  shows "sig_calls w' = sig_calls w"
proof (cases "ds_accepts message msg_len domain")
  case False
  with build_rejected [OF assms(1) False, of E out ol w] assms(2) show ?thesis by auto
next
  case True
  with build_nomem [OF assms(1) True, of E w out ol] build_done [OF assms(1) True, of E w out ol]
    assms(2) show ?thesis
    by (cases "malloc_ok E (clock w) (ds_length domain msg_len)") auto
qed

subsection \<open>The calls of one operation\<close>

lemma sign_execute_calls:
  assumes "sign_execute E c sg k buf t n w = Some ((r, len), w')"
    and "heap w buf = Some msg" "length msg = unat t" "buf \<noteq> sg"
  shows "\<exists>rc. sig_calls w' = sig_calls w @ [DigestSign k msg rc]
    \<and> r = Some (if rc > 0 then Some sg else None)"
proof -
  obtain w1 where w1: "mem_write sg 0 (replicate (unat n) 0) w = Some w1"
    using assms(1) by (auto simp: sign_execute_def bind_eq_Some_conv)
  have "heap w1 buf = Some msg"
    using w1 assms(2,4) by (auto simp: mem_write_def split: option.splits if_splits)
  then have rd: "read_block buf t w1 = Some msg"
    using assms(3) by (simp add: read_block_def read_bytes_def)
  obtain rc out n' where ex: "sign_exec E (clock w1) k msg n = (rc, out, n')"
    by (metis prod_cases3)
  show ?thesis
    using assms(1) w1 rd ex
    by (auto simp: sign_execute_def bind_eq_Some_conv Let_def split: if_splits dest!: quiet)
qed

lemma sign_with_context_calls:
  assumes "sign_with_context E c k buf t w = Some ((r, len), w')"
    and "wf_world w" "heap w buf = Some msg" "length msg = unat t"
  shows "sig_calls w' = sig_calls w \<and> r = Some None
    \<or> (\<exists>rc. sig_calls w' = sig_calls w @ [DigestSign k msg rc]
        \<and> (rc > 0 \<longleftrightarrow> (\<exists>sg. r = Some (Some sg))))"
proof -
  let ?e1 = "ext_call E w"
  let ?e2 = "ext_call E ?e1"
  have rd: "read_block buf t ?e1 = Some msg"
    using assms(3,4) by (simp add: read_block_def read_bytes_def)
  obtain rc n where sz: "sign_size E (Suc (clock w)) k msg = (rc, n)" by fastforce
  obtain a w1 where mal: "malloc E n ?e2 = (a, w1)" by fastforce
  show ?thesis
  proof (cases "sign_init E (clock w) k \<le> 0 \<or> rc \<le> 0 \<or> a = None")
    case True
    then show ?thesis
      using assms(1) rd sz mal
      by (auto simp: sign_with_context_def Let_def bind_eq_Some_conv dest!: quiet split: if_splits)
  next
    case False
    then obtain sg where sg: "a = Some sg" by blast
    have "heap w (brk w) = None" using wf_world_fresh [OF assms(2)] by simp
    then have w1: "sg \<noteq> buf" "heap w1 buf = Some msg" "sig_calls w1 = sig_calls w"
      using mal sg assms(3) malloc_quiet [OF mal] by (auto simp: malloc_def Let_def split: if_splits)
    have "sign_execute E c sg k buf t n w1 = Some ((r, len), w')"
      using assms(1) False sg rd sz mal by (simp add: sign_with_context_def Let_def)
    from sign_execute_calls [OF this w1(2) assms(4)] w1 show ?thesis by auto
  qed
qed

text \<open>
  \<open>pqc_sign\<close> has at most one string signed: the encoding of its pair, under its struct's key;
  and the caller gets a signature exactly when that was answered with success.
\<close>

definition pair_encoding :: "bytes option \<Rightarrow> bytes option \<Rightarrow> u64 \<Rightarrow> bytes" where
  "pair_encoding domain message msg_len = ds_encode (domain_bytes domain) (message_bytes message msg_len)"

lemma scratch_block:
  assumes "key_safe w" "ds_readable message msg_len domain"
    and "build_domain_separated_message E (Some None) (Some 0) message msg_len domain w =
      Some ((True, Some (Some buf), Some t), w1)"
  shows "wf_world w1" "heap w1 buf = Some (pair_encoding domain message msg_len)"
    "length (pair_encoding domain message msg_len) = unat t" "pkeys w1 = pkeys w"
    "sig_calls w1 = sig_calls w" "ds_accepts message msg_len domain" "brk w \<le> brk w1"
proof -
  have wf: "wf_world w" using assms(1) by (simp add: key_safe_def)
  have ok: "ds_accepts message msg_len domain \<and> malloc_ok E (clock w) (ds_length domain msg_len)"
    using build_effect [OF wf assms(2), of E None 0] assms(3) by (auto split: if_splits)
  then show "ds_accepts message msg_len domain" by simp
  have eq: "buf = brk w" "t = ds_length domain msg_len"
    "effect w w1 ((heap w)(brk w \<mapsto> pair_encoding domain message msg_len)) [] (md_ctxs w)"
    using build_effect [OF wf assms(2), of E None 0] assms(3) ok by (simp_all add: pair_encoding_def)
  then show "wf_world w1" "heap w1 buf = Some (pair_encoding domain message msg_len)"
    "pkeys w1 = pkeys w" "brk w \<le> brk w1"
    by (simp_all add: effect_def)
  show "length (pair_encoding domain message msg_len) = unat t"
    using length_ds_block [OF _ assms(2)] ok eq(2) by (simp add: pair_encoding_def)
  show "sig_calls w1 = sig_calls w" by (rule build_quiet [OF assms(2,3)])
qed

lemma new_context_block:
  assumes "md_ctx_new E w = (Some c, w')" "wf_world w"
  shows "wf_world w'" "heap w' = heap w" "pkeys w' = pkeys w" "sig_calls w' = sig_calls w"
  using assms by (auto simp: md_ctx_new_def Let_def wf_world_def split: if_splits)

lemma pqc_sign_calls:
  assumes "key_safe w" "ds_readable message msg_len domain"
    and "pqc_sign E signature sig_len message msg_len domain sk w = Some ((r, len), w')"
  shows "sig_calls w' = sig_calls w \<and> (\<forall>sg. r \<noteq> Some (Some sg))
    \<or> (\<exists>obj k rc. held w sk = Some obj \<and> pkey_material obj w = Some k
        \<and> ds_accepts message msg_len domain
        \<and> sig_calls w' = sig_calls w @ [DigestSign k (pair_encoding domain message msg_len) rc]
        \<and> (rc > 0 \<longleftrightarrow> (\<exists>sg. r = Some (Some sg))))"
proof (cases "signature = None \<or> sig_len = None \<or> held w sk = None")
  case True
  then show ?thesis
    using assms(3)
    by (cases "signature = None \<or> sig_len = None"; cases sk; cases "get_pkey (the sk) w")
      (auto simp: pqc_sign_def Let_def held_def get_pkey_def)
next
  case False
  then obtain a obj where a: "sk = Some a" "structs w a = Some (Some obj)" "held w sk = Some obj"
    by (auto simp: held_def split: option.splits)
  obtain ok buffer tl w1 where bd: "build_domain_separated_message E (Some None) (Some 0) message
      msg_len domain w = Some ((ok, buffer, tl), w1)"
    using assms(3) a False by (auto simp: pqc_sign_def Let_def get_pkey_def bind_eq_Some_conv)
  show ?thesis
  proof (cases "\<exists>buf t. (ok, buffer, tl) = (True, Some (Some buf), Some t)")
    case False': False
    then have "w' = w1 \<and> (\<forall>sg. r \<noteq> Some (Some sg))"
      using assms(3) a False bd
      by (auto simp: pqc_sign_def Let_def get_pkey_def split: option.splits bool.splits)
    then show ?thesis using build_quiet [OF assms(2) bd] by simp
  next
    case True
    then obtain buf t where bt: "ok" "buffer = Some (Some buf)" "tl = Some t" by auto
    note sb = scratch_block [OF assms(1,2) bd [unfolded bt(2,3) eqTrueI [OF bt(1)]]]
    obtain cx w2 where new: "md_ctx_new E w1 = (cx, w2)" by fastforce
    show ?thesis
    proof (cases cx)
      case None
      then show ?thesis
        using assms(3) a False bd bt new sb(5) md_ctx_new_quiet [OF new]
        by (auto simp: pqc_sign_def Let_def get_pkey_def bind_eq_Some_conv dest!: wipe_free_quiet)
    next
      case (Some c)
      note nc = new_context_block [OF new [unfolded Some] sb(1)]
      obtain k where k: "pkey_material obj w2 = Some k"
        "sign_with_context E c k buf t w2 = Some ((r, len), w')"
        using assms(3) a False bd bt new Some
        by (auto simp: pqc_sign_def Let_def get_pkey_def bind_eq_Some_conv)
      have "pkey_material obj w = Some k"
        using k(1) nc(3) sb(4) by (simp add: pkey_material_def)
      with sign_with_context_calls [OF k(2) nc(1) _ sb(3)] nc sb a(3) show ?thesis by auto
    qed
  qed
qed

text \<open>
  \<open>pqc_verify\<close> has at most one string checked, again the encoding of its pair under its
  struct's key, and it answers true only if the library accepted that string.
\<close>

lemma verify_with_context_calls:
  assumes "verify_with_context E c k buf t msg_len signature sig_len w = Some (r, w')"
    and "heap w buf = Some msg" "length msg = unat t"
  shows "\<not> r \<and> sig_calls w' = sig_calls w
    \<or> (\<exists>s rc. sig_calls w' = sig_calls w @ [DigestVerify k s msg rc] \<and> (r \<longleftrightarrow> rc = 1))"
proof -
  have rd: "read_block buf t (ext_call E w) = Some msg"
    using assms(2,3) by (simp add: read_block_def read_bytes_def)
  show ?thesis
  proof (cases "verify_init E (clock w) k \<le> 0")
    case True
    then show ?thesis
      using assms(1)
      by (auto simp: verify_with_context_def Let_def bind_eq_Some_conv dest!: quiet)
  next
    case False
    obtain s where s: "read_bytes signature (unat sig_len) = Some s"
      using assms(1) False rd by (auto simp: verify_with_context_def Let_def bind_eq_Some_conv)
    show ?thesis
      using assms(1) False rd s
      by (cases "verify_exec E (Suc (clock w)) k s msg = 1")
        (auto simp: verify_with_context_def Let_def bind_eq_Some_conv dest!: quiet)
  qed
qed

lemma pqc_verify_calls:
  assumes "key_safe w" "ds_readable message msg_len domain"
    and "pqc_verify E message msg_len signature sig_len domain pk w = Some (r, w')"
  shows "\<not> r \<and> sig_calls w' = sig_calls w
    \<or> (\<exists>obj k s rc. held w pk = Some obj \<and> pkey_material obj w = Some k
        \<and> ds_accepts message msg_len domain
        \<and> sig_calls w' = sig_calls w @ [DigestVerify k s (pair_encoding domain message msg_len) rc]
        \<and> (r \<longleftrightarrow> rc = 1))"
proof (cases "held w pk = None \<or> signature = None \<or> sig_len = 0 \<or> msg_len > 0 \<and> message = None")
  case True
  then show ?thesis
    using assms(3)
    by (cases pk; cases "get_pkey (the pk) w")
      (auto simp: pqc_verify_def held_def get_pkey_def split: option.splits if_splits)
next
  case False
  then obtain a obj where a: "pk = Some a" "structs w a = Some (Some obj)" "held w pk = Some obj"
    by (auto simp: held_def split: option.splits)
  obtain ok buffer tl w1 where bd: "build_domain_separated_message E (Some None) (Some 0) message
      msg_len domain w = Some ((ok, buffer, tl), w1)"
    using assms(3) a False by (auto simp: pqc_verify_def get_pkey_def bind_eq_Some_conv split: if_splits)
  show ?thesis
  proof (cases "\<exists>buf t. (ok, buffer, tl) = (True, Some (Some buf), Some t)")
    case False': False
    then have "w' = w1 \<and> \<not> r"
      using assms(3) a False bd
      by (auto simp: pqc_verify_def get_pkey_def split: option.splits bool.splits if_splits)
    then show ?thesis using build_quiet [OF assms(2) bd] by simp
  next
    case True
    then obtain buf t where bt: "ok" "buffer = Some (Some buf)" "tl = Some t" by auto
    note sb = scratch_block [OF assms(1,2) bd [unfolded bt(2,3) eqTrueI [OF bt(1)]]]
    obtain cx w2 where new: "md_ctx_new E w1 = (cx, w2)" by fastforce
    show ?thesis
    proof (cases cx)
      case None
      then show ?thesis
        using assms(3) a False bd bt new sb(5) md_ctx_new_quiet [OF new]
        by (auto simp: pqc_verify_def get_pkey_def bind_eq_Some_conv dest!: wipe_free_quiet
            split: if_splits)
    next
      case (Some c)
      note nc = new_context_block [OF new [unfolded Some] sb(1)]
      obtain k where k: "pkey_material obj w2 = Some k"
        "verify_with_context E c k buf t msg_len signature sig_len w2 = Some (r, w')"
        using assms(3) a False bd bt new Some
        by (auto simp: pqc_verify_def get_pkey_def bind_eq_Some_conv split: if_splits)
      have "pkey_material obj w = Some k"
        using k(1) nc(3) sb(4) by (simp add: pkey_material_def)
      with verify_with_context_calls [OF k(2) _ sb(3)] nc sb a(3) show ?thesis by auto
    qed
  qed
qed

end
