(* ===== verification/Api.thy ===== *)
theory Api
  imports Authenticity EraseDurable Utilities
begin

text \<open>
  The whole public interface of \<open>include/higgaion/pqc_crypto.h\<close> as one machine: a client
  calls the operations of the other theories in any order, on structs that may alias, and
  frees the signatures it was given. \<open>api_ok\<close> is the contract of the header for one call,
  \<open>api_wf\<close> the invariant between calls; the lemmas are progress (no undefined behaviour),
  preservation, an exact account of the heap blocks that are live, and the authenticity of
  what a session verifies.
\<close>

subsection \<open>What the other components leave alone\<close>

text \<open>The key operations touch neither the heap nor a digest context and make no signature call.\<close>

definition mem :: "'k world \<Rightarrow> (addr \<rightharpoonup> bytes) \<times> bytes list \<times> addr set \<times> 'k sig_call list" where
  "mem w = (heap w, freed w, md_ctxs w, sig_calls w)"

named_theorems frames \<open>an operation keeps the heap and the digest contexts\<close>

lemma mem_simps [simp]:
  "mem (log_message l t f as w) = mem w" "mem (log_openssl_error m w) = mem w"
  "mem (ext_call E w) = mem w" "mem (w\<lparr>brk := b\<rparr>) = mem w" "mem (w\<lparr>structs := s\<rparr>) = mem w"
  "mem (w\<lparr>pkeys := p\<rparr>) = mem w" "mem (w\<lparr>key_ctxs := c\<rparr>) = mem w"
  by (simp_all add: mem_def)

lemma set_pkey_frame [frames]: "set_pkey a v w = Some w' \<Longrightarrow> mem w' = mem w"
  by (auto simp: set_pkey_def split: option.splits)

lemma pkey_free_frame [frames]: "pkey_free obj w = Some w' \<Longrightarrow> mem w' = mem w"
  by (auto simp: pkey_free_def split: option.splits)

lemma key_ctx_free_frame [frames]: "key_ctx_free c w = Some w' \<Longrightarrow> mem w' = mem w"
  by (auto simp: key_ctx_free_def split: if_splits)

lemma key_ctx_new_frame [frames]: "key_ctx_new E alg w = (r, w') \<Longrightarrow> mem w' = mem w"
  by (auto simp: key_ctx_new_def Let_def split: if_splits)

lemma pkey_up_ref_frame [frames]: "pkey_up_ref E obj w = Some (rc, w') \<Longrightarrow> mem w' = mem w"
  by (auto simp: pkey_up_ref_def Let_def split: option.splits if_splits)

lemma evp_keygen_frame [frames]: "evp_keygen E a alg w = Some (rc, w') \<Longrightarrow> mem w' = mem w"
  by (auto simp: evp_keygen_def case_prod_beta Let_def bind_eq_Some_conv
      dest!: set_pkey_frame split: option.splits)

lemma log_provider_frame [frames]: "log_provider E a alg w = Some w' \<Longrightarrow> mem w' = mem w"
  by (auto simp: log_provider_def bind_eq_Some_conv split: option.splits)

lemma generate_fresh_frame [frames]:
  assumes "generate_fresh E a alg w = Some w'"
  shows "mem w' = mem w"
proof -
  obtain r w1 where new: "key_ctx_new E alg w = (r, w1)" by fastforce
  show ?thesis
  proof (cases r)
    case None
    with assms new show ?thesis by (auto simp: generate_fresh_def dest: frames)
  next
    case (Some c)
    with assms new show ?thesis
      by (auto simp: generate_fresh_def Let_def bind_eq_Some_conv
          dest!: frames split: if_splits)
  qed
qed

lemma higgaion_key_free_frame [frames]: "higgaion_key_free key w = Some w' \<Longrightarrow> mem w' = mem w"
  by (auto simp: higgaion_key_free_def bind_eq_Some_conv
      dest!: frames split: option.splits)

lemma key_step_frame:
  assumes "key_step required E op w = Some w'"
  shows "mem w' = mem w"
proof (cases op)
  case (KInit key)
  with assms show ?thesis by (auto simp: key_step_def higgaion_key_init_def split: option.splits)
next
  case (KFree key)
  with assms show ?thesis by (auto simp: key_step_def dest: frames)
next
  case (KGenerate key alg)
  with assms show ?thesis
    by (auto simp: key_step_def generate_keypair_def bind_eq_Some_conv
        dest!: frames split: option.splits if_splits)
next
  case (KUpRef dst src)
  with assms show ?thesis
    by (auto simp: key_step_def higgaion_key_up_ref_def bind_eq_Some_conv
        dest!: frames split: option.splits if_splits)
qed

lemma erase_progress:
  assumes "key_safe w" "set_option key \<subseteq> dom (structs w)"
  shows "\<exists>r evs w'. higgaion_key_erase_durable os key path w = Some ((r, evs), w') \<and> key_safe w'
    \<and> slack w' = slack w \<and> mem w' = mem w \<and> key_ctxs w' = key_ctxs w
    \<and> dom (structs w') = dom (structs w)"
proof (cases "held w key = None \<or> path = None")
  case True
  with assms(2) have "higgaion_key_erase_durable os key path w = Some ((False, []), w)"
    by (cases key; cases path) (auto simp: higgaion_key_erase_durable_def held_def get_pkey_def
        split: option.splits)
  with assms(1) show ?thesis by (simp add: ex_bool_eq)
next
  case False
  then obtain a obj p where key: "key = Some a" "structs w a = Some (Some obj)" "path = Some p"
    by (auto simp: held_def split: option.splits)
  obtain q where q: "pkey_free obj w \<bind> set_pkey a None =
      Some (w\<lparr>pkeys := q, structs := (structs w)(a \<mapsto> None)\<rparr>)"
    "key_safe (w\<lparr>pkeys := q, structs := (structs w)(a \<mapsto> None)\<rparr>)"
    "slack (w\<lparr>pkeys := q, structs := (structs w)(a \<mapsto> None)\<rparr>) = slack w"
    using drop_reference [OF assms(1) key(2)] by blast
  from q(1) obtain w1 where w1: "pkey_free obj w = Some w1"
    "set_pkey a None w1 = Some (w\<lparr>pkeys := q, structs := (structs w)(a \<mapsto> None)\<rparr>)"
    by (auto simp: bind_eq_Some_conv)
  obtain r evs w' where w': "higgaion_key_erase_durable os (Some a) (Some p) w = Some ((r, evs), w')"
    "w' = w \<or> w' = w\<lparr>pkeys := q, structs := (structs w)(a \<mapsto> None)\<rparr>"
  proof -
    have "\<exists>x. higgaion_key_erase_durable os (Some a) (Some p) w = Some x
        \<and> (snd x = w \<or> snd x = w\<lparr>pkeys := q, structs := (structs w)(a \<mapsto> None)\<rparr>)"
      using erase_eq [OF key(2) w1, of os p] by simp
    with that show thesis by (metis prod.collapse)
  qed
  from w'(2) have "key_safe w' \<and> slack w' = slack w \<and> mem w' = mem w \<and> key_ctxs w' = key_ctxs w
    \<and> dom (structs w') = dom (structs w)"
    using assms(1) q(2,3) key(2) by (auto split: if_splits)
  with w'(1) key show ?thesis by blast
qed

lemma hash_frame:
  assumes "hash E out data len w = Some (r, w')"
  shows "structs w' = structs w \<and> pkeys w' = pkeys w \<and> key_ctxs w' = key_ctxs w
    \<and> sig_calls w' = sig_calls w \<and> (wf_world w \<longrightarrow> wf_world w')"
proof -
  have fin: "v' = ext_call E v" if "digest_final E d o1 v = Some (x, v')" for d o1 x and v v' :: "'a world"
    using that by (auto simp: digest_final_def case_prod_beta Let_def split: if_splits)
  have free: "v' = v\<lparr>md_ctxs := md_ctxs v - {c}\<rparr>" if "md_ctx_free c v = Some v'"
    for c and v v' :: "'a world"
    using that by (auto simp: md_ctx_free_def split: if_splits)
  obtain c w1 where new: "md_ctx_new E w = (c, w1)" by fastforce
  then have w1: "structs w1 = structs w" "pkeys w1 = pkeys w" "key_ctxs w1 = key_ctxs w"
    "sig_calls w1 = sig_calls w" "wf_world w \<Longrightarrow> wf_world w1"
    by (auto simp: md_ctx_new_def Let_def wf_world_def ext_call_def split: if_splits)
  have wf: "wf_world (v\<lparr>md_ctxs := S\<rparr>)" if "wf_world v" "S \<subseteq> md_ctxs v" for S and v :: "'a world"
    using that by (auto simp: wf_world_def)
  show ?thesis
    using assms new w1 wf
    by (cases c)
      (auto simp: hash_def Let_def bind_eq_Some_conv split: if_splits dest!: fin free)
qed

subsection \<open>The machine\<close>

datatype api_op =
    ApiKey key_op
  | ApiSign "addr option option" "u64 option" "bytes option" u64 "bytes option" "addr option"
  | ApiVerify "bytes option" u64 "bytes option" u64 "bytes option" "addr option"
  | ApiErase os "addr option" "string option"
  | ApiHash bytes "bytes option" nat
  | ApiFree addr

datatype api_result =
    RDone
  | RSigned "addr option option" "u64 option"
  | RVerified bool
  | RErased bool "event list"
  | RHashed bool bytes

definition api_step ::
  "bool \<Rightarrow> 'k evp \<Rightarrow> api_op \<Rightarrow> 'k world \<Rightarrow> (api_result \<times> 'k world) option" where
  "api_step required E op w =
     (case op of
        ApiKey kop \<Rightarrow> map_option (Pair RDone) (key_step required E kop w)
      | ApiSign signature sig_len message msg_len domain sk \<Rightarrow>
          map_option (apfst (\<lambda>(s, n). RSigned s n))
            (pqc_sign E signature sig_len message msg_len domain sk w)
      | ApiVerify message msg_len signature sig_len domain pk \<Rightarrow>
          map_option (apfst RVerified) (pqc_verify E message msg_len signature sig_len domain pk w)
      | ApiErase os key wal_path \<Rightarrow>
          map_option (apfst (\<lambda>(r, evs). RErased r evs)) (higgaion_key_erase_durable os key wal_path w)
      | ApiHash out data len \<Rightarrow>
          map_option (apfst (\<lambda>(r, out). RHashed r out)) (hash E out data len w)
      | ApiFree a \<Rightarrow> map_option (Pair RDone) (free_block a w))"

fun api_run ::
  "bool \<Rightarrow> 'k evp \<Rightarrow> api_op list \<Rightarrow> 'k world \<Rightarrow> (api_result list \<times> 'k world) option" where
  "api_run required E [] w = Some ([], w)"
| "api_run required E (op # ops) w = do {
     (r, w) \<leftarrow> api_step required E op w;
     (rs, w) \<leftarrow> api_run required E ops w;
     Some (r # rs, w) }"

text \<open>
  The contract of one call: structs were initialised, buffers are as long as the lengths say,
  domains are C strings, the digest buffer has 32 bytes, and only live blocks are freed.
\<close>

fun api_ok :: "'k world \<Rightarrow> api_op \<Rightarrow> bool" where
  "api_ok w (ApiKey kop) = (op_structs kop \<subseteq> dom (structs w))"
| "api_ok w (ApiSign signature sig_len message msg_len domain sk) =
     (ds_readable message msg_len domain \<and> set_option sk \<subseteq> dom (structs w))"
| "api_ok w (ApiVerify message msg_len signature sig_len domain pk) =
     (ds_readable message msg_len domain \<and> set_option pk \<subseteq> dom (structs w)
      \<and> (case signature of None \<Rightarrow> True | Some s \<Rightarrow> unat sig_len \<le> length s))"
| "api_ok w (ApiErase os key wal_path) = (set_option key \<subseteq> dom (structs w))"
| "api_ok w (ApiHash out data len) =
     (32 \<le> length out \<and> (len = 0 \<or> (case data of None \<Rightarrow> False | Some d \<Rightarrow> len \<le> length d)))"
| "api_ok w (ApiFree a) = (heap w a \<noteq> None)"

text \<open>Calls that keep the contract as long as no earlier call went wrong.\<close>

fun api_admissible :: "bool \<Rightarrow> 'k evp \<Rightarrow> api_op list \<Rightarrow> 'k world \<Rightarrow> bool" where
  "api_admissible required E [] w = True"
| "api_admissible required E (op # ops) w =
     (api_ok w op \<and> (case api_step required E op w of
        None \<Rightarrow> True
      | Some (r, w') \<Rightarrow> api_admissible required E ops w'))"

text \<open>Calls that overwrite no held key (\<open>disciplined\<close>).\<close>

definition api_disciplined :: "bool \<Rightarrow> 'k world \<Rightarrow> api_op \<Rightarrow> bool" where
  "api_disciplined required w op =
     (case op of ApiKey kop \<Rightarrow> disciplined required w kop | _ \<Rightarrow> True)"

text \<open>The blocks a client has to free, as far as it can tell from the results.\<close>

definition client_step :: "addr set \<Rightarrow> api_op \<Rightarrow> api_result \<Rightarrow> addr set" where
  "client_step A op r =
     (case op of
        ApiFree a \<Rightarrow> A - {a}
      | _ \<Rightarrow> (case r of RSigned (Some (Some a)) n \<Rightarrow> insert a A | _ \<Rightarrow> A))"

fun client_blocks :: "addr set \<Rightarrow> api_op list \<Rightarrow> api_result list \<Rightarrow> addr set" where
  "client_blocks A (op # ops) (r # rs) = client_blocks (client_step A op r) ops rs"
| "client_blocks A ops rs = A"

definition api_wf :: "'k world \<Rightarrow> bool" where
  "api_wf w \<longleftrightarrow> key_safe w \<and> md_ctxs w = {} \<and> key_ctxs w = {}"

definition digests_fit :: "'k evp \<Rightarrow> bool" where
  "digests_fit E \<longleftrightarrow> (\<forall>c d. length (snd (sha3_final E c d)) = 32)"

subsection \<open>One call\<close>

text \<open>What every call does to the state: \<open>A\<close> are the live blocks afterwards.\<close>

definition api_post :: "'k world \<Rightarrow> 'k world \<Rightarrow> addr set \<Rightarrow> bool" where
  "api_post w w' A \<longleftrightarrow> api_wf w' \<and> dom (heap w') = A \<and> dom (structs w) \<subseteq> dom (structs w')"

lemma api_post_mem:
  "api_wf w \<Longrightarrow> mem w' = mem w \<Longrightarrow> key_safe w' \<Longrightarrow> key_ctxs w' = key_ctxs w \<Longrightarrow>
     dom (structs w) \<subseteq> dom (structs w') \<Longrightarrow> api_post w w' (dom (heap w))"
  by (simp add: api_post_def api_wf_def mem_def)

lemma api_post_effect:
  "api_wf w \<Longrightarrow> effect w w' h fs (md_ctxs w) \<Longrightarrow> api_post w w' (dom h) \<and> slack w' = slack w"
  using effect_key_safe [of w w' h fs] by (simp add: api_post_def api_wf_def effect_def)

lemma api_key_post:
  assumes "api_wf w" "op_structs kop \<subseteq> dom (structs w)"
  shows "\<exists>w'. key_step required E kop w = Some w' \<and> api_post w w' (dom (heap w))
    \<and> (disciplined required w kop \<longrightarrow> slack w' = slack w)"
proof -
  obtain w' where w': "key_step required E kop w = Some w'" "key_safe w'" "key_ctxs w' = key_ctxs w"
    "dom (structs w) \<subseteq> dom (structs w')" "disciplined required w kop \<longrightarrow> slack w' = slack w"
    using key_step_safe [OF _ assms(2)] assms(1) unfolding api_wf_def by blast
  with key_step_frame [OF w'(1)] api_post_mem [OF assms(1)] show ?thesis by blast
qed

lemma api_sign_post:
  assumes "api_wf w" "sign_fits E" "ds_readable message msg_len domain"
    and "set_option sk \<subseteq> dom (structs w)"
  shows "\<exists>s n w'. pqc_sign E signature sig_len message msg_len domain sk w = Some ((s, n), w')
    \<and> api_post w w' (case s of Some (Some a) \<Rightarrow> insert a (dom (heap w)) | _ \<Rightarrow> dom (heap w))
    \<and> slack w' = slack w"
proof (cases "signature = None \<or> sig_len = None \<or> held w sk = None")
  case True
  have "\<exists>w'. pqc_sign E signature sig_len message msg_len domain sk w =
      Some ((map_option (\<lambda>_. None) signature, map_option (\<lambda>_. 0) sig_len), w')
    \<and> mem w' = mem w \<and> pkeys w' = pkeys w \<and> structs w' = structs w \<and> key_ctxs w' = key_ctxs w
    \<and> wf_world w' = wf_world w"
    using True assms(4)
    by (cases signature; cases sig_len; cases sk)
      (auto simp: pqc_sign_def get_pkey_def Let_def held_def)
  then obtain w' where w': "pqc_sign E signature sig_len message msg_len domain sk w =
      Some ((map_option (\<lambda>_. None) signature, map_option (\<lambda>_. 0) sig_len), w')"
    "mem w' = mem w" "same_keys w w'" "key_ctxs w' = key_ctxs w" "wf_world w'"
    using assms(1) by (auto simp: same_keys_def api_wf_def key_safe_def)
  have "key_safe w'" using same_keys_safe [OF w'(3,5)] assms(1) by (simp add: api_wf_def)
  then have "api_post w w' (dom (heap w))"
    using w' by (intro api_post_mem [OF assms(1)]) (simp_all add: same_keys_def)
  with w'(1) same_keys_slack [OF w'(3)] show ?thesis by (cases signature) auto
next
  case False
  then obtain s0 l0 a obj where args: "signature = Some s0" "sig_len = Some l0" "sk = Some a"
    "structs w a = Some (Some obj)"
    by (auto simp: held_def split: option.splits)
  have safe: "key_safe w" using assms(1) by (simp add: api_wf_def)
  obtain k cnt where k: "pkeys w obj = Some (k, cnt)" using key_safe_held [OF safe args(4)] by blast
  let ?res = "if ds_accepts message msg_len domain
    then sign_result E (clock w) k (ds_encode (domain_bytes domain) (message_bytes message msg_len))
      (ds_length domain msg_len) else (None, 0)"
  obtain w' r len fs where w': "pqc_sign E signature sig_len message msg_len domain sk w =
      Some ((Some r, Some len), w')"
    "case fst ?res of
         None \<Rightarrow> r = None \<and> effect w w' (heap w) fs (md_ctxs w)
       | Some bs \<Rightarrow> \<exists>sg. r = Some sg \<and> heap w sg = None
           \<and> effect w w' ((heap w)(sg \<mapsto> bs)) fs (md_ctxs w)"
    using pqc_sign_effect [OF safe assms(2,3) args(4) k, of s0 l0] unfolding args(1-3) by blast
  show ?thesis
  proof (cases "fst ?res")
    case None
    with w' api_post_effect [OF assms(1)] show ?thesis by fastforce
  next
    case (Some bs)
    with w'(2) obtain sg where sg: "r = Some sg" "effect w w' ((heap w)(sg \<mapsto> bs)) fs (md_ctxs w)"
      unfolding Some by auto
    have "api_post w w' (insert sg (dom (heap w))) \<and> slack w' = slack w"
      using api_post_effect [OF assms(1) sg(2)] by simp
    with w'(1) sg(1) show ?thesis by auto
  qed
qed

lemma api_verify_post:
  assumes "api_wf w" "ds_readable message msg_len domain" "set_option pk \<subseteq> dom (structs w)"
    and "case signature of None \<Rightarrow> True | Some s \<Rightarrow> unat sig_len \<le> length s"
  shows "\<exists>r w'. pqc_verify E message msg_len signature sig_len domain pk w = Some (r, w')
    \<and> api_post w w' (dom (heap w)) \<and> slack w' = slack w"
proof (cases "held w pk = None \<or> signature = None \<or> sig_len = 0")
  case True
  with assms(3) have "pqc_verify E message msg_len signature sig_len domain pk w = Some (False, w)"
    by (cases pk) (auto simp: pqc_verify_def get_pkey_def held_def split: option.splits)
  with assms(1) show ?thesis by (simp add: api_post_def ex_bool_eq)
next
  case False
  then obtain a obj s where args: "pk = Some a" "structs w a = Some (Some obj)" "signature = Some s"
    "sig_len \<noteq> 0" "unat sig_len \<le> length s"
    using assms(4) by (auto simp: held_def split: option.splits)
  have safe: "key_safe w" using assms(1) by (simp add: api_wf_def)
  obtain k cnt where k: "pkeys w obj = Some (k, cnt)" using key_safe_held [OF safe args(2)] by blast
  obtain r w' fs where w': "pqc_verify E message msg_len signature sig_len domain pk w = Some (r, w')"
    "effect w w' (heap w) fs (md_ctxs w)"
    using pqc_verify_effect [OF safe assms(2) args(2) k args(5,4), of E] unfolding args(1,3) by blast
  with api_post_effect [OF assms(1) w'(2)] show ?thesis by blast
qed

lemma api_hash_post:
  assumes "api_wf w" "digests_fit E" "api_ok w (ApiHash out data len)"
  shows "\<exists>r out' w'. hash E out data len w = Some ((r, out'), w')
    \<and> api_post w w' (dom (heap w)) \<and> slack w' = slack w"
proof -
  have data: "len = 0 \<or> (\<exists>d. data = Some d \<and> len \<le> length d)"
    using assms(3) by (cases data) auto
  have wf: "wf_world w" using assms(1) by (simp add: api_wf_def key_safe_def)
  obtain r out' w' where w': "hash E out data len w = Some ((r, out'), w')"
    "md_ctxs w' = md_ctxs w" "heap w' = heap w"
    using hash_all_or_zero [OF wf _ data, of out E] assms(2,3) unfolding digests_fit_def by auto
  note f = hash_frame [OF w'(1)]
  have "key_safe w'" "slack w' = slack w"
    using same_keys_safe [of w w'] same_keys_slack [of w w'] f wf assms(1)
    by (simp_all add: same_keys_def api_wf_def)
  moreover from this have "api_post w w' (dom (heap w))"
    using w'(2,3) f assms(1) by (simp add: api_post_def api_wf_def)
  ultimately show ?thesis using w'(1) by blast
qed

lemma api_free_post:
  assumes "api_wf w" "heap w a \<noteq> None"
  shows "\<exists>w'. free_block a w = Some w' \<and> api_post w w' (dom (heap w) - {a})
    \<and> slack w' = slack w \<and> structs w' = structs w"
proof -
  obtain bs where bs: "heap w a = Some bs" using assms(2) by blast
  let ?w = "w\<lparr>heap := (heap w)(a := None), freed := bs # freed w\<rparr>"
  have same: "same_keys w ?w" by (simp add: same_keys_def)
  moreover have "wf_world ?w" using assms(1) by (auto simp: api_wf_def key_safe_def wf_world_def)
  ultimately have "key_safe ?w" using assms(1) by (auto simp: api_wf_def intro: same_keys_safe)
  then have "api_post w ?w (dom (heap w) - {a})" using assms(1) by (auto simp: api_post_def api_wf_def)
  with bs same_keys_slack [OF same] show ?thesis by (simp add: free_block_def)
qed

text \<open>Progress and preservation of one call.\<close>

lemma api_step_post:
  assumes "api_wf w" "sign_fits E" "digests_fit E" "api_ok w op"
  shows "\<exists>r w'. api_step required E op w = Some (r, w')
    \<and> api_post w w' (client_step (dom (heap w)) op r)
    \<and> (api_disciplined required w op \<longrightarrow> slack w' = slack w)"
proof (cases op)
  case (ApiKey kop)
  with api_key_post [OF assms(1), of kop required E] assms(4) show ?thesis
    by (auto simp: api_step_def client_step_def api_disciplined_def)
next
  case (ApiSign signature sig_len message msg_len domain sk)
  with assms(4) obtain s n w' where w': "pqc_sign E signature sig_len message msg_len domain sk w =
      Some ((s, n), w')"
    "api_post w w' (case s of Some (Some a) \<Rightarrow> insert a (dom (heap w)) | _ \<Rightarrow> dom (heap w))"
    "slack w' = slack w"
    using api_sign_post [OF assms(1,2), of message msg_len domain sk signature sig_len] by auto
  have "client_step (dom (heap w)) op (RSigned s n) =
      (case s of Some (Some a) \<Rightarrow> insert a (dom (heap w)) | _ \<Rightarrow> dom (heap w))"
    unfolding ApiSign by (auto simp: client_step_def split: option.split)
  with w' ApiSign show ?thesis by (simp add: api_step_def)
next
  case (ApiVerify message msg_len signature sig_len domain pk)
  with assms(4) api_verify_post [OF assms(1), of message msg_len domain pk sig_len signature E]
  show ?thesis by (auto simp: api_step_def client_step_def api_disciplined_def)
next
  case (ApiErase os key wal_path)
  with assms(1,4) erase_progress [of w key os wal_path] show ?thesis
    by (fastforce simp: api_step_def client_step_def api_disciplined_def api_wf_def intro!: api_post_mem)
next
  case (ApiHash out data len)
  with assms(4) api_hash_post [OF assms(1,3), of out data len] show ?thesis
    by (auto simp: api_step_def client_step_def api_disciplined_def)
next
  case (ApiFree a)
  with assms(4) api_free_post [OF assms(1), of a] show ?thesis
    by (auto simp: api_step_def client_step_def api_disciplined_def)
qed

subsection \<open>Sessions\<close>

fun api_disciplined_run :: "bool \<Rightarrow> 'k evp \<Rightarrow> api_op list \<Rightarrow> 'k world \<Rightarrow> bool" where
  "api_disciplined_run required E [] w = True"
| "api_disciplined_run required E (op # ops) w =
     (api_disciplined required w op \<and> (case api_step required E op w of
        None \<Rightarrow> True
      | Some (r, w') \<Rightarrow> api_disciplined_run required E ops w'))"

lemma api_run_post:
  assumes "api_wf w" "sign_fits E" "digests_fit E" "api_admissible required E ops w"
  shows "\<exists>rs w'. api_run required E ops w = Some (rs, w') \<and> length rs = length ops
    \<and> api_post w w' (client_blocks (dom (heap w)) ops rs)
    \<and> (api_disciplined_run required E ops w \<longrightarrow> slack w' = slack w)"
  using assms(1,4)
proof (induction ops arbitrary: w)
  case Nil
  then show ?case by (simp add: api_post_def)
next
  case (Cons op ops)
  from Cons.prems(2) have ok: "api_ok w op" by simp
  obtain r w1 where w1: "api_step required E op w = Some (r, w1)"
    "api_post w w1 (client_step (dom (heap w)) op r)"
    "api_disciplined required w op \<longrightarrow> slack w1 = slack w"
    using api_step_post [OF Cons.prems(1) assms(2,3) ok, of required] by blast
  then have wf: "api_wf w1" "dom (heap w1) = client_step (dom (heap w)) op r"
    "dom (structs w) \<subseteq> dom (structs w1)"
    by (simp_all add: api_post_def)
  have "api_admissible required E ops w1" using Cons.prems(2) w1(1) by simp
  from Cons.IH [OF wf(1) this] obtain rs w' where w': "api_run required E ops w1 = Some (rs, w')"
    "length rs = length ops" "api_post w1 w' (client_blocks (dom (heap w1)) ops rs)"
    "api_disciplined_run required E ops w1 \<longrightarrow> slack w' = slack w1" by blast
  have "api_post w w' (client_blocks (dom (heap w)) (op # ops) (r # rs))"
    using w'(3) wf(2) order_trans [OF wf(3)] by (simp add: api_post_def)
  with w1(1,3) w' show ?case by simp
qed

lemma api_run_append:
  "api_run required E (ops @ ops') w = do {
     (rs, w) \<leftarrow> api_run required E ops w;
     (rs', w) \<leftarrow> api_run required E ops' w;
     Some (rs @ rs', w) }"
proof (induction ops arbitrary: w)
  case Nil
  show ?case by (cases "api_run required E ops' w") auto
next
  case (Cons op ops)
  then show ?case by (cases "api_step required E op w") (auto simp: bind_assoc case_prod_beta)
qed

text \<open>Giving everything back: \<open>higgaion_key_free\<close> on every struct, \<open>free\<close> on every block.\<close>

lemma api_free_keys:
  assumes "api_wf w" "set as \<subseteq> dom (structs w)"
  shows "\<exists>rs w'. api_run required E (map (\<lambda>a. ApiKey (KFree (Some a))) as) w = Some (rs, w')
    \<and> api_wf w' \<and> heap w' = heap w \<and> slack w' = slack w
    \<and> structs w' = (\<lambda>a. if a \<in> set as then Some None else structs w a)"
  using assms
proof (induction as arbitrary: w)
  case Nil
  then show ?case by simp
next
  case (Cons a as)
  have op: "op_structs (KFree (Some a)) \<subseteq> dom (structs w)" using Cons.prems(2) by simp
  obtain w1 where w1: "key_step required E (KFree (Some a)) w = Some w1"
    "api_post w w1 (dom (heap w))" "slack w1 = slack w"
    using api_key_post [OF Cons.prems(1) op, of required E] by auto
  have s1: "structs w1 = (structs w)(a \<mapsto> None)" and h1: "heap w1 = heap w"
    using key_free_safe [of w "Some a"] live_struct_dom [of "Some a" w] Cons.prems w1(1)
      key_step_frame [OF w1(1)]
    by (auto simp: api_wf_def key_step_def mem_def)
  have wf1: "api_wf w1" "set as \<subseteq> dom (structs w1)"
    using w1(2) Cons.prems(2) s1 by (auto simp: api_post_def)
  from Cons.IH [OF this] obtain rs w' where
    "api_run required E (map (\<lambda>a. ApiKey (KFree (Some a))) as) w1 = Some (rs, w')"
    "api_wf w'" "heap w' = heap w1" "slack w' = slack w1"
    "structs w' = (\<lambda>a. if a \<in> set as then Some None else structs w1 a)" by blast
  with w1(1,3) s1 h1 show ?case by (auto simp: api_step_def fun_eq_iff)
qed

lemma api_free_blocks:
  assumes "api_wf w" "distinct bs" "set bs \<subseteq> dom (heap w)"
  shows "\<exists>rs w'. api_run required E (map ApiFree bs) w = Some (rs, w') \<and> api_wf w'
    \<and> dom (heap w') = dom (heap w) - set bs \<and> slack w' = slack w \<and> structs w' = structs w"
  using assms
proof (induction bs arbitrary: w)
  case Nil
  then show ?case by simp
next
  case (Cons b bs)
  have "heap w b \<noteq> None" using Cons.prems(3) by auto
  from api_free_post [OF Cons.prems(1) this] obtain w1 where w1: "free_block b w = Some w1"
    "api_wf w1" "dom (heap w1) = dom (heap w) - {b}" "slack w1 = slack w" "structs w1 = structs w"
    by (auto simp: api_post_def)
  have "distinct bs" "set bs \<subseteq> dom (heap w1)" using Cons.prems(2,3) w1(3) by auto
  from Cons.IH [OF w1(2) this] obtain rs w' where "api_run required E (map ApiFree bs) w1 = Some (rs, w')"
    "api_wf w'" "dom (heap w') = dom (heap w1) - set bs" "slack w' = slack w1"
    "structs w' = structs w1" by blast
  with w1 show ?case by (auto simp: api_step_def)
qed

subsection \<open>Properties\<close>

text \<open>
  C4. Type safety of the interface: a client that keeps the header's contract (structs
  initialised, buffers as long as their lengths, only live blocks freed) can call the eight
  operations in any order, with aliased structs and under every failure of the library, and
  no call runs into undefined behaviour; the ownership invariant holds at the end, no context is left,
  and the live heap blocks are exactly those the returned pointers and the calls of \<open>free\<close> account for.
\<close>

theorem api_sessions_safe:
  assumes "sign_fits E" "digests_fit E"
    and "api_wf w" "api_admissible required E ops w"
  shows "\<exists>rs w'. api_run required E ops w = Some (rs, w') \<and> api_wf w'
    \<and> dom (heap w') = client_blocks (dom (heap w)) ops rs"
  using api_run_post [OF assms(3,1,2,4)] by (auto simp: api_post_def)

definition demo_session :: "api_op list" where
  "demo_session =
     [ApiKey (KInit (Some 11)), ApiKey (KUpRef (Some 11) (Some 10)),
      ApiSign (Some None) (Some 0) (Some abc) 3 (Some domain_A) (Some 10),
      ApiVerify (Some abc) 3 (Some [1, 2]) 2 (Some domain_A) (Some 11),
      ApiErase calm_os (Some 10) (Some ''/w/k''),
      ApiHash (replicate 32 0) (Some abc) 3]"

lemma ideal_digests_fit: "digests_fit ideal_evp"
  by (simp add: digests_fit_def)

text \<open>A session without \<open>free\<close> is admissible when each call is within the contract at the start.\<close>

lemma api_ok_mono:
  assumes "api_ok w op" "dom (structs w) \<subseteq> dom (structs w')" "\<forall>a. op \<noteq> ApiFree a"
  shows "api_ok w' op"
proof -
  have "S \<subseteq> dom (structs w')" if "S \<subseteq> dom (structs w)" for S
    using that assms(2) by (rule order_trans)
  with assms(1,3) show ?thesis by (cases op) (simp_all del: subset_iff)
qed

lemma api_static_admissible:
  assumes "sign_fits E" "digests_fit E"
    and "api_wf w" "\<forall>op \<in> set ops. api_ok w op \<and> (\<forall>a. op \<noteq> ApiFree a)"
  shows "api_admissible required E ops w"
  using assms(3,4)
proof (induction ops arbitrary: w)
  case Nil
  then show ?case by simp
next
  case (Cons op ops)
  have ok: "api_ok w op" using Cons.prems(2) by simp
  obtain r w1 where w1: "api_step required E op w = Some (r, w1)"
    "api_post w w1 (client_step (dom (heap w)) op r)"
    using api_step_post [OF Cons.prems(1) assms(1,2) ok] by blast
  then have "\<forall>op \<in> set ops. api_ok w1 op \<and> (\<forall>a. op \<noteq> ApiFree a)"
    using Cons.prems(2) api_ok_mono [of w _ w1] unfolding api_post_def by auto
  moreover have "api_wf w1" using w1(2) by (simp add: api_post_def)
  ultimately have "api_admissible required E ops w1" by (rule Cons.IH [rotated])
  with ok w1(1) show ?case by simp
qed

lemma signing_world_wf: "api_wf signing_world"
  using signing_world_safe by (simp add: api_wf_def)

lemma demo_admissible: "api_admissible True ideal_evp demo_session signing_world"
  by (rule api_static_admissible [OF ideal_sign_fits ideal_digests_fit signing_world_wf])
    (simp add: demo_session_def abc_inputs length_abc)

lemma api_sessions_safe_witness:
  "\<exists>rs w'. api_run True ideal_evp demo_session signing_world = Some (rs, w') \<and> key_safe w'
    \<and> dom (heap w') = client_blocks {} demo_session rs"
  using api_sessions_safe [OF ideal_sign_fits ideal_digests_fit signing_world_wf demo_admissible]
  unfolding api_wf_def by auto

text \<open>
  C5. Nothing is left behind: after any session that overwrites no held key, a client that
  calls \<open>higgaion_key_free\<close> on every struct and \<open>free\<close> on every signature it was given (which
  the results tell it) returns the library to an empty state: no heap block, no key
  object, no digest context and no key context survives, whatever failed on the way.
\<close>

theorem api_sessions_leave_nothing:
  assumes "sign_fits E" "digests_fit E" "api_wf w" "leak_free w"
    and "api_admissible required E ops w" "api_disciplined_run required E ops w"
    and "api_run required E ops w = Some (rs, w1)" "set as = dom (structs w1)"
    and "distinct bs" "set bs = client_blocks (dom (heap w)) ops rs"
  shows "\<exists>rs' w'. api_run required E
        (ops @ map (\<lambda>a. ApiKey (KFree (Some a))) as @ map ApiFree bs) w = Some (rs', w')
    \<and> heap w' = Map.empty \<and> pkeys w' = Map.empty \<and> md_ctxs w' = {} \<and> key_ctxs w' = {}"
proof -
  have w1: "api_wf w1" "dom (heap w1) = set bs" "slack w1 = slack w"
    using api_run_post [OF assms(3,1,2,5)] assms(6,7,10) by (auto simp: api_post_def)
  obtain rs2 w2 where w2: "api_run required E (map (\<lambda>a. ApiKey (KFree (Some a))) as) w1 = Some (rs2, w2)"
    "api_wf w2" "heap w2 = heap w1" "slack w2 = slack w1"
    "structs w2 = (\<lambda>a. if a \<in> set as then Some None else structs w1 a)"
    using api_free_keys [OF w1(1), of as required E] assms(8) by auto
  obtain rs3 w3 where w3: "api_run required E (map ApiFree bs) w2 = Some (rs3, w3)" "api_wf w3"
    "dom (heap w3) = {}" "slack w3 = slack w2" "structs w3 = structs w2"
    using api_free_blocks [OF w2(2) assms(9), of required E] w2(3) w1(2) by auto
  have "key_safe w3" "leak_free w3" "\<forall>a. structs w3 a = None \<or> structs w3 a = Some None"
    using w3 w2 w1(3) assms(4,8) by (auto simp: api_wf_def leak_free_def)
  then have "pkeys w3 = Map.empty" by (rule no_owner_no_object)
  with assms(7) w2(1) w3(1-3) show ?thesis by (simp add: api_run_append api_wf_def)
qed

lemma demo_disciplined: "api_disciplined_run True ideal_evp (take 3 demo_session) signing_world"
  by (simp add: demo_session_def api_disciplined_def held_def api_step_def key_step_def
      higgaion_key_init_def higgaion_key_up_ref_def get_pkey_def pkey_up_ref_def set_pkey_def
      split: option.split)

lemma api_sessions_leave_nothing_witness:
  "\<exists>as bs rs' w'. api_run True ideal_evp
        (take 3 demo_session @ map (\<lambda>a. ApiKey (KFree (Some a))) as @ map ApiFree bs) signing_world =
      Some (rs', w')
    \<and> heap w' = Map.empty \<and> pkeys w' = Map.empty"
proof -
  have adm: "api_admissible True ideal_evp (take 3 demo_session) signing_world"
    by (rule api_static_admissible [OF ideal_sign_fits ideal_digests_fit signing_world_wf])
      (simp add: demo_session_def abc_inputs)
  obtain rs w1 where w1: "api_run True ideal_evp (take 3 demo_session) signing_world = Some (rs, w1)"
    "api_wf w1" "dom (heap w1) = client_blocks (dom (heap signing_world)) (take 3 demo_session) rs"
    using api_run_post [OF signing_world_wf ideal_sign_fits ideal_digests_fit adm]
    by (auto simp: api_post_def)
  have wf: "wf_world w1" and fin: "finite (dom (structs w1))"
    using w1(2) by (simp_all add: api_wf_def key_safe_def)
  have "dom (heap w1) \<subseteq> {..<brk w1}"
  proof
    fix a assume "a \<in> dom (heap w1)"
    then have "\<not> brk w1 \<le> a" using wf by (auto simp: wf_world_def)
    then show "a \<in> {..<brk w1}" by simp
  qed
  then have "finite (dom (heap w1))" by (meson finite_lessThan finite_subset)
  from finite_distinct_list [OF this]
  obtain bs where bs: "set bs = dom (heap w1)" "distinct bs" by (elim exE conjE)
  obtain as where as: "set as = dom (structs w1)" using finite_list [OF fin] by (elim exE)
  have "leak_free signing_world"
    using one_key_safe same_keys_slack [of one_key signing_world]
    by (simp add: leak_free_def same_keys_def signing_world_def)
  from api_sessions_leave_nothing [OF ideal_sign_fits ideal_digests_fit signing_world_wf this adm
      demo_disciplined w1(1) as bs(2)] bs(1) w1(3) show ?thesis by blast
qed

subsection \<open>Authenticity of a session\<close>

text \<open>
  The (domain, message) pairs for which a session made a signature with the key material \<open>k\<close>,
  whichever struct held it: the calls of \<open>pqc_sign\<close> that gave the caller a signature.
\<close>

definition holds_key :: "'k world \<Rightarrow> 'k \<Rightarrow> addr option \<Rightarrow> bool" where
  "holds_key w k sk \<longleftrightarrow>
     (case held w sk of None \<Rightarrow> False | Some obj \<Rightarrow> pkey_material obj w = Some k)"

definition made_pairs :: "'k world \<Rightarrow> 'k \<Rightarrow> api_op \<Rightarrow> api_result \<Rightarrow> (bytes \<times> bytes) set" where
  "made_pairs w k op r =
     (case (op, r) of
        (ApiSign signature sig_len message msg_len domain sk, RSigned (Some (Some sg)) n) \<Rightarrow>
          if holds_key w k sk then {(domain_bytes domain, message_bytes message msg_len)} else {}
      | _ \<Rightarrow> {})"

fun signed_pairs :: "bool \<Rightarrow> 'k evp \<Rightarrow> 'k \<Rightarrow> api_op list \<Rightarrow> 'k world \<Rightarrow> (bytes \<times> bytes) set" where
  "signed_pairs required E k [] w = {}"
| "signed_pairs required E k (op # ops) w =
     (case api_step required E op w of
        None \<Rightarrow> {}
      | Some (r, w') \<Rightarrow> made_pairs w k op r \<union> signed_pairs required E k ops w')"

text \<open>The strings that \<open>k\<close> signs in a call are the encodings of the pairs the call made.\<close>

definition encodes_some :: "(bytes \<times> bytes) set \<Rightarrow> bytes \<Rightarrow> bool" where
  "encodes_some P msg \<longleftrightarrow>
     (\<exists>(d, m) \<in> P. length d < 2 ^ 32 \<and> length m < 2 ^ 64 \<and> msg = ds_encode d m)"

lemma encodes_some_mono: "encodes_some P msg \<Longrightarrow> P \<subseteq> Q \<Longrightarrow> encodes_some Q msg"
  by (auto simp: encodes_some_def)

lemma encodes_some_pair:
  assumes "encodes_some P (pair_encoding domain message msg_len)"
    and "ds_accepts message msg_len domain" "ds_readable message msg_len domain"
  shows "(domain_bytes domain, message_bytes message msg_len) \<in> P"
proof -
  obtain d m where dm: "(d, m) \<in> P" "length d < 2 ^ 32" "length m < 2 ^ 64"
    "pair_encoding domain message msg_len = ds_encode d m"
    using assms(1) by (auto simp: encodes_some_def)
  then have "(d, m) = (domain_bytes domain, message_bytes message msg_len)"
    using ds.put_prefix_free [of "(d, m)" "(domain_bytes domain, message_bytes message msg_len)"
        "[]" "[]"] ds_accepts_small [OF assms(2,3)]
    by (simp add: pair_encoding_def)
  with dm(1) show ?thesis by simp
qed

lemma api_step_calls:
  assumes "api_wf w" "api_ok w op" "api_step required E op w = Some (r, w')"
  shows "\<exists>cs. sig_calls w' = sig_calls w @ cs
    \<and> (\<forall>msg \<in> signed_strings k cs. encodes_some (made_pairs w k op r) msg)"
proof (cases op)
  case (ApiKey kop)
  with assms(3) key_step_frame [of required E kop w] show ?thesis
    by (auto simp: api_step_def mem_def intro!: exI [of _ "[]"])
next
  case (ApiSign signature sig_len message msg_len domain sk)
  have safe: "key_safe w" and rd: "ds_readable message msg_len domain"
    using assms(1,2) ApiSign by (simp_all add: api_wf_def)
  obtain s n where s: "pqc_sign E signature sig_len message msg_len domain sk w = Some ((s, n), w')"
    "r = RSigned s n"
    using assms(3) ApiSign by (auto simp: api_step_def)
  from pqc_sign_calls [OF safe rd s(1)] show ?thesis
  proof (elim disjE exE conjE)
    fix obj k' rc
    assume held: "held w sk = Some obj" "pkey_material obj w = Some k'"
      and acc: "ds_accepts message msg_len domain"
      and calls: "sig_calls w' = sig_calls w @ [DigestSign k' (pair_encoding domain message msg_len) rc]"
      and made: "rc > 0 \<longleftrightarrow> (\<exists>sg. s = Some (Some sg))"
    have "encodes_some (made_pairs w k op r) (pair_encoding domain message msg_len)"
      if "k' = k" "rc > 0"
      using that held made s(2) ds_accepts_small [OF acc rd] unfolding ApiSign
      by (auto simp: encodes_some_def made_pairs_def holds_key_def pair_encoding_def)
    with calls show ?thesis
      by (intro exI [of _ "[DigestSign k' (pair_encoding domain message msg_len) rc]"])
        (simp split: if_splits)
  qed (auto intro!: exI [of _ "[]"])
next
  case (ApiVerify message msg_len signature sig_len domain pk)
  have safe: "key_safe w" and rd: "ds_readable message msg_len domain"
    using assms(1,2) ApiVerify by (simp_all add: api_wf_def)
  obtain b where "pqc_verify E message msg_len signature sig_len domain pk w = Some (b, w')"
    using assms(3) ApiVerify by (auto simp: api_step_def)
  from pqc_verify_calls [OF safe rd this] show ?thesis by (auto simp: signed_strings_def)
next
  case (ApiErase os key wal_path)
  have "key_safe w" "set_option key \<subseteq> dom (structs w)"
    using assms(1,2) ApiErase by (simp_all add: api_wf_def)
  from erase_progress [OF this, of os wal_path] assms(3) ApiErase show ?thesis
    by (auto simp: api_step_def mem_def intro!: exI [of _ "[]"])
next
  case (ApiHash out data len)
  with assms(3) show ?thesis
    by (auto simp: api_step_def dest!: hash_frame intro!: exI [of _ "[]"])
next
  case (ApiFree a)
  with assms(3) show ?thesis
    by (auto simp: api_step_def dest!: free_block_quiet intro!: exI [of _ "[]"])
qed

lemma api_run_calls:
  assumes "api_wf w" "sign_fits E" "digests_fit E" "api_admissible required E ops w"
    and "api_run required E ops w = Some (rs, w')"
  shows "\<exists>cs. sig_calls w' = sig_calls w @ cs
    \<and> (\<forall>msg \<in> signed_strings k cs. encodes_some (signed_pairs required E k ops w) msg)"
  using assms(1,4,5)
proof (induction ops arbitrary: w rs)
  case Nil
  then show ?case by simp
next
  case (Cons op ops)
  have ok: "api_ok w op" using Cons.prems(2) by simp
  obtain r w1 rs' where step: "api_step required E op w = Some (r, w1)"
    "api_run required E ops w1 = Some (rs', w')"
    using Cons.prems(3) by (auto simp: bind_eq_Some_conv)
  have "api_wf w1"
    using api_step_post [OF Cons.prems(1) assms(2,3) ok, of required] step(1) by (auto simp: api_post_def)
  moreover have "api_admissible required E ops w1" using Cons.prems(2) step(1) by simp
  ultimately obtain cs' where cs': "sig_calls w' = sig_calls w1 @ cs'"
    "\<forall>msg \<in> signed_strings k cs'. encodes_some (signed_pairs required E k ops w1) msg"
    using Cons.IH step(2) by blast
  obtain cs where cs: "sig_calls w1 = sig_calls w @ cs"
    "\<forall>msg \<in> signed_strings k cs. encodes_some (made_pairs w k op r) msg"
    using api_step_calls [OF Cons.prems(1) ok step(1)] by blast
  have "signed_pairs required E k (op # ops) w =
      made_pairs w k op r \<union> signed_pairs required E k ops w1" using step(1) by simp
  with cs cs' show ?case
    by (intro exI [of _ "cs @ cs'"]) (auto intro: encodes_some_mono)
qed

lemma api_admissible_append:
  "api_admissible required E (ops @ ops') w \<Longrightarrow> api_run required E ops w = Some (rs, w1) \<Longrightarrow>
     api_admissible required E ops w \<and> api_admissible required E ops' w1"
  by (induction ops arbitrary: w rs) (auto simp: bind_eq_Some_conv)

text \<open>
  C1. Authenticity: take any session that ends with a verification, through a struct holding
  the key material \<open>k\<close>, that answers true, and in which nobody forged a signature of \<open>k\<close>: no
  call of \<open>EVP_DigestVerify\<close> accepted a byte string that \<open>EVP_DigestSign\<close> had not signed with \<open>k\<close> before
  (\<open>unforged\<close>, the outcome of the chosen-message game on the byte strings the code passed). Then an
  earlier \<open>pqc_sign\<close> of the session gave its caller a signature made with \<open>k\<close> for exactly the
  verified domain and message, whatever bytes are presented as signature now, through
  whichever structs and whatever failed in between.
\<close>

theorem session_verifies_only_signed:
  assumes "sign_fits E" "digests_fit E" "api_wf w" "sig_calls w = []"
    and "api_admissible required E
      (ops @ [ApiVerify message msg_len signature sig_len domain pk]) w"
    and "api_run required E ops w = Some (rs, w1)" "holds_key w1 k pk"
    and "api_step required E (ApiVerify message msg_len signature sig_len domain pk) w1 =
      Some (RVerified True, w')"
    and "unforged k {} (sig_calls w')"
  shows "(domain_bytes domain, message_bytes message msg_len) \<in> signed_pairs required E k ops w"
proof -
  let ?op = "ApiVerify message msg_len signature sig_len domain pk"
  have adm: "api_admissible required E ops w" "api_admissible required E [?op] w1"
    using api_admissible_append [OF assms(5,6)] by simp_all
  have safe: "key_safe w1"
    using api_run_post [OF assms(3,1,2) adm(1)] assms(6) by (auto simp: api_post_def api_wf_def)
  have rd: "ds_readable message msg_len domain" using adm(2) by simp
  obtain cs where cs: "sig_calls w1 = cs"
    "\<forall>msg \<in> signed_strings k cs. encodes_some (signed_pairs required E k ops w) msg"
    using api_run_calls [OF assms(3,1,2) adm(1) assms(6), of k] assms(4) by auto
  have v: "pqc_verify E message msg_len signature sig_len domain pk w1 = Some (True, w')"
    using assms(8) by (auto simp: api_step_def)
  obtain s where s: "ds_accepts message msg_len domain"
    "sig_calls w' = cs @ [DigestVerify k s (pair_encoding domain message msg_len) 1]"
    using pqc_verify_calls [OF safe rd v] assms(7) cs(1) by (auto simp: holds_key_def)
  have "pair_encoding domain message msg_len \<in> signed_strings k cs"
    using unforged_last [of k "{}" cs] assms(9) s(2) by simp
  with cs(2) show ?thesis by (blast intro: encodes_some_pair [OF _ s(1) rd])
qed

text \<open>
  On \<open>ideal_evp\<close>, whose keys have a valid signature for every string: the signature that
  the session was given is accepted, and the run is unforged.
\<close>

lemma signing_world_calls: "sig_calls signing_world = []"
  by (simp add: signing_world_def one_key_def two_structs_def empty_world_def)

lemma session_verifies_only_signed_witness:
  "\<exists>rs w1 w'. api_run True ideal_evp
      [ApiSign (Some None) (Some 0) (Some abc) 3 (Some domain_A) (Some 10)] signing_world = Some (rs, w1)
    \<and> api_step True ideal_evp
        (ApiVerify (Some abc) 3 (Some (7 # ds_encode [65] abc)) 31 (Some domain_A) (Some 10)) w1 =
      Some (RVerified True, w') \<and> unforged 7 {} (sig_calls w')
    \<and> ([65], abc) \<in> signed_pairs True ideal_evp 7
        [ApiSign (Some None) (Some 0) (Some abc) 3 (Some domain_A) (Some 10)] signing_world"
proof -
  let ?E = ideal_evp
  let ?sign = "ApiSign (Some None) (Some 0) (Some abc) 3 (Some domain_A) (Some 10)"
  let ?sig = "7 # ds_encode [65] abc"
  let ?verify = "ApiVerify (Some abc) 3 (Some ?sig) 31 (Some domain_A) (Some 10)"
  have adm: "api_admissible True ?E ([?sign] @ [?verify]) signing_world"
    by (rule api_static_admissible [OF ideal_sign_fits ideal_digests_fit signing_world_wf])
      (simp add: abc_inputs abc_length)
  have res: "sign_result ?E 0 7 (ds_encode [65] abc) 30 = (Some ?sig, 31)"
    by (simp add: sign_result_def sign_context_result_def abc_length put_slice_def)
  obtain sg w1 where w1: "pqc_sign ?E (Some None) (Some 0) (Some abc) 3 (Some domain_A)
      (Some 10) signing_world = Some ((Some (Some sg), Some 31), w1)"
    "structs w1 = structs signing_world" "pkeys w1 = pkeys signing_world" "key_safe w1"
    using pqc_sign_effect [OF signing_world_safe ideal_sign_fits abc_inputs(1), of 10 1 7 1 None 0] res
      effect_key_safe [OF _ signing_world_safe]
    by (auto simp: effect_def abc_inputs)
  have run: "api_run True ?E [?sign] signing_world = Some ([RSigned (Some (Some sg)) (Some 31)], w1)"
    using w1(1) by (simp add: api_step_def)
  have holds: "holds_key signing_world 7 (Some 10)" "holds_key w1 7 (Some 10)"
    using w1(2,3) by (simp_all add: holds_key_def held_def pkey_material_def)
  obtain rc where calls: "sig_calls w1 = [DigestSign 7 (ds_encode [65] abc) rc]" "rc > 0"
    using pqc_sign_calls [OF signing_world_safe abc_inputs(1) w1(1)] holds(1)
    by (auto simp: signing_world_calls holds_key_def pair_encoding_def abc_inputs)
  have "verify_result ?E c 7 (ds_encode [65] abc) 30 ?sig" for c
    by (simp add: verify_result_def)
  then obtain w' where v: "pqc_verify ?E (Some abc) 3 (Some ?sig) 31 (Some domain_A) (Some 10) w1 =
      Some (True, w')"
    using pqc_verify_effect [OF w1(4) abc_inputs(1), of 10 1 7 1 31 ?sig ?E] w1(2,3)
    by (auto simp: abc_inputs abc_length)
  then have step: "api_step True ?E ?verify w1 = Some (RVerified True, w')" by (simp add: api_step_def)
  have "unforged 7 {} (sig_calls w')"
    using pqc_verify_calls [OF w1(4) abc_inputs(1) v] calls holds(2)
    by (auto simp: holds_key_def pair_encoding_def abc_inputs)
  with session_verifies_only_signed [OF ideal_sign_fits ideal_digests_fit signing_world_wf
      signing_world_calls adm run holds(2) step] run step show ?thesis
    by (simp add: abc_inputs)
qed

end
