(* ===== verification/KeyRing.thy ===== *)
theory KeyRing
  imports Api
begin

text \<open>
  What the interface of \<open>include/higgaion/pqc_crypto.h\<close> promises about keys, as an abstract
  machine: a ring that gives every initialised struct either no key or a key of its own. There
  are no objects, no reference counts and no sharing in it. The library (structs that may point
  to one reference-counted object) refines it, so that sharing cannot be observed: an operation
  changes the key of the struct it is called on and of no other.
\<close>

subsection \<open>The ring\<close>

type_synonym 'k keyring = "addr \<rightharpoonup> 'k option"

definition key_at :: "'k keyring \<Rightarrow> addr option \<Rightarrow> 'k option" where
  "key_at r key = (case key of None \<Rightarrow> None | Some a \<Rightarrow> (case r a of Some v \<Rightarrow> v | None \<Rightarrow> None))"

definition put_key :: "addr option \<Rightarrow> 'k option \<Rightarrow> 'k keyring \<Rightarrow> 'k keyring" where
  "put_key key v r = (case key of None \<Rightarrow> r | Some a \<Rightarrow> r(a \<mapsto> v))"

text \<open>What signing and verifying with a key answers, at a time \<open>t\<close> of the environment.\<close>

definition ring_signs ::
  "'k evp \<Rightarrow> nat \<Rightarrow> 'k \<Rightarrow> bytes option \<Rightarrow> u64 \<Rightarrow> bytes option \<Rightarrow> bytes option \<times> u64" where
  "ring_signs E t k message msg_len domain =
     (if ds_accepts message msg_len domain
      then sign_result E t k (ds_encode (domain_bytes domain) (message_bytes message msg_len))
        (ds_length domain msg_len)
      else (None, 0))"

definition ring_verifies ::
  "'k evp \<Rightarrow> nat \<Rightarrow> 'k option \<Rightarrow> bytes option \<Rightarrow> u64 \<Rightarrow> bytes option \<Rightarrow> u64 \<Rightarrow> bytes option \<Rightarrow> bool" where
  "ring_verifies E t key message msg_len signature sig_len domain \<longleftrightarrow>
     sig_len \<noteq> 0 \<and> ds_accepts message msg_len domain
     \<and> (\<exists>k \<in> set_option key. \<exists>s \<in> set_option signature.
          verify_result E t k (ds_encode (domain_bytes domain) (message_bytes message msg_len))
            (ds_length domain msg_len) (take (unat sig_len) s))"

inductive ring_step ::
  "bool \<Rightarrow> 'k evp \<Rightarrow> 'k keyring \<Rightarrow> api_op \<times> api_result \<Rightarrow> 'k keyring \<Rightarrow> bool"
  for required E where
  ring_init: "ring_step required E r (ApiKey (KInit key), RDone) (put_key key None r)"
| ring_free: "ring_step required E r (ApiKey (KFree key), RDone) (put_key key None r)"
| ring_generate: "higgaion_is_algorithm_allowed required alg \<Longrightarrow>
    keygen E t (case alg of Some s \<Rightarrow> s | None \<Rightarrow> []) = (rc, Some k) \<Longrightarrow>
    ring_step required E r (ApiKey (KGenerate key alg), RDone) (put_key key (Some k) r)"
| ring_generate_none: "ring_step required E r (ApiKey (KGenerate key alg), RDone) (put_key key None r)"
| ring_share: "key_at r src = Some k \<Longrightarrow>
    ring_step required E r (ApiKey (KUpRef dst src), RDone) (put_key dst (Some k) r)"
| ring_share_none: "ring_step required E r (ApiKey (KUpRef dst src), RDone) r"
| ring_sign: "key_at r sk = Some k \<Longrightarrow> ring_signs E t k message msg_len domain = (res, n) \<Longrightarrow>
    (p = None) = (res = None) \<Longrightarrow>
    ring_step required E r (ApiSign (Some s0) (Some l0) message msg_len domain sk,
      RSigned (Some p) (Some n)) r"
| ring_sign_none: "signature = None \<or> sig_len = None \<or> key_at r sk = None \<Longrightarrow>
    ring_step required E r (ApiSign signature sig_len message msg_len domain sk,
      RSigned (map_option (\<lambda>_. None) signature) (map_option (\<lambda>_. 0) sig_len)) r"
| ring_verify: "ring_verifies E t (key_at r pk) message msg_len signature sig_len domain = ok \<Longrightarrow>
    ring_step required E r (ApiVerify message msg_len signature sig_len domain pk, RVerified ok) r"
| ring_erase: "key_at r key \<noteq> None \<Longrightarrow>
    ring_step required E r (ApiErase os key wal_path, RErased ok evs) (put_key key None r)"
| ring_erase_none: "ring_step required E r (ApiErase os key wal_path, RErased False evs) r"
| ring_hash: "ring_step required E r (ApiHash out data len, RHashed ok digest) r"
| ring_release: "ring_step required E r (ApiFree a, RDone) r"

text \<open>The struct whose key a call may change.\<close>

fun target :: "api_op \<Rightarrow> addr option" where
  "target (ApiKey (KInit key)) = key"
| "target (ApiKey (KFree key)) = key"
| "target (ApiKey (KGenerate key alg)) = key"
| "target (ApiKey (KUpRef dst src)) = dst"
| "target (ApiErase os key wal_path) = key"
| "target op = None"

lemma ring_step_elsewhere:
  "ring_step required E r (op, res) r' \<Longrightarrow> target op \<noteq> Some a \<Longrightarrow> r' a = r a"
  by (erule ring_step.cases) (auto simp: put_key_def split: option.splits)

subsection \<open>The keys of the library\<close>

definition ring_of :: "'k world \<Rightarrow> 'k keyring" where
  "ring_of w = (\<lambda>a. case structs w a of
     None \<Rightarrow> None
   | Some field \<Rightarrow> Some (case field of None \<Rightarrow> None | Some obj \<Rightarrow> pkey_material obj w))"

lemma key_at_ring_of:
  "key_at (ring_of w) key = (case held w key of None \<Rightarrow> None | Some obj \<Rightarrow> pkey_material obj w)"
  by (auto simp: key_at_def ring_of_def held_def split: option.splits)

lemma ring_of_same:
  "structs w' = structs w \<Longrightarrow> pkeys w' = pkeys w \<Longrightarrow> ring_of w' = ring_of w"
  by (simp add: ring_of_def pkey_material_def fun_eq_iff split: option.split)

text \<open>No object changes its key, while it lives.\<close>

definition agrees :: "'k world \<Rightarrow> 'k world \<Rightarrow> bool" where
  "agrees w w' \<longleftrightarrow> (\<forall>x k n k' n'. pkeys w x = Some (k, n) \<longrightarrow> pkeys w' x = Some (k', n') \<longrightarrow> k = k')"

lemma agreesD: "agrees w w' \<Longrightarrow> pkeys w x = Some (k, n) \<Longrightarrow> pkeys w' x = Some (k', n') \<Longrightarrow> k = k'"
  unfolding agrees_def by blast

lemma agrees_refl [simp]: "agrees w w"
  by (simp add: agrees_def)

lemma agrees_pkeys: "agrees w w1 \<Longrightarrow> pkeys w' = pkeys w1 \<Longrightarrow> agrees w w'"
  by (simp add: agrees_def)

lemma map_le_agrees: "pkeys w \<subseteq>\<^sub>m pkeys w' \<Longrightarrow> agrees w w'"
  by (auto simp: agrees_def map_le_def dom_def)

lemma ring_of_upd:
  assumes "key_safe w" "key_safe w'" "agrees w w'" "structs w' = (structs w)(a \<mapsto> f)"
  shows "ring_of w' = put_key (Some a)
    (case f of None \<Rightarrow> None | Some obj \<Rightarrow> pkey_material obj w') (ring_of w)"
proof
  fix b
  show "ring_of w' b = put_key (Some a)
    (case f of None \<Rightarrow> None | Some obj \<Rightarrow> pkey_material obj w') (ring_of w) b"
  proof (cases "b = a")
    case True
    then show ?thesis using assms(4) by (simp add: ring_of_def put_key_def)
  next
    case False
    have "pkey_material obj w' = pkey_material obj w" if b: "structs w b = Some (Some obj)" for obj
    proof -
      obtain k n where "pkeys w obj = Some (k, n)" using key_safe_held [OF assms(1) b] by blast
      moreover have "structs w' b = Some (Some obj)" using b False assms(4) by simp
      then obtain k' n' where "pkeys w' obj = Some (k', n')" using key_safe_held [OF assms(2)] by blast
      ultimately show ?thesis using agreesD [OF assms(3)] by (simp add: pkey_material_def) metis
    qed
    then show ?thesis
      using False assms(4) by (auto simp: ring_of_def put_key_def split: option.split)
  qed
qed


subsection \<open>The key operations\<close>

lemma pkey_free_agrees: "pkey_free obj w = Some w' \<Longrightarrow> agrees w w' \<and> structs w' = structs w"
  by (auto simp: pkey_free_def agrees_def split: option.splits if_splits)

lemma set_pkey_pkeys: "set_pkey a v w = Some w' \<Longrightarrow> pkeys w' = pkeys w"
  by (auto simp: set_pkey_def split: option.splits)

lemma key_free_agrees: "higgaion_key_free key w = Some w' \<Longrightarrow> agrees w w'"
  by (auto simp: higgaion_key_free_def bind_eq_Some_conv
      dest!: pkey_free_agrees set_pkey_pkeys intro: agrees_pkeys split: option.splits)

lemma ring_of_init:
  assumes "key_safe w" "higgaion_key_init key w = Some w'"
  shows "ring_of w' = put_key key None (ring_of w)"
proof (cases key)
  case None
  with assms(2) show ?thesis by (simp add: higgaion_key_init_def put_key_def)
next
  case (Some a)
  with assms(2) have "w' = w\<lparr>structs := (structs w)(a \<mapsto> None)\<rparr>" by (simp add: higgaion_key_init_def)
  then show ?thesis
    using Some ring_of_upd [of w w' a None] key_safe_overwrite [OF assms(1)] assms(1)
    by (simp add: agrees_def)
qed

lemma ring_of_free:
  assumes "key_safe w" "live_struct w key" "higgaion_key_free key w = Some w'"
  shows "key_safe w' \<and> ring_of w' = put_key key None (ring_of w)"
proof -
  have safe: "key_safe w'"
    and s: "structs w' = (case key of None \<Rightarrow> structs w | Some a \<Rightarrow> (structs w)(a \<mapsto> None))"
    using key_free_safe [OF assms(1,2)] assms(3) by auto
  show ?thesis
  proof (cases key)
    case None
    then show ?thesis using safe assms(3) by (simp add: higgaion_key_free_def put_key_def)
  next
    case (Some a)
    then show ?thesis
      using safe s ring_of_upd [OF assms(1) safe key_free_agrees [OF assms(3)], of a None] by simp
  qed
qed

lemma ring_of_share:
  assumes "key_safe w" "live_struct w dst" "live_struct w src"
    and "higgaion_key_up_ref E dst src w = Some (rc, w')"
  shows "(rc = 1 \<and> (\<exists>k. key_at (ring_of w) src = Some k \<and> ring_of w' = put_key dst (Some k) (ring_of w)))
    \<or> (rc = 0 \<and> ring_of w' = ring_of w)"
proof -
  have post: "key_safe w'" "structs w' = (if rc = 1 then (structs w)(the dst \<mapsto> held w src) else structs w)"
    "rc = 1 \<or> rc = 0"
    using key_up_ref_safe [OF assms(1-3), of E] assms(4) by auto
  have obj: "\<exists>d obj k n. dst = Some d \<and> held w src = Some obj \<and> pkeys w obj = Some (k, n)
      \<and> pkeys w' = (pkeys w)(obj \<mapsto> (k, Suc n))" if rc: "rc = 1"
  proof -
    obtain d c where ds: "dst = Some d" "src = Some c"
      using assms(4) rc by (cases dst; cases src) (simp_all add: higgaion_key_up_ref_def)
    then obtain obj where obj: "structs w c = Some (Some obj)"
      using assms(3,4) rc
      by (cases "the (structs w c)") (auto simp: higgaion_key_up_ref_def get_pkey_def live_struct_def)
    then obtain k n where k: "pkeys w obj = Some (k, n)" using key_safe_held [OF assms(1)] by blast
    have "pkeys w' = (pkeys w)(obj \<mapsto> (k, Suc n))"
      using assms(4) rc ds obj k
      by (auto simp: higgaion_key_up_ref_def get_pkey_def pkey_up_ref_def Let_def bind_eq_Some_conv
          dest!: set_pkey_pkeys split: if_splits)
    then show ?thesis using ds obj k by (simp add: held_def)
  qed
  have same: "pkeys w' = pkeys w" if rc: "rc = 0"
  proof (cases "dst = None \<or> held w src = None")
    case True
    then show ?thesis
      using assms(3,4)
      by (cases dst; cases src)
        (auto simp: higgaion_key_up_ref_def held_def live_struct_def get_pkey_def split: option.splits)
  next
    case False
    then obtain d c obj where ds: "dst = Some d" "src = Some c" "structs w c = Some (Some obj)"
      by (auto simp: held_def split: option.splits)
    moreover obtain k n where "pkeys w obj = Some (k, n)" using key_safe_held [OF assms(1) ds(3)] by blast
    ultimately show ?thesis
      using assms(4) rc
      by (auto simp: higgaion_key_up_ref_def get_pkey_def pkey_up_ref_def Let_def bind_eq_Some_conv
          split: if_splits)
  qed
  show ?thesis
  proof (cases "rc = 1")
    case True
    obtain d obj k n where o: "dst = Some d" "held w src = Some obj" "pkeys w obj = Some (k, n)"
      "pkeys w' = (pkeys w)(obj \<mapsto> (k, Suc n))"
      using obj [OF True] by blast
    have "agrees w w'" using o(3,4) by (auto simp: agrees_def split: if_splits)
    from ring_of_upd [OF assms(1) post(1) this, of d "Some obj"] show ?thesis
      using True o post(2) by (simp add: key_at_ring_of pkey_material_def)
  next
    case False
    then show ?thesis using post(2,3) same ring_of_same [of w' w] by auto
  qed
qed

text \<open>What a generated key is: an answer of the library's generator, or none.\<close>

lemma key_ctx_free_same: "key_ctx_free c w = Some w' \<Longrightarrow> structs w' = structs w \<and> pkeys w' = pkeys w"
  by (auto simp: key_ctx_free_def split: if_splits)

lemma log_provider_same: "log_provider E a alg w = Some w' \<Longrightarrow> structs w' = structs w \<and> pkeys w' = pkeys w"
  by (auto simp: log_provider_def bind_eq_Some_conv split: option.splits)

lemma evp_keygen_result:
  assumes "evp_keygen E a alg w = Some (rc, w')" "structs w a = Some None"
  shows "(structs w' = structs w \<and> pkeys w' = pkeys w)
    \<or> (\<exists>k rc. keygen E (clock w) alg = (rc, Some k) \<and> structs w' = (structs w)(a \<mapsto> Some (brk w))
        \<and> pkeys w' = (pkeys w)(brk w \<mapsto> (k, 1)))"
proof -
  obtain rc1 res where "keygen E (clock w) alg = (rc1, res)" by fastforce
  with assms show ?thesis
    by (cases res) (auto simp: evp_keygen_def Let_def set_pkey_def bind_eq_Some_conv)
qed

lemma ring_of_generate_fresh:
  assumes "key_safe w" "structs w a = Some None" "generate_fresh E a alg w = Some w'"
  shows "ring_of w' = put_key (Some a) None (ring_of w)
    \<or> (\<exists>t rc k. keygen E t alg = (rc, Some k) \<and> ring_of w' = put_key (Some a) (Some k) (ring_of w))"
proof -
  have safe': "key_safe w'" using generate_fresh_keys [OF assms(1,2), of E alg] assms(3) by auto
  have idem: "put_key (Some a) None (ring_of w) = ring_of w"
    using assms(2) by (auto simp: put_key_def ring_of_def fun_eq_iff)
  obtain c w1 where new: "key_ctx_new E alg w = (c, w1)" by fastforce
  note n = key_ctx_new_keys [OF new assms(1)]
  have "(structs w' = structs w \<and> pkeys w' = pkeys w)
    \<or> (\<exists>t k rc. keygen E t alg = (rc, Some k) \<and> structs w' = (structs w)(a \<mapsto> Some (brk w1))
        \<and> pkeys w' = (pkeys w)(brk w1 \<mapsto> (k, 1)))"
  proof (cases "c = None \<or> keygen_init E (clock w1) alg \<le> 0")
    case True
    then show ?thesis
      using assms(3) new n
      by (auto simp: generate_fresh_def Let_def dest!: key_ctx_free_same split: option.splits)
  next
    case False
    then obtain c1 rc w2 where w2: "c = Some c1" "evp_keygen E a alg (ext_call E w1) = Some (rc, w2)"
      "structs w' = structs w2 \<and> pkeys w' = pkeys w2"
      using assms(3) new
      by (auto simp: generate_fresh_def Let_def bind_eq_Some_conv
          dest!: key_ctx_free_same log_provider_same split: option.splits if_splits)
    show ?thesis
      using evp_keygen_result [OF w2(2)] w2(3) n assms(2) by auto
  qed
  then show ?thesis
  proof
    assume "structs w' = structs w \<and> pkeys w' = pkeys w"
    then show ?thesis using idem ring_of_same [of w' w] by simp
  next
    assume "\<exists>t k rc. keygen E t alg = (rc, Some k) \<and> structs w' = (structs w)(a \<mapsto> Some (brk w1))
        \<and> pkeys w' = (pkeys w)(brk w1 \<mapsto> (k, 1))"
    then obtain t k rc where g: "keygen E t alg = (rc, Some k)"
      "structs w' = (structs w)(a \<mapsto> Some (brk w1))" "pkeys w' = (pkeys w)(brk w1 \<mapsto> (k, 1))" by blast
    have "wf_world w1" using n by (simp add: key_safe_def)
    then have "pkeys w (brk w1) = None" using wf_world_fresh n by metis
    then have "agrees w w'" using g(3) by (intro map_le_agrees) (auto simp: map_le_def)
    from ring_of_upd [OF assms(1) safe' this g(2)] g show ?thesis by (auto simp: pkey_material_def)
  qed
qed

lemma ring_of_generate:
  assumes "key_safe w" "live_struct w key" "generate_keypair required E key alg w = Some w'"
  shows "ring_step required E (ring_of w) (ApiKey (KGenerate key alg), RDone) (ring_of w')"
proof (cases key)
  case None
  then have "ring_of w' = put_key key None (ring_of w)"
    using assms(3) by (simp add: generate_keypair_def put_key_def)
  then show ?thesis by (simp add: ring_generate_none)
next
  case (Some a)
  show ?thesis
  proof (cases "higgaion_is_algorithm_allowed required alg")
    case True
    let ?s = "case alg of Some s \<Rightarrow> s | None \<Rightarrow> []"
    obtain w1 where w1: "higgaion_key_free key w = Some w1" "generate_fresh E a ?s w1 = Some w'"
      using assms(3) True Some generate_keypair_allowed [OF True, of E a w] by (auto simp: bind_eq_Some_conv)
    have r1: "key_safe w1" "ring_of w1 = put_key key None (ring_of w)"
      using ring_of_free [OF assms(1,2) w1(1)] by simp_all
    have "structs w1 a = Some None"
      using key_free_safe [OF assms(1,2)] w1(1) Some by auto
    from ring_of_generate_fresh [OF r1(1) this w1(2)] Some r1(2)
    have "ring_of w' = put_key key None (ring_of w)
      \<or> (\<exists>t rc k. keygen E t ?s = (rc, Some k) \<and> ring_of w' = put_key key (Some k) (ring_of w))"
      by (auto simp: put_key_def)
    then show ?thesis using True by (auto intro: ring_generate ring_generate_none)
  next
    case False
    obtain w1 where w1: "set_pkey a None w1 = Some w'" "structs w1 = structs w" "pkeys w1 = pkeys w"
      using assms(3) Some False by (simp add: generate_keypair_def)
    have "key_safe w'" "structs w' = (structs w)(a \<mapsto> None)" "pkeys w' = pkeys w"
      using generate_keypair_safe [OF assms(1,2), of required E alg] assms(3) w1
      by (auto simp: set_pkey_def split: option.splits)
    then have "ring_of w' = put_key key None (ring_of w)"
      using ring_of_upd [OF assms(1), of w' a None] Some by (simp add: agrees_def)
    then show ?thesis by (simp add: ring_generate_none)
  qed
qed

lemma key_step_simulates:
  assumes "key_safe w" "op_structs op \<subseteq> dom (structs w)" "key_step required E op w = Some w'"
  shows "ring_step required E (ring_of w) (ApiKey op, RDone) (ring_of w')"
proof (cases op)
  case (KInit key)
  with assms(3) ring_of_init [OF assms(1), of key w'] show ?thesis by (simp add: key_step_def ring_init)
next
  case (KFree key)
  with assms ring_of_free [OF assms(1) live_struct_dom, of key w'] show ?thesis
    by (simp add: key_step_def ring_free)
next
  case (KGenerate key alg)
  with assms ring_of_generate [OF assms(1) live_struct_dom, of key required E alg w'] show ?thesis
    by (simp add: key_step_def)
next
  case (KUpRef dst src)
  with assms(2) have live: "live_struct w dst" "live_struct w src" by (auto intro: live_struct_dom)
  obtain rc where "higgaion_key_up_ref E dst src w = Some (rc, w')"
    using assms(3) KUpRef by (auto simp: key_step_def)
  from ring_of_share [OF assms(1) live this] show ?thesis
    unfolding KUpRef by (auto intro: ring_share ring_share_none)
qed

subsection \<open>The other operations\<close>

lemma sign_simulates:
  assumes "key_safe w" "sign_fits E" "ds_readable message msg_len domain" "set_option sk \<subseteq> dom (structs w)"
    and "pqc_sign E signature sig_len message msg_len domain sk w = Some ((p, n), w')"
  shows "ring_step required E (ring_of w)
    (ApiSign signature sig_len message msg_len domain sk, RSigned p n) (ring_of w')"
proof (cases "signature = None \<or> sig_len = None \<or> held w sk = None")
  case True
  then have "\<exists>v. pqc_sign E signature sig_len message msg_len domain sk w =
      Some ((map_option (\<lambda>_. None) signature, map_option (\<lambda>_. 0) sig_len), v)
    \<and> structs v = structs w \<and> pkeys v = pkeys w"
    using assms(4)
    by (cases signature; cases sig_len; cases sk) (auto simp: pqc_sign_def get_pkey_def Let_def held_def)
  then obtain v where v: "pqc_sign E signature sig_len message msg_len domain sk w =
      Some ((map_option (\<lambda>_. None) signature, map_option (\<lambda>_. 0) sig_len), v)"
    "structs v = structs w" "pkeys v = pkeys w" by blast
  have "p = map_option (\<lambda>_. None) signature" "n = map_option (\<lambda>_. 0) sig_len" "w' = v"
    using trans [OF assms(5) [symmetric] v(1)] by simp_all
  moreover have "ring_of v = ring_of w" using v(2,3) by (rule ring_of_same)
  moreover have "signature = None \<or> sig_len = None \<or> key_at (ring_of w) sk = None"
    using True by (auto simp: key_at_ring_of)
  ultimately show ?thesis using ring_sign_none by metis
next
  case False
  then obtain s0 l0 a obj where args: "signature = Some s0" "sig_len = Some l0" "sk = Some a"
    "structs w a = Some (Some obj)"
    by (auto simp: held_def split: option.splits)
  obtain k cnt where k: "pkeys w obj = Some (k, cnt)" using key_safe_held [OF assms(1) args(4)] by blast
  have key: "key_at (ring_of w) sk = Some k"
    using args k by (simp add: key_at_ring_of held_def pkey_material_def)
  let ?res = "ring_signs E (clock w) k message msg_len domain"
  obtain r len where r: "p = Some r" "n = Some (snd ?res)" "(r = None) = (fst ?res = None)"
    "structs w' = structs w" "pkeys w' = pkeys w"
    using pqc_sign_effect [OF assms(1-3) args(4) k, of s0 l0] assms(5)
    unfolding args(1-3) ring_signs_def by (auto simp: effect_def split: option.splits)
  from ring_sign [of "ring_of w" sk k E "clock w" message msg_len domain "fst ?res" "snd ?res" r] key r(3)
  show ?thesis unfolding args(1,2) r(1,2) ring_of_same [OF r(4,5)] by simp
qed

lemma verify_simulates:
  assumes "key_safe w" "api_ok w (ApiVerify message msg_len signature sig_len domain pk)"
    and "pqc_verify E message msg_len signature sig_len domain pk w = Some (ok, w')"
  shows "ring_step required E (ring_of w)
    (ApiVerify message msg_len signature sig_len domain pk, RVerified ok) (ring_of w')"
proof (cases "held w pk = None \<or> signature = None \<or> sig_len = 0")
  case True
  have "set_option pk \<subseteq> dom (structs w)" using assms(2) by simp
  with True have "pqc_verify E message msg_len signature sig_len domain pk w = Some (False, w)"
    by (cases pk) (auto simp: pqc_verify_def get_pkey_def held_def split: option.splits)
  then have "w' = w" "\<not> ok" using assms(3) by simp_all
  moreover have "\<not> ring_verifies E 0 (key_at (ring_of w) pk) message msg_len signature sig_len domain"
    using True by (auto simp: ring_verifies_def key_at_ring_of)
  ultimately show ?thesis using ring_verify [of E 0 "ring_of w" pk] by simp
next
  case False
  then obtain a obj s where args: "pk = Some a" "structs w a = Some (Some obj)" "signature = Some s"
    "sig_len \<noteq> 0" "unat sig_len \<le> length s"
    using assms(2) by (auto simp: held_def split: option.splits)
  obtain k cnt where k: "pkeys w obj = Some (k, cnt)" using key_safe_held [OF assms(1) args(2)] by blast
  have key: "key_at (ring_of w) pk = Some k"
    using args k by (simp add: key_at_ring_of held_def pkey_material_def)
  have rd: "ds_readable message msg_len domain" using assms(2) by simp
  have "ok = ring_verifies E (clock w) (key_at (ring_of w) pk) message msg_len signature sig_len domain
      \<and> structs w' = structs w \<and> pkeys w' = pkeys w"
    using pqc_verify_effect [OF assms(1) rd args(2) k args(5,4), of E] assms(3) args(4)
    unfolding args(1,3) key [unfolded args(1)] by (auto simp: ring_verifies_def effect_def)
  then show ?thesis
    using ring_verify [of E "clock w" "ring_of w" pk] ring_of_same [of w' w] by simp
qed

lemma erase_simulates:
  assumes "key_safe w" "set_option key \<subseteq> dom (structs w)"
    and "higgaion_key_erase_durable os key wal_path w = Some ((ok, evs), w')"
  shows "ring_step required E (ring_of w) (ApiErase os key wal_path, RErased ok evs) (ring_of w')"
proof (cases "held w key = None \<or> wal_path = None")
  case True
  with assms(2,3) have "w' = w" "\<not> ok"
    by (cases key; cases wal_path; auto simp: higgaion_key_erase_durable_def held_def get_pkey_def
        split: option.splits)+
  then show ?thesis by (simp add: ring_erase_none)
next
  case False
  then obtain a obj path where args: "key = Some a" "structs w a = Some (Some obj)" "wal_path = Some path"
    by (auto simp: held_def split: option.splits)
  obtain q where q: "pkey_free obj w \<bind> set_pkey a None =
      Some (w\<lparr>pkeys := q, structs := (structs w)(a \<mapsto> None)\<rparr>)"
    using drop_reference [OF assms(1) args(2)] by blast
  then obtain w1 where w1: "pkey_free obj w = Some w1"
    "set_pkey a None w1 = Some (w\<lparr>pkeys := q, structs := (structs w)(a \<mapsto> None)\<rparr>)"
    by (auto simp: bind_eq_Some_conv)
  let ?w2 = "w\<lparr>pkeys := q, structs := (structs w)(a \<mapsto> None)\<rparr>"
  have "higgaion_key_free key w = Some ?w2" using args q by (simp add: higgaion_key_free_def get_pkey_def)
  from ring_of_free [OF assms(1) live_struct_dom [OF assms(2)] this]
  have dropped: "ring_of ?w2 = put_key key None (ring_of w)" by simp
  have "w' = ?w2 \<or> (w' = w \<and> \<not> ok)"
    using assms(3) erase_eq [OF args(2) w1, of os path] unfolding args(1,3) by (auto split: if_splits)
  moreover obtain k n where "pkeys w obj = Some (k, n)" using key_safe_held [OF assms(1) args(2)] by blast
  then have "key_at (ring_of w) key \<noteq> None"
    using args by (simp add: key_at_ring_of held_def pkey_material_def)
  note ring_erase [OF this, of required E os wal_path ok evs]
  ultimately show ?thesis unfolding dropped [symmetric] by (metis ring_erase_none)
qed

subsection \<open>Refinement\<close>

definition api_call :: "bool \<Rightarrow> 'k evp \<Rightarrow> 'k world \<Rightarrow> api_op \<times> api_result \<Rightarrow> 'k world \<Rightarrow> bool" where
  "api_call required E w e w' \<longleftrightarrow> api_ok w (fst e) \<and> api_step required E (fst e) w = Some (snd e, w')"

lemma api_call_simulates:
  assumes "api_call required E w e w'" "api_wf w" "sign_fits E" "digests_fit E"
  shows "api_wf w' \<and> ring_step required E (ring_of w) e (ring_of w')"
proof
  obtain op res where e: "e = (op, res)" by (cases e)
  have ok: "api_ok w op" and step: "api_step required E op w = Some (res, w')"
    using assms(1) by (simp_all add: api_call_def e)
  show "api_wf w'" using api_step_post [OF assms(2-4) ok, of required] step by (simp add: api_post_def)
  have safe: "key_safe w" using assms(2) by (simp add: api_wf_def)
  show "ring_step required E (ring_of w) e (ring_of w')"
  proof (cases op)
    case (ApiKey kop)
    with step have "key_step required E kop w = Some w'" "res = RDone" by (auto simp: api_step_def)
    with key_step_simulates [OF safe, of kop required E w'] ok [unfolded ApiKey]
    show ?thesis unfolding e ApiKey by simp
  next
    case (ApiSign signature sig_len message msg_len domain sk)
    then obtain p n where "pqc_sign E signature sig_len message msg_len domain sk w = Some ((p, n), w')"
      "res = RSigned p n"
      using step by (auto simp: api_step_def)
    with sign_simulates [OF safe assms(3) _ _ this(1)] ok [unfolded ApiSign]
    show ?thesis unfolding e ApiSign by simp
  next
    case (ApiVerify message msg_len signature sig_len domain pk)
    then obtain r where "pqc_verify E message msg_len signature sig_len domain pk w = Some (r, w')"
      "res = RVerified r"
      using step by (auto simp: api_step_def)
    with verify_simulates [OF safe ok [unfolded ApiVerify] this(1)]
    show ?thesis unfolding e ApiVerify by simp
  next
    case (ApiErase os key wal_path)
    then obtain r evs where "higgaion_key_erase_durable os key wal_path w = Some ((r, evs), w')"
      "res = RErased r evs"
      using step by (auto simp: api_step_def)
    with erase_simulates [OF safe _ this(1)] ok [unfolded ApiErase]
    show ?thesis unfolding e ApiErase by simp
  next
    case (ApiHash out data len)
    then obtain r d where "hash E out data len w = Some ((r, d), w')" "res = RHashed r d"
      using step by (auto simp: api_step_def)
    with hash_frame [of E out data len w "(r, d)" w'] ApiHash ring_of_same [of w' w] show ?thesis
      by (simp add: e ring_hash)
  next
    case (ApiFree a)
    with step have "structs w' = structs w" "pkeys w' = pkeys w" "res = RDone"
      by (auto simp: api_step_def free_block_def split: option.splits)
    with ApiFree ring_of_same [of w' w] show ?thesis by (simp add: e ring_release)
  qed
qed

interpretation key_ring: simulation "api_call required E" "ring_step required E" ring_of
  "\<lambda>w. api_wf w \<and> sign_fits E \<and> digests_fit E" for required E
  by unfold_locales (use api_call_simulates in blast)

lemma session_calls:
  "api_admissible required E ops w \<Longrightarrow> api_run required E ops w = Some (rs, w') \<Longrightarrow>
     length rs = length ops \<and> runs (api_call required E) w (zip ops rs) w'"
  by (induction ops arbitrary: w rs) (auto simp: bind_eq_Some_conv runs_Cons_iff api_call_def)

lemma session_runs:
  assumes "sign_fits E" "digests_fit E" "api_wf w" "api_admissible required E ops w"
  shows "\<exists>rs w'. api_run required E ops w = Some (rs, w') \<and> length rs = length ops
    \<and> runs (ring_step required E) (ring_of w) (zip ops rs) (ring_of w')"
proof -
  obtain rs w' where w': "api_run required E ops w = Some (rs, w')"
    using api_run_post [OF assms(3,1,2,4)] by blast
  note calls = session_calls [OF assms(4) w']
  have "runs (ring_step required E) (ring_of w) (zip ops rs) (ring_of w')"
    using key_ring.runs_simulate [OF calls [THEN conjunct2]] assms(1-3) by simp
  with w' calls show ?thesis by blast
qed

lemma ring_runs_elsewhere:
  "runs (ring_step required E) r (zip ops rs) r' \<Longrightarrow> \<forall>op \<in> set ops. target op \<noteq> Some a \<Longrightarrow> r' a = r a"
proof (induction ops arbitrary: rs r)
  case (Cons op ops)
  then show ?case by (cases rs) (auto simp: runs_Cons_iff dest: ring_step_elsewhere)
qed simp

subsection \<open>Properties\<close>

text \<open>C3. Sharing is invisible: every admissible session of calls, on structs that may alias and
  share reference-counted keys, under any failures of the environment, is a session of the key
  ring, in which every struct has a key of its own: with the same results, in the same order, from
  the ring of the keys held before to the ring of the keys held after. In particular a generated
  key comes from an allowed algorithm, a signature from the key of the struct it was asked of, and
  after an erasure that reports success the struct has no key.\<close>

theorem sessions_refine_key_ring:
  assumes "sign_fits E" "digests_fit E" "api_wf w" "api_admissible required E ops w"
  shows "\<exists>rs w'. api_run required E ops w = Some (rs, w') \<and> length rs = length ops
    \<and> runs (ring_step required E) (ring_of w) (zip ops rs) (ring_of w')"
  using assms by (rule session_runs)

theorem sessions_refine_key_ring_witness:
  "\<exists>rs w'. api_run True ideal_evp demo_session signing_world = Some (rs, w')
    \<and> runs (ring_step True ideal_evp) (ring_of signing_world) (zip demo_session rs) (ring_of w')"
  using sessions_refine_key_ring [OF ideal_sign_fits ideal_digests_fit signing_world_wf demo_admissible]
  by blast

text \<open>C6. The key of a struct is private: no session whose calls are made on other structs
  changes it, even when those structs share its key and free it, erase it durably, regenerate it
  or overwrite it.\<close>

theorem keys_are_private:
  assumes "sign_fits E" "digests_fit E" "api_wf w" "api_admissible required E ops w"
    and "api_run required E ops w = Some (rs, w')" "\<forall>op \<in> set ops. target op \<noteq> Some a"
  shows "ring_of w' a = ring_of w a"
  using session_runs [OF assms(1-4)] ring_runs_elsewhere [OF _ assms(6)] assms(5) by auto

text \<open>Two structs that share one key.\<close>

definition shared_world :: "nat world" where
  "shared_world = empty_world\<lparr>brk := 20, structs := [10 \<mapsto> Some 1, 11 \<mapsto> Some 1], pkeys := [1 \<mapsto> (7, 2)]\<rparr>"

lemma shared_world_wf: "api_wf shared_world"
proof -
  have own: "owners (structs shared_world) obj = (if obj = 1 then {10, 11} else {})" for obj
    by (auto simp: owners_def shared_world_def)
  have "slack shared_world obj = 0" for obj
    unfolding slack_def own by (simp add: refs_def shared_world_def)
  then show ?thesis by (auto simp: api_wf_def key_safe_def wf_world_def shared_world_def)
qed

theorem keys_are_private_witness:
  "\<exists>rs w'. api_run True ideal_evp
      [ApiErase calm_os (Some 10) (Some ''/w/k''), ApiKey (KGenerate (Some 10) (Some ''ML-DSA-65'')),
       ApiKey (KFree (Some 10))] shared_world = Some (rs, w')
    \<and> ring_of w' 11 = Some (Some 7)"
proof -
  let ?ops = "[ApiErase calm_os (Some 10) (Some ''/w/k''), ApiKey (KGenerate (Some 10) (Some ''ML-DSA-65'')),
       ApiKey (KFree (Some 10))]"
  have adm: "api_admissible True ideal_evp ?ops shared_world"
    by (rule api_static_admissible [OF ideal_sign_fits ideal_digests_fit shared_world_wf])
      (simp add: shared_world_def)
  obtain rs w' where run: "api_run True ideal_evp ?ops shared_world = Some (rs, w')"
    using session_runs [OF ideal_sign_fits ideal_digests_fit shared_world_wf adm] by blast
  have "ring_of shared_world 11 = Some (Some 7)"
    by (simp add: ring_of_def shared_world_def pkey_material_def)
  with run keys_are_private [OF ideal_sign_fits ideal_digests_fit shared_world_wf adm run, of 11]
  show ?thesis by auto
qed

end
