(* ===== verification/ErrorQueue.thy ===== *)
theory ErrorQueue
  imports Runtime
begin

text \<open>
  Termination of the only loop of \<open>src/pqc_crypto.c\<close> whose bound is not in the code:
  \<open>log_openssl_error\<close> asks \<open>ERR_get_error\<close> until it answers 0. The loop is written here as
  the code has it, over an arbitrary error source, so that not returning is the value
  \<open>None\<close>; the structural loop \<open>log_openssl_loop\<close> that the rest of the development runs is
  proved to be what it computes on a queue.
\<close>

partial_function (option) err_loop ::
  "('s \<Rightarrow> u64 \<times> 's) \<Rightarrow> string \<Rightarrow> bool \<Rightarrow> 's \<Rightarrow> (log_entry list \<times> 's) option" where
  "err_loop get_error msg first s =
     (case get_error s of (err, s) \<Rightarrow>
        if err = 0 then Some ([], s)
        else do {
          (ls, s) \<leftarrow> err_loop get_error msg False s;
          Some ((if first
                 then [(''ERROR'', ''CRYPTO'', ''%s: cryptographic operation failed'', [LStr msg])]
                 else [])
                @ (''DEBUG'', ''CRYPTO'', ''%s: detail: %s'', [LStr msg, LErr err]) # ls, s) })"

text \<open>The source after \<open>n\<close> questions.\<close>

definition asked :: "('s \<Rightarrow> u64 \<times> 's) \<Rightarrow> nat \<Rightarrow> 's \<Rightarrow> 's" where
  "asked get_error n = (snd \<circ> get_error) ^^ n"

lemma asked_0 [simp]: "asked get_error 0 s = s"
  by (simp add: asked_def)

lemma asked_Suc [simp]: "asked get_error (Suc n) s = asked get_error n (snd (get_error s))"
  by (simp add: asked_def funpow_swap1)

lemma err_loop_stops:
  "fst (get_error s) = 0 \<Longrightarrow> err_loop get_error msg first s = Some ([], snd (get_error s))"
  by (subst err_loop.simps) (simp add: case_prod_beta)

lemma err_loop_goes_on:
  assumes "fst (get_error s) \<noteq> 0"
  shows "(err_loop get_error msg first s = None) =
    (err_loop get_error msg False (snd (get_error s)) = None)"
  using assms by (subst err_loop.simps) (auto simp: case_prod_beta bind_eq_None_conv)

lemma err_loop_returns:
  assumes "fst (get_error (asked get_error n s)) = 0"
  shows "err_loop get_error msg first s \<noteq> None"
  using assms
proof (induction n arbitrary: s first)
  case 0
  then show ?case by (simp add: err_loop_stops)
next
  case (Suc n)
  then show ?case
    by (cases "fst (get_error s) = 0") (simp_all add: err_loop_stops err_loop_goes_on)
qed

lemma err_loop_asked:
  assumes "err_loop get_error msg first s = Some r"
  shows "\<exists>n. fst (get_error (asked get_error n s)) = 0 \<and> snd r = asked get_error (Suc n) s
    \<and> length (fst r) = n + of_bool (first \<and> 0 < n)"
proof (rule err_loop.raw_induct [OF _ assms], goal_cases)
  case (1 loop get_error msg first s r)
  show ?case
  proof (cases "fst (get_error s) = 0")
    case True
    with 1(2) show ?thesis by (intro exI [of _ 0]) (auto simp: case_prod_beta)
  next
    case False
    with 1(2) obtain ls s' where r: "loop get_error msg False (snd (get_error s)) = Some (ls, s')"
      "length (fst r) = Suc (length ls) + of_bool first" "snd r = s'"
      by (auto simp: case_prod_beta bind_eq_Some_conv)
    from 1(1) [OF r(1)] obtain n where "fst (get_error (asked get_error (Suc n) s)) = 0"
      "s' = asked get_error (Suc (Suc n)) s" "length ls = n" by auto
    with r(2,3) show ?thesis by (intro exI [of _ "Suc n"]) simp
  qed
qed

lemma err_loop_returns_iff:
  "(err_loop get_error msg first s \<noteq> None) = (\<exists>n. fst (get_error (asked get_error n s)) = 0)"
  using err_loop_returns [of get_error _ s msg first] err_loop_asked [of get_error msg first s]
  by auto

text \<open>
  What the loop relies on: every question that is answered by an error takes something away.
  OpenSSL's queue is such a source (it is a bounded ring, and \<open>ERR_get_error\<close> removes the
  entry it returns).
\<close>

locale error_source =
  fixes get_error :: "'s \<Rightarrow> u64 \<times> 's"
    and pending :: "'s \<Rightarrow> nat"
  assumes takes: "fst (get_error s) \<noteq> 0 \<Longrightarrow> pending (snd (get_error s)) < pending s"
begin

lemma answers_zero: "\<exists>n \<le> pending s. fst (get_error (asked get_error n s)) = 0"
proof (induction "pending s" arbitrary: s rule: less_induct)
  case less
  show ?case
  proof (cases "fst (get_error s) = 0")
    case True
    then show ?thesis by (intro exI [of _ 0]) simp
  next
    case False
    from less [OF takes [OF False]] obtain n where n: "n \<le> pending (snd (get_error s))"
      "fst (get_error (asked get_error n (snd (get_error s)))) = 0" by blast
    with takes [OF False] show ?thesis by (intro exI [of _ "Suc n"]) simp
  qed
qed

lemma loop_returns: "\<exists>ls s'. err_loop get_error msg first s = Some (ls, s')"
proof -
  have "err_loop get_error msg first s \<noteq> None"
    unfolding err_loop_returns_iff using answers_zero [of s] by blast
  then show ?thesis by (cases "err_loop get_error msg first s") auto
qed

end

definition ERR_get_error :: "u64 list \<Rightarrow> u64 \<times> u64 list" where
  "ERR_get_error q = (case q of [] \<Rightarrow> (0, []) | err # q \<Rightarrow> (err, q))"

lemma ERR_get_error_simps [simp]:
  "ERR_get_error [] = (0, [])" "ERR_get_error (err # q) = (err, q)"
  by (simp_all add: ERR_get_error_def)

interpretation openssl_errors: error_source ERR_get_error size
proof
  fix q assume "fst (ERR_get_error q) \<noteq> 0"
  then show "size (snd (ERR_get_error q)) < size q" by (cases q) simp_all
qed

lemma err_loop_queue: "err_loop ERR_get_error msg first q = Some (log_openssl_loop msg first q)"
proof (induction msg first q rule: log_openssl_loop.induct)
  case (1 msg first)
  then show ?case by (simp add: err_loop_stops)
next
  case (2 msg first err q)
  then show ?case
    by (subst err_loop.simps) (auto simp: case_prod_beta Let_def)
qed

text \<open>
  C16. Draining the error queue terminates: over any source of errors the loop of
  \<open>log_openssl_error\<close> returns if and only if some question is answered by 0; over OpenSSL's
  queue an answer 0 comes after at most as many questions as there are entries, and the
  loop returns with exactly the log lines and the rest of the queue that the model of
  \<open>log_openssl_error\<close> uses.
\<close>

theorem error_drain_terminates:
  fixes get_error :: "'s \<Rightarrow> u64 \<times> 's"
  shows "(err_loop get_error msg first s \<noteq> None) = (\<exists>n. fst (get_error (asked get_error n s)) = 0)
    \<and> (\<exists>n \<le> size q. fst (ERR_get_error (asked ERR_get_error n q)) = 0)
    \<and> err_loop ERR_get_error msg first q = Some (log_openssl_loop msg first q)"
  using err_loop_returns_iff [of get_error msg first s] openssl_errors.answers_zero [of q]
    err_loop_queue [of msg first q] by blast

end
