(* ===== verification/WalRecord.thy ===== *)
theory WalRecord
  imports Prelude
begin

text \<open>
  The write-ahead log record of the migration engine and the helpers around it, from the
  verification harnesses: \<open>verification/cbmc/cbmc_pqc_migration.c\<close> and
  \<open>cbmc_pqc_migration_actual.c\<close> (\<open>hex_nibble\<close>, \<open>mig_hex_to_bin\<close>, \<open>hash_key_id\<close>, \<open>wal_crc32\<close>,
  the record layout and the harness functions) and \<open>verification/framac/wp_pqc_wal.c\<close> (layout
  and validators). A harness is a function of its nondeterministic inputs that says whether
  all its assertions hold.
\<close>

subsection \<open>Hexadecimal input\<close>

text \<open>A \<open>char\<close> is its byte; every comparison below is with an ASCII letter or digit.\<close>

definition hex_nibble :: "byte \<Rightarrow> int" where
  "hex_nibble c =
     (if c \<ge> 48 \<and> c \<le> 57 then uint c - 48
      else if c \<ge> 97 \<and> c \<le> 102 then uint c - 97 + 10
      else if c \<ge> 65 \<and> c \<le> 70 then uint c - 65 + 10
      else -1)"

text \<open>
  The loop of \<open>mig_hex_to_bin\<close> from index \<open>i\<close>: the result and the output buffer. Reading
  past \<open>hex\<close> or writing past \<open>out\<close> is undefined behaviour.
\<close>

function hex_loop :: "nat \<Rightarrow> nat \<Rightarrow> bytes \<Rightarrow> bytes \<Rightarrow> (int \<times> bytes) option" where
  "hex_loop i bin_len hex out =
     (if i < bin_len then
        (if 2 * i + 1 < length hex then
           let hi = hex_nibble (hex ! (2 * i)); lo = hex_nibble (hex ! (2 * i + 1)) in
           if hi < 0 \<or> lo < 0 then Some (-1, out)
           else if i < length out
           then hex_loop (i + 1) bin_len hex (out[i := word_of_int (or (push_bit 4 hi) lo)])
           else None
         else None)
      else Some (int bin_len, out))"
  by pat_completeness auto

termination by (relation "measure (\<lambda>(i, bin_len, _, _). bin_len - i)") auto

declare hex_loop.simps [simp del]

definition mig_hex_to_bin :: "bytes \<Rightarrow> nat \<Rightarrow> bytes \<Rightarrow> nat \<Rightarrow> (int \<times> bytes) option" where
  "mig_hex_to_bin out out_max hex hex_len =
     (if hex_len mod 2 \<noteq> 0 then Some (-1, out)
      else let bin_len = hex_len div 2 in
      if bin_len > out_max then Some (-1, out)
      else hex_loop 0 bin_len hex out)"

lemma hex_nibble_range: "-1 \<le> hex_nibble c \<and> hex_nibble c \<le> 15"
  by (auto simp: hex_nibble_def word_le_def)

text \<open>What the loop computes: the pairs of digits as bytes, while they are digits.\<close>

definition is_hex :: "byte \<Rightarrow> bool" where
  "is_hex c \<longleftrightarrow> hex_nibble c \<ge> 0"

definition hex_byte :: "byte \<Rightarrow> byte \<Rightarrow> byte" where
  "hex_byte h l = word_of_int (16 * hex_nibble h + hex_nibble l)"

lemma or_nibbles:
  assumes "0 \<le> hi" "0 \<le> lo" "lo \<le> 15"
  shows "or (push_bit 4 hi) lo = 16 * hi + (lo :: int)"
proof -
  have "\<not> bit (push_bit 4 hi) n \<or> \<not> bit lo n" for n
  proof (cases "n < 4")
    case True
    then show ?thesis by (simp add: bit_push_bit_iff)
  next
    case False
    have "lo = take_bit 4 lo" using assms by (simp add: take_bit_int_eq_self)
    then have "bit lo n = (n < 4 \<and> bit lo n)" by (metis bit_take_bit_iff)
    with False show ?thesis by simp
  qed
  then have "push_bit 4 hi + lo = or (push_bit 4 hi) lo" by (rule disjunctive_add)
  then show ?thesis by (simp add: push_bit_eq_mult mult.commute)
qed

lemma hex_loop_spec:
  assumes "i \<le> bin_len" "2 * bin_len \<le> length hex" "bin_len \<le> length out"
  shows "\<exists>r out'. hex_loop i bin_len hex out = Some (r, out')
    \<and> length out' = length out \<and> drop bin_len out' = drop bin_len out
    \<and> (\<forall>j < i. out' ! j = out ! j)
    \<and> (if \<forall>j. 2 * i \<le> j \<and> j < 2 * bin_len \<longrightarrow> is_hex (hex ! j)
       then r = int bin_len
         \<and> (\<forall>j. i \<le> j \<and> j < bin_len \<longrightarrow> out' ! j = hex_byte (hex ! (2 * j)) (hex ! (2 * j + 1)))
       else r = -1)"
  using assms
proof (induction i bin_len hex out rule: hex_loop.induct)
  case (1 i bin_len hex out)
  show ?case
  proof (cases "i < bin_len")
    case False
    then have "i = bin_len" using 1(2) by simp
    then show ?thesis by (subst hex_loop.simps) auto
  next
    case lt: True
    let ?h = "hex ! (2 * i)" and ?l = "hex ! (2 * i + 1)"
    have rd: "2 * i + 1 < length hex" and wr: "i < length out" using lt 1(3,4) by simp_all
    show ?thesis
    proof (cases "is_hex ?h \<and> is_hex ?l")
      case False
      then have "hex_loop i bin_len hex out = Some (-1, out)"
        using lt rd by (subst hex_loop.simps) (auto simp: is_hex_def Let_def)
      moreover have "\<not> (\<forall>j. 2 * i \<le> j \<and> j < 2 * bin_len \<longrightarrow> is_hex (hex ! j))"
      proof
        assume all: "\<forall>j. 2 * i \<le> j \<and> j < 2 * bin_len \<longrightarrow> is_hex (hex ! j)"
        have "is_hex ?h" using all lt by simp
        moreover have "is_hex ?l" using all lt by simp
        ultimately show False using False by simp
      qed
      ultimately show ?thesis by auto
    next
      case True
      let ?b = "word_of_int (or (push_bit 4 (hex_nibble ?h)) (hex_nibble ?l)) :: byte"
      have b: "?b = hex_byte ?h ?l"
        using True hex_nibble_range [of ?l] by (simp add: hex_byte_def is_hex_def or_nibbles)
      have step: "hex_loop i bin_len hex out = hex_loop (i + 1) bin_len hex (out[i := ?b])"
        using lt rd wr True by (subst hex_loop.simps) (auto simp: is_hex_def Let_def)
      obtain r out' where IH: "hex_loop (i + 1) bin_len hex (out[i := ?b]) = Some (r, out')"
        "length out' = length out" "drop bin_len out' = drop bin_len (out[i := ?b])"
        "\<forall>j < i + 1. out' ! j = out[i := ?b] ! j"
        "if \<forall>j. 2 * (i + 1) \<le> j \<and> j < 2 * bin_len \<longrightarrow> is_hex (hex ! j)
         then r = int bin_len
           \<and> (\<forall>j. i + 1 \<le> j \<and> j < bin_len \<longrightarrow> out' ! j = hex_byte (hex ! (2 * j)) (hex ! (2 * j + 1)))
         else r = -1"
        using "1.IH" [OF lt rd refl refl _ wr] True lt 1(3,4) by (auto simp: is_hex_def)
      have all: "(\<forall>j. 2 * i \<le> j \<and> j < 2 * bin_len \<longrightarrow> is_hex (hex ! j)) =
          (\<forall>j. 2 * (i + 1) \<le> j \<and> j < 2 * bin_len \<longrightarrow> is_hex (hex ! j))"
      proof (intro iffI allI impI)
        fix j assume a: "\<forall>j. 2 * (i + 1) \<le> j \<and> j < 2 * bin_len \<longrightarrow> is_hex (hex ! j)"
          "2 * i \<le> j \<and> j < 2 * bin_len"
        then have "j = 2 * i \<or> j = 2 * i + 1 \<or> 2 * (i + 1) \<le> j" by arith
        then show "is_hex (hex ! j)" using a True by auto
      qed auto
      have "out' ! i = hex_byte ?h ?l" using IH(4) wr b by simp
      then have nth: "out' ! j = hex_byte (hex ! (2 * j)) (hex ! (2 * j + 1))"
        if "\<forall>j. i + 1 \<le> j \<and> j < bin_len \<longrightarrow> out' ! j = hex_byte (hex ! (2 * j)) (hex ! (2 * j + 1))"
          "i \<le> j \<and> j < bin_len" for j
        using that by (cases "j = i") auto
      show ?thesis
        unfolding step IH(1) all using IH(2-5) lt nth by auto
    qed
  qed
qed

subsection \<open>Key hash and checksum\<close>

definition MIGRATION_HASH_BUCKETS :: u32 where
  "MIGRATION_HASH_BUCKETS = 8192"

fun hash_loop :: "u32 \<Rightarrow> bytes \<Rightarrow> u32 option" where
  "hash_loop h [] = None"
| "hash_loop h (p # ps) =
     (if p = 0 then Some h else hash_loop ((h XOR ucast p) * 16777619) ps)"

definition hash_key_id :: "bytes \<Rightarrow> u32 option" where
  "hash_key_id key_id = map_option (\<lambda>h. h mod MIGRATION_HASH_BUCKETS) (hash_loop 2166136261 key_id)"

definition crc_bit :: "u32 \<Rightarrow> u32" where
  "crc_bit crc = drop_bit 1 crc XOR (0xEDB88320 AND - (crc AND 1))"

fun crc_bits :: "nat \<Rightarrow> u32 \<Rightarrow> u32" where
  "crc_bits 0 crc = crc"
| "crc_bits (Suc j) crc = crc_bits j (crc_bit crc)"

fun crc_loop :: "u32 \<Rightarrow> bytes \<Rightarrow> u32" where
  "crc_loop crc [] = crc"
| "crc_loop crc (p # ps) = crc_loop (crc_bits 8 (crc XOR ucast p)) ps"

definition wal_crc32 :: "bytes \<Rightarrow> nat \<Rightarrow> u32 option" where
  "wal_crc32 data len =
     (if len \<le> length data then Some (NOT (crc_loop 0xFFFFFFFF (take len data))) else None)"

text \<open>
  One bit step is injective: the polynomial has its top bit set and \<open>drop_bit 1\<close> clears it, so
  the top bit of the result is the bit shifted out. It is linear over exclusive or, and a
  word whose low bits are clear is only shifted; so feeding \<open>n \<le> 4\<close> bytes one by one is
  feeding them all at once into the register.
\<close>

lemma neg_low_bit: "- (c AND 1 :: u32) = (if odd c then - 1 else 0)"
  by (simp add: and_one_eq odd_iff_mod_2_eq_one)

lemma crc_bit_eq: "crc_bit c = (if odd c then drop_bit 1 c XOR 0xEDB88320 else drop_bit 1 c)"
  by (simp add: crc_bit_def neg_low_bit)

lemma top_bit_poly: "bit (0xEDB88320 :: u32) 31"
  by simp

lemma crc_bit_top: "bit (crc_bit c) 31 = odd c"
  by (auto simp: crc_bit_eq bit_xor_iff bit_drop_bit_eq dest: bit_imp_le_length)

lemma inj_crc_bit: "crc_bit c = crc_bit d \<longleftrightarrow> c = d"
proof
  assume eq: "crc_bit c = crc_bit d"
  then have odd: "odd c = odd d" by (metis crc_bit_top)
  have "drop_bit 1 c = drop_bit 1 d"
  proof (cases "odd c")
    case True
    then have "(drop_bit 1 c XOR 0xEDB88320) XOR 0xEDB88320 =
        (drop_bit 1 d XOR 0xEDB88320) XOR (0xEDB88320 :: u32)"
      using eq odd by (simp add: crc_bit_eq)
    then show ?thesis by (simp only: xor.assoc xor_self_eq xor.right_neutral)
  next
    case False
    then show ?thesis using eq odd by (simp add: crc_bit_eq)
  qed
  show "c = d"
  proof (rule bit_word_eqI)
    fix n assume n: "n < LENGTH(32)"
    show "bit c n = bit d n"
    proof (cases n)
      case 0
      then show ?thesis using odd by (simp add: bit_0)
    next
      case (Suc m)
      then show ?thesis
        using \<open>drop_bit 1 c = drop_bit 1 d\<close> by (metis bit_drop_bit_eq comp_apply plus_1_eq_Suc)
    qed
  qed
qed simp

lemma inj_crc_bits: "crc_bits n c = crc_bits n d \<longleftrightarrow> c = d"
  by (induction n arbitrary: c d) (simp_all add: inj_crc_bit)

lemma crc_loop_append: "crc_loop c (xs @ ys) = crc_loop (crc_loop c xs) ys"
  by (induction c xs rule: crc_loop.induct) simp_all

lemma xor_cancel: "(c XOR x = d XOR x) = (c = d)" for c d x :: u32
proof
  assume "c XOR x = d XOR x"
  then have "(c XOR x) XOR x = (d XOR x) XOR x" by (rule arg_cong)
  then show "c = d" by (simp only: xor.assoc xor_self_eq xor.right_neutral)
qed simp

lemma inj_crc_loop: "crc_loop c xs = crc_loop d xs \<longleftrightarrow> c = d"
proof (induction xs arbitrary: c d)
  case (Cons x xs)
  show ?case unfolding crc_loop.simps Cons.IH inj_crc_bits xor_cancel by (rule refl)
qed simp

lemma crc_bits_shift:
  assumes "\<forall>i < n. \<not> bit x i"
  shows "crc_bits n (c XOR x) = crc_bits n c XOR drop_bit n x"
  using assms
proof (induction n arbitrary: c x)
  case (Suc n)
  have "even x" using Suc.prems by (metis bit_0 zero_less_Suc)
  then have "crc_bit (c XOR x) = crc_bit c XOR drop_bit 1 x"
    by (simp add: crc_bit_eq drop_bit_xor xor.assoc xor.left_commute even_xor_iff)
      (simp add: xor.commute)
  moreover have "\<forall>i < n. \<not> bit (drop_bit 1 x) i"
    using Suc.prems by (simp add: bit_drop_bit_eq)
  ultimately show ?case
    using Suc.IH [of "drop_bit 1 x" "crc_bit c"] by (simp add: drop_bit_drop_bit)
qed simp

lemma crc_bits_add: "crc_bits (m + n) c = crc_bits n (crc_bits m c)"
  by (induction m arbitrary: c) simp_all

lemma read_le_Cons_xor: "(read_le (b # bs) :: u32) = ucast b XOR push_bit 8 (read_le bs)"
  by (rule bit_word_eqI) (auto simp: bit_simps dest: bit_imp_le_length)

lemma crc_loop_burst:
  "length u \<le> 4 \<Longrightarrow> crc_loop c u = crc_bits (8 * length u) (c XOR read_le u)"
proof (induction u arbitrary: c)
  case (Cons b bs)
  have small: "n < 24" if "bit (read_le bs :: u32) n" for n
  proof -
    have "n div 8 < length bs" using that by (simp add: bit_read_le)
    with Cons.prems have "n div 8 < 3" by simp
    then show ?thesis by arith
  qed
  have low: "\<forall>i < 8. \<not> bit (push_bit 8 (read_le bs) :: u32) i"
    by (simp add: bit_push_bit_iff)
  have unshift: "drop_bit 8 (push_bit 8 (read_le bs) :: u32) = read_le bs"
    by (rule bit_word_eqI) (auto simp: bit_simps dest: small)
  have "crc_bits (8 * length (b # bs)) (c XOR read_le (b # bs)) =
      crc_bits (8 * length bs) (crc_bits 8 ((c XOR ucast b) XOR push_bit 8 (read_le bs)))"
    by (simp only: read_le_Cons_xor xor.assoc list.size mult_Suc_right add_0 flip: crc_bits_add)
      (simp add: add.commute)
  also have "\<dots> = crc_bits (8 * length bs) (crc_bits 8 (c XOR ucast b) XOR read_le bs)"
    by (simp only: crc_bits_shift [OF low] unshift)
  also have "\<dots> = crc_loop (crc_bits 8 (c XOR ucast b)) bs"
    using Cons by simp
  finally show ?case by simp
qed simp

lemma read_le_inj:
  assumes "length u = length v" "8 * length u \<le> LENGTH('a)" "(read_le u :: 'a::len word) = read_le v"
  shows "u = v"
proof (rule nth_equalityI [OF assms(1)])
  fix i assume i: "i < length u"
  show "u ! i = v ! i"
  proof (rule bit_word_eqI)
    fix n assume n: "n < LENGTH(8)"
    then have "(8 * i + n) div 8 = i" "(8 * i + n) mod 8 = n" by simp_all
    moreover have "8 * i + n < LENGTH('a)"
    proof -
      have "8 * Suc i \<le> 8 * length u" using i by simp
      with n assms(2) show ?thesis by simp
    qed
    moreover have "bit (read_le u :: 'a word) (8 * i + n) = bit (read_le v :: 'a word) (8 * i + n)"
      using assms(3) by simp
    ultimately show "bit (u ! i) n = bit (v ! i) n"
      using i assms(1) by (simp add: bit_read_le)
  qed
qed

subsection \<open>The record\<close>

definition MIGRATION_WAL_MAGIC :: u64 where "MIGRATION_WAL_MAGIC = 0x0047494D5F474948"
definition MIGRATION_WAL_VERSION :: byte where "MIGRATION_WAL_VERSION = 2"
definition MIGRATION_KEY_ID_LEN :: nat where "MIGRATION_KEY_ID_LEN = 65"

record MigrationWALRecord =
  magic :: u64
  version :: byte
  operation :: byte
  key_id :: bytes
  new_state :: byte
  seq :: u64
  peer_state :: byte
  peer_shard_id :: u32
  peer_updated_at :: u64
  crc32 :: u32

text \<open>
  The packed struct in memory (little-endian, as on the supported targets), with \<open>offsetof\<close>
  and \<open>sizeof\<close> read off the fields in order.
\<close>

definition wal_fields :: "MigrationWALRecord \<Rightarrow> (string \<times> bytes) list" where
  "wal_fields r =
     [(''magic'', le_bytes 8 (magic r)),
      (''version'', [version r]),
      (''operation'', [operation r]),
      (''key_id'', key_id r),
      (''new_state'', [new_state r]),
      (''seq'', le_bytes 8 (seq r)),
      (''peer_state'', [peer_state r]),
      (''peer_shard_id'', le_bytes 4 (peer_shard_id r)),
      (''peer_updated_at'', le_bytes 8 (peer_updated_at r)),
      (''crc32'', le_bytes 4 (crc32 r))]"

fun offset_in :: "string \<Rightarrow> (string \<times> bytes) list \<Rightarrow> nat" where
  "offset_in f [] = 0"
| "offset_in f ((g, bs) # fs) = (if f = g then 0 else length bs + offset_in f fs)"

definition wal_bytes :: "MigrationWALRecord \<Rightarrow> bytes" where
  "wal_bytes r = concat (map snd (wal_fields r))"

definition wal_zero :: MigrationWALRecord where
  "wal_zero = \<lparr>magic = 0, version = 0, operation = 0, key_id = replicate MIGRATION_KEY_ID_LEN 0,
     new_state = 0, seq = 0, peer_state = 0, peer_shard_id = 0, peer_updated_at = 0, crc32 = 0\<rparr>"

definition wal_record_size :: nat where
  "wal_record_size = length (wal_bytes wal_zero)"

definition wal_offsetof :: "string \<Rightarrow> nat" where
  "wal_offsetof f = offset_in f (wal_fields wal_zero)"

definition wal_crc_data_length :: nat where
  "wal_crc_data_length = wal_offsetof ''crc32''"

definition wal_crc_is_last_field :: int where
  "wal_crc_is_last_field = (if wal_offsetof ''crc32'' + 4 = wal_record_size then 1 else 0)"

definition wal_validate_magic :: "u64 \<Rightarrow> int" where
  "wal_validate_magic m = (if m = MIGRATION_WAL_MAGIC then 1 else 0)"

definition wal_validate_version :: "byte \<Rightarrow> int" where
  "wal_validate_version v = (if v = MIGRATION_WAL_VERSION then 1 else 0)"

definition wal_validate_operation :: "byte \<Rightarrow> int" where
  "wal_validate_operation op = (if op \<le> 5 then 1 else 0)"

definition wal_validate_state :: "byte \<Rightarrow> int" where
  "wal_validate_state st = (if st \<le> 3 then 1 else 0)"

definition wal_next_seq :: "u64 \<Rightarrow> u64" where
  "wal_next_seq prev_seq = prev_seq + 1"

text \<open>The reader of the layout, and the codec it forms with the writer.\<close>

definition get_le :: "nat \<Rightarrow> bytes \<Rightarrow> ('a::len word \<times> bytes) option" where
  "get_le k bs = (if k \<le> length bs then Some (read_le (take k bs), drop k bs) else None)"

definition get_bytes :: "nat \<Rightarrow> bytes \<Rightarrow> (bytes \<times> bytes) option" where
  "get_bytes k bs = (if k \<le> length bs then Some (take k bs, drop k bs) else None)"

fun get_byte :: "bytes \<Rightarrow> (byte \<times> bytes) option" where
  "get_byte [] = None"
| "get_byte (b # bs) = Some (b, bs)"

definition get_wal :: "bytes \<Rightarrow> (MigrationWALRecord \<times> bytes) option" where
  "get_wal bs = do {
     (m, bs) \<leftarrow> get_le 8 bs;
     (v, bs) \<leftarrow> get_byte bs;
     (opr, bs) \<leftarrow> get_byte bs;
     (k, bs) \<leftarrow> get_bytes MIGRATION_KEY_ID_LEN bs;
     (st, bs) \<leftarrow> get_byte bs;
     (s, bs) \<leftarrow> get_le 8 bs;
     (ps, bs) \<leftarrow> get_byte bs;
     (pid, bs) \<leftarrow> get_le 4 bs;
     (pu, bs) \<leftarrow> get_le 8 bs;
     (c, bs) \<leftarrow> get_le 4 bs;
     Some (\<lparr>magic = m, version = v, operation = opr, key_id = k, new_state = st, seq = s,
       peer_state = ps, peer_shard_id = pid, peer_updated_at = pu, crc32 = c\<rparr>, bs) }"

lemma get_le_put: "LENGTH('a) \<le> 8 * k \<Longrightarrow>
    get_le k (le_bytes k (v :: 'a::len word) @ bs) = Some (v, bs)"
  by (simp add: get_le_def read_le_le_bytes)

lemma get_bytes_put: "length xs = k \<Longrightarrow> get_bytes k (xs @ bs) = Some (xs, bs)"
  by (auto simp: get_bytes_def)

interpretation wal: stream_codec wal_bytes get_wal "\<lambda>r. length (key_id r) = MIGRATION_KEY_ID_LEN"
  by unfold_locales
    (simp add: wal_bytes_def wal_fields_def get_wal_def get_le_put get_bytes_put)

lemma length_wal_bytes:
  "length (key_id r) = MIGRATION_KEY_ID_LEN \<Longrightarrow> length (wal_bytes r) = 101"
  by (simp add: wal_bytes_def wal_fields_def MIGRATION_KEY_ID_LEN_def)

subsection \<open>Harnesses\<close>

definition harness_hex_nibble :: "byte \<Rightarrow> bool" where
  "harness_hex_nibble c \<longleftrightarrow>
     (let result = hex_nibble c in
      result \<ge> -1 \<and> result \<le> 15
      \<and> (if c \<ge> 48 \<and> c \<le> 57 then result = uint c - 48 \<and> result \<ge> 0 \<and> result \<le> 9
         else if c \<ge> 97 \<and> c \<le> 102 then result = uint c - 97 + 10 \<and> result \<ge> 10 \<and> result \<le> 15
         else if c \<ge> 65 \<and> c \<le> 70 then result = uint c - 65 + 10 \<and> result \<ge> 10 \<and> result \<le> 15
         else result = -1))"

text \<open>The eight characters of \<open>hex\<close> are the nondeterministic input; \<open>None\<close> is undefined behaviour.\<close>

definition harness_hex_to_bin :: "bytes \<Rightarrow> bool option" where
  "harness_hex_to_bin hex = do {
     let out = replicate 5 0xAA;
     (result, out) \<leftarrow> mig_hex_to_bin out 4 hex 8;
     let ok1 = (if result \<ge> 0
                then result = 4 \<and> (\<forall>i < nat result. out ! i \<le> 0xFF) \<and> out ! 4 = 0xAA
                else result = -1);
     (odd_result, out) \<leftarrow> mig_hex_to_bin out 5 hex 7;
     (small_result, out) \<leftarrow> mig_hex_to_bin out 3 hex 8;
     Some (ok1 \<and> odd_result = -1 \<and> small_result = -1) }"

definition fill_key :: "byte \<Rightarrow> bytes \<Rightarrow> bytes" where
  "fill_key d cs = map (\<lambda>c. if c = 0 then d else c) cs @ [0]"

definition harness_hash_key_id :: "bytes \<Rightarrow> bool option" where
  "harness_hash_key_id cs = do {
     result \<leftarrow> hash_key_id (fill_key 97 cs);
     Some (result < MIGRATION_HASH_BUCKETS) }"

definition harness_hash_key_id_bounded :: "bytes \<Rightarrow> bool option" where
  "harness_hash_key_id_bounded cs = do {
     h1 \<leftarrow> hash_key_id (fill_key 120 cs);
     h2 \<leftarrow> hash_key_id (fill_key 120 cs);
     Some (h1 < MIGRATION_HASH_BUCKETS \<and> h1 = h2) }"

definition harness_wal_crc32_determinism :: "bytes \<Rightarrow> bool option" where
  "harness_wal_crc32_determinism data = do {
     crc1 \<leftarrow> wal_crc32 data 16;
     crc2 \<leftarrow> wal_crc32 data 16;
     Some (crc1 = crc2) }"

definition harness_hex_nibble_exhaustive :: "byte \<Rightarrow> bool" where
  "harness_hex_nibble_exhaustive c \<longleftrightarrow>
     (let r = hex_nibble c in
      r \<ge> -1 \<and> r \<le> 15
      \<and> (if c \<ge> 48 \<and> c \<le> 57 then r = uint c - 48
         else if c \<ge> 97 \<and> c \<le> 102 then r = uint c - 97 + 10
         else if c \<ge> 65 \<and> c \<le> 70 then r = uint c - 65 + 10
         else r = -1))"

definition harness_wal_record_layout :: bool where
  "harness_wal_record_layout \<longleftrightarrow>
     wal_record_size = 8 + 1 + 1 + 65 + 1 + 8 + 1 + 4 + 8 + 4
     \<and> wal_offsetof ''magic'' = 0 \<and> wal_offsetof ''version'' = 8 \<and> wal_offsetof ''operation'' = 9
     \<and> wal_offsetof ''key_id'' = 10 \<and> wal_offsetof ''new_state'' = 75 \<and> wal_offsetof ''seq'' = 76
     \<and> wal_offsetof ''peer_state'' = 84 \<and> wal_offsetof ''peer_shard_id'' = 85
     \<and> wal_offsetof ''peer_updated_at'' = 89 \<and> wal_offsetof ''crc32'' = 97
     \<and> wal_offsetof ''crc32'' = wal_record_size - 4"

definition test_record :: MigrationWALRecord where
  "test_record = wal_zero\<lparr>magic := MIGRATION_WAL_MAGIC, version := MIGRATION_WAL_VERSION,
     operation := 1, key_id := bytes_of ''test_key_001'' @ replicate 53 0, new_state := 1,
     seq := 42\<rparr>"

definition harness_wal_crc_on_actual_struct :: "bool option" where
  "harness_wal_crc_on_actual_struct = do {
     let r = test_record;
     let crc_data_len = wal_offsetof ''crc32'';
     c \<leftarrow> wal_crc32 (wal_bytes r) crc_data_len;
     let r = r\<lparr>crc32 := c\<rparr>;
     crc_check \<leftarrow> wal_crc32 (wal_bytes r) crc_data_len;
     crc_tampered \<leftarrow> wal_crc32 (wal_bytes (r\<lparr>operation := 2\<rparr>)) crc_data_len;
     crc_bad_magic \<leftarrow> wal_crc32 (wal_bytes (r\<lparr>magic := 0xDEADBEEF\<rparr>)) crc_data_len;
     Some (crc_data_len = wal_record_size - 4 \<and> crc_data_len > 0 \<and> crc_check = crc32 r
       \<and> crc_tampered \<noteq> crc32 r \<and> crc_bad_magic \<noteq> crc32 r) }"

definition harness_wal_magic_validation :: bool where
  "harness_wal_magic_validation \<longleftrightarrow>
     magic (wal_zero\<lparr>magic := MIGRATION_WAL_MAGIC\<rparr>) = MIGRATION_WAL_MAGIC
     \<and> magic (wal_zero\<lparr>magic := 0xDEADBEEFCAFEBAAD\<rparr>) \<noteq> MIGRATION_WAL_MAGIC
     \<and> magic wal_zero \<noteq> MIGRATION_WAL_MAGIC"

subsection \<open>Properties\<close>

lemma wal_layout:
  "wal_record_size = 101" "wal_offsetof ''magic'' = 0" "wal_offsetof ''version'' = 8"
  "wal_offsetof ''operation'' = 9" "wal_offsetof ''key_id'' = 10" "wal_offsetof ''new_state'' = 75"
  "wal_offsetof ''seq'' = 76" "wal_offsetof ''peer_state'' = 84"
  "wal_offsetof ''peer_shard_id'' = 85" "wal_offsetof ''peer_updated_at'' = 89"
  "wal_offsetof ''crc32'' = 97"
  by (simp_all add: wal_record_size_def length_wal_bytes wal_zero_def wal_offsetof_def
      wal_fields_def MIGRATION_KEY_ID_LEN_def)

lemma crc_burst:
  assumes "length u = length v" "length u \<le> 4"
  shows "crc_loop c (p @ u @ s) = crc_loop c (p @ v @ s) \<longleftrightarrow> u = v"
proof
  assume "crc_loop c (p @ u @ s) = crc_loop c (p @ v @ s)"
  then have "crc_loop (crc_loop c p) u = crc_loop (crc_loop c p) v"
    by (simp add: crc_loop_append inj_crc_loop)
  then have "read_le u XOR crc_loop c p = read_le v XOR crc_loop c p"
    using assms by (simp add: crc_loop_burst inj_crc_bits xor.commute)
  then have "(read_le u :: u32) = read_le v" by (simp only: xor_cancel)
  then show "u = v" using assms by (intro read_le_inj [where 'a = 32]) simp_all
qed simp

text \<open>
  C20. The checksum detects every error burst of up to four bytes: two byte strings that
  differ only inside a window of at most four consecutive bytes have different values of
  \<open>wal_crc32\<close>, at any position and for any length.
\<close>

theorem wal_crc32_detects_bursts:
  assumes "length u = length v" "length u \<le> 4"
  shows "wal_crc32 (p @ u @ s) (length (p @ u @ s)) = wal_crc32 (p @ v @ s) (length (p @ u @ s))
    \<longleftrightarrow> u = v"
  using crc_burst [OF assms, of _ p s] assms(1) by (simp add: wal_crc32_def)

lemma wal_crc32_detects_bursts_witness:
  "wal_crc32 ([1, 2] @ [3, 4, 5, 6] @ [7]) (length ([1, 2] @ [3, 4, 5, 6] @ [7 :: byte])) \<noteq>
   wal_crc32 ([1, 2] @ [3, 4, 9, 6] @ [7]) (length ([1, 2] @ [3, 4, 5, 6] @ [7 :: byte]))"
proof -
  have "length [3, 4, 5, 6 :: byte] = length [3, 4, 9, 6 :: byte]" "length [3, 4, 5, 6 :: byte] \<le> 4"
    "[3, 4, 5, 6 :: byte] \<noteq> [3, 4, 9, 6]" by simp_all
  then show ?thesis
    using wal_crc32_detects_bursts [of "[3, 4, 5, 6]" "[3, 4, 9, 6]" "[1, 2]" "[7]"] by blast
qed





lemma hash_loop_terminated: "0 \<in> set bs \<Longrightarrow> \<exists>h'. hash_loop h bs = Some h'"
  by (induction h bs rule: hash_loop.induct) auto

lemma fill_key_terminated: "0 \<in> set (fill_key d cs)"
  by (simp add: fill_key_def)

lemma hash_key_id_bounded:
  assumes "0 \<in> set key"
  shows "\<exists>h. hash_key_id key = Some h \<and> h < MIGRATION_HASH_BUCKETS"
proof -
  obtain h where "hash_loop 2166136261 key = Some h"
    using hash_loop_terminated [OF assms] by blast
  moreover have "h mod MIGRATION_HASH_BUCKETS < MIGRATION_HASH_BUCKETS"
    by (simp add: MIGRATION_HASH_BUCKETS_def word_less_nat_alt unat_mod)
  ultimately show ?thesis by (simp add: hash_key_id_def)
qed

lemma harness_hex_nibble_ok: "harness_hex_nibble c \<and> harness_hex_nibble_exhaustive c"
proof -
  have "harness_hex_nibble c"
    by (auto simp: harness_hex_nibble_def hex_nibble_def word_le_def)
  then show ?thesis by (auto simp: harness_hex_nibble_def harness_hex_nibble_exhaustive_def Let_def)
qed

lemma harness_hex_to_bin_ok:
  assumes "length hex = 8"
  shows "harness_hex_to_bin hex = Some True"
proof -
  let ?o = "replicate 5 (0xAA :: byte)"
  obtain r out where 1: "hex_loop 0 4 hex ?o = Some (r, out)" "length out = 5"
    "drop 4 out = drop 4 ?o" "r = 4 \<or> r = -1"
    using hex_loop_spec [of 0 4 hex ?o] assms by (auto split: if_splits)
  have "out ! 4 = drop 4 out ! 0" using 1(2) by simp
  then have canary: "out ! 4 = 0xAA" using 1(3) by (simp add: eval_nat_numeral)
  have "out ! i \<le> 0xFF" for i
  proof -
    have "(0xFF :: byte) = - 1" by simp
    then show ?thesis by (metis word_n1_ge)
  qed
  then show ?thesis
    using 1(1,4) canary by (auto simp: harness_hex_to_bin_def mig_hex_to_bin_def Let_def)
qed

lemma crc_bits_8:
  "crc_bits 8 c = crc_bit (crc_bit (crc_bit (crc_bit (crc_bit (crc_bit (crc_bit (crc_bit c)))))))"
  by (simp add: eval_nat_numeral)

lemma magic_bytes:
  "le_bytes 8 (0xDEADBEEF :: u64) = [0xEF, 0xBE, 0xAD, 0xDE, 0, 0, 0, 0]"
  "le_bytes 8 MIGRATION_WAL_MAGIC = [0x48, 0x49, 0x47, 0x5F, 0x4D, 0x49, 0x47, 0]"
  by (simp_all add: le_bytes_def byte_at_def upt_rec MIGRATION_WAL_MAGIC_def)

lemma test_record_crc:
  "harness_wal_crc_on_actual_struct = Some True"
proof -
  have split: "take 97 (wal_bytes (r\<lparr>crc32 := c, magic := m, operation := x\<rparr>)) =
      le_bytes 8 m @ [version r] @ [x] @
      (key_id r @ [new_state r] @ le_bytes 8 (seq r) @ [peer_state r] @ le_bytes 4 (peer_shard_id r)
       @ le_bytes 8 (peer_updated_at r))"
    if "length (key_id r) = MIGRATION_KEY_ID_LEN" for r c m x
    using that by (simp add: wal_bytes_def wal_fields_def MIGRATION_KEY_ID_LEN_def)
  let ?r = "test_record"
  have key: "length (key_id ?r) = MIGRATION_KEY_ID_LEN"
    by (simp add: test_record_def MIGRATION_KEY_ID_LEN_def)
  define crc where "crc m x = NOT (crc_loop 0xFFFFFFFF ((le_bytes 8 m @ [version ?r]) @ [x] @
      (key_id ?r @ [new_state ?r] @ le_bytes 8 (seq ?r) @ [peer_state ?r]
       @ le_bytes 4 (peer_shard_id ?r) @ le_bytes 8 (peer_updated_at ?r))))" for m :: u64 and x
  have val: "wal_crc32 (wal_bytes (?r\<lparr>crc32 := c, magic := m, operation := x\<rparr>)) 97 = Some (crc m x)"
    for c m x
    using length_wal_bytes [of "?r\<lparr>crc32 := c, magic := m, operation := x\<rparr>"] key split [OF key]
    by (simp add: wal_crc32_def crc_def)
  have "crc MIGRATION_WAL_MAGIC 2 \<noteq> crc MIGRATION_WAL_MAGIC 1"
    unfolding crc_def using crc_burst [of "[2]" "[1]"] by (simp del: append_assoc append.simps)
  moreover have "crc 0xDEADBEEF 1 \<noteq> crc MIGRATION_WAL_MAGIC 1"
  proof -
    have "crc_loop 0xFFFFFFFF (le_bytes 8 (0xDEADBEEF :: u64)) \<noteq>
        crc_loop 0xFFFFFFFF (le_bytes 8 MIGRATION_WAL_MAGIC)"
      unfolding magic_bytes by (simp add: crc_bits_8 crc_bit_eq)
    then show ?thesis by (simp add: crc_def crc_loop_append inj_crc_loop inj_crc_bits xor_cancel)
  qed
  moreover have eqs:
    "?r\<lparr>crc32 := c\<rparr> = ?r\<lparr>crc32 := c, magic := MIGRATION_WAL_MAGIC, operation := 1\<rparr>"
    "?r\<lparr>crc32 := c, operation := 2\<rparr> = ?r\<lparr>crc32 := c, magic := MIGRATION_WAL_MAGIC, operation := 2\<rparr>"
    "?r\<lparr>crc32 := c, magic := 0xDEADBEEF\<rparr> = ?r\<lparr>crc32 := c, magic := 0xDEADBEEF, operation := 1\<rparr>"
    "?r\<lparr>crc32 := 0\<rparr> = ?r" for c
    by (simp_all add: test_record_def wal_zero_def)
  moreover have "wal_crc32 (wal_bytes (?r\<lparr>crc32 := c\<rparr>)) 97 = Some (crc MIGRATION_WAL_MAGIC 1)"
    "wal_crc32 (wal_bytes (?r\<lparr>crc32 := c, operation := 2\<rparr>)) 97 = Some (crc MIGRATION_WAL_MAGIC 2)"
    "wal_crc32 (wal_bytes (?r\<lparr>crc32 := c, magic := 0xDEADBEEF\<rparr>)) 97 = Some (crc 0xDEADBEEF 1)" for c
    by (subst eqs, rule val)+
  moreover from this(1) [of 0] have "wal_crc32 (wal_bytes ?r) 97 = Some (crc MIGRATION_WAL_MAGIC 1)"
    unfolding eqs(4) .
  ultimately show ?thesis
    by (simp add: harness_wal_crc_on_actual_struct_def Let_def wal_layout)
qed

text \<open>
  The assertions of the harnesses hold for every value of their nondeterministic inputs,
  not only up to the unwinding bound of the model checker, and none of them runs into
  undefined behaviour.
\<close>

lemma wal_harnesses_hold:
  assumes "length hex = 8" "length cs = 8" "length ks = 16" "length data = 16"
  shows "harness_hex_nibble c \<and> harness_hex_nibble_exhaustive c
    \<and> harness_hex_to_bin hex = Some True
    \<and> harness_hash_key_id cs = Some True
    \<and> harness_hash_key_id_bounded ks = Some True
    \<and> harness_wal_crc32_determinism data = Some True
    \<and> harness_wal_record_layout
    \<and> harness_wal_crc_on_actual_struct = Some True
    \<and> harness_wal_magic_validation"
proof -
  have "harness_hash_key_id cs = Some True" "harness_hash_key_id_bounded ks = Some True"
    using hash_key_id_bounded [OF fill_key_terminated [of 97 cs]]
      hash_key_id_bounded [OF fill_key_terminated [of 120 ks]]
    by (auto simp: harness_hash_key_id_def harness_hash_key_id_bounded_def)
  moreover have "harness_wal_crc32_determinism data = Some True"
    using assms(4) by (simp add: harness_wal_crc32_determinism_def wal_crc32_def)
  moreover have "harness_wal_record_layout"
    by (simp add: harness_wal_record_layout_def wal_layout)
  moreover have "harness_wal_magic_validation"
    by (simp add: harness_wal_magic_validation_def MIGRATION_WAL_MAGIC_def wal_zero_def)
  ultimately show ?thesis
    using harness_hex_nibble_ok harness_hex_to_bin_ok [OF assms(1)] test_record_crc by blast
qed

lemma wal_harnesses_hold_witness:
  "harness_hex_to_bin (replicate 8 48) = Some True \<and> harness_hash_key_id (replicate 8 0) = Some True"
  using wal_harnesses_hold [of "replicate 8 48" "replicate 8 0" "replicate 16 1" "replicate 16 1"]
  by simp

end
