(* ===== verification/Migration.thy ===== *)
theory Migration
  imports WalRecord
begin

text \<open>
  The key migration state machine, as the verification sources state it:
  \<open>is_valid_transition\<close> and the harnesses of \<open>verification/cbmc/cbmc_pqc_migration.c\<close> and
  \<open>cbmc_pqc_migration_actual.c\<close>, and the guards and key-existence functions of
  \<open>verification/framac/wp_pqc_migration.c\<close> and \<open>wp_pqc_wal.c\<close>. An abstract machine over a
  datatype of phases is the specification; the coded relation is shown to refine it, and the
  runs of the coded relation are analysed.
\<close>

subsection \<open>Coded states, transitions and guards\<close>

definition MIGRATION_CLASSICAL :: byte where "MIGRATION_CLASSICAL = 0"
definition MIGRATION_HYBRID :: byte where "MIGRATION_HYBRID = 1"
definition MIGRATION_FINALIZING :: byte where "MIGRATION_FINALIZING = 2"
definition MIGRATION_PQC_ONLY :: byte where "MIGRATION_PQC_ONLY = 3"
definition MIGRATION_MAX_RECORDS :: u64 where "MIGRATION_MAX_RECORDS = 4096"

lemmas migration_codes = MIGRATION_CLASSICAL_def MIGRATION_HYBRID_def MIGRATION_FINALIZING_def
  MIGRATION_PQC_ONLY_def

definition is_valid_transition :: "byte \<Rightarrow> byte \<Rightarrow> byte \<Rightarrow> bool" where
  "is_valid_transition from_state to_state opr =
     (if opr = 0 then to_state = MIGRATION_CLASSICAL
      else if opr = 1 then from_state = MIGRATION_CLASSICAL \<and> to_state = MIGRATION_HYBRID
      else if opr = 2 then from_state = MIGRATION_HYBRID \<and> to_state = MIGRATION_PQC_ONLY
      else if opr = 3 then (from_state = MIGRATION_HYBRID \<or> from_state = MIGRATION_FINALIZING)
        \<and> to_state = MIGRATION_CLASSICAL
      else if opr = 4 then from_state = MIGRATION_HYBRID \<and> to_state = MIGRATION_FINALIZING
      else False)"

definition begin_migration_guard :: "int \<Rightarrow> int" where
  "begin_migration_guard state = (if state = uint MIGRATION_CLASSICAL then 1 else 0)"

definition finalize_guard :: "int \<Rightarrow> int" where
  "finalize_guard state =
     (if state = uint MIGRATION_HYBRID \<or> state = uint MIGRATION_FINALIZING then 1 else 0)"

definition rollback_guard :: "int \<Rightarrow> int" where
  "rollback_guard state =
     (if state = uint MIGRATION_HYBRID \<or> state = uint MIGRATION_FINALIZING then 1 else 0)"

definition classical_key_exists :: "int \<Rightarrow> int" where
  "classical_key_exists state = (if state \<noteq> uint MIGRATION_PQC_ONLY then 1 else 0)"

definition pqc_key_exists :: "int \<Rightarrow> int" where
  "pqc_key_exists state = (if state \<noteq> uint MIGRATION_CLASSICAL then 1 else 0)"

definition next_state_from_classical :: "int \<Rightarrow> int" where
  "next_state_from_classical state = uint MIGRATION_HYBRID"

text \<open>C division truncates; \<open>count\<close> is positive where it is used.\<close>

definition find_record_model :: "int \<Rightarrow> int \<Rightarrow> int" where
  "find_record_model count target_found =
     (if target_found \<noteq> 0 \<and> count > 0 then count div 2 else -1)"

subsection \<open>Harnesses\<close>

definition harness_state_transitions :: "byte \<Rightarrow> byte \<Rightarrow> bool" where
  "harness_state_transitions current_state opr =
     (if current_state > MIGRATION_PQC_ONLY then True
      else if opr > 4 then True
      else
        (current_state = MIGRATION_PQC_ONLY \<longrightarrow>
           (\<forall>target \<in> {0, 1, 2, 3}. (target \<noteq> MIGRATION_PQC_ONLY \<or> opr \<noteq> 0) \<longrightarrow>
              (opr \<ge> 1 \<and> opr \<le> 4) \<longrightarrow> \<not> is_valid_transition MIGRATION_PQC_ONLY target opr))
        \<and> \<not> is_valid_transition MIGRATION_CLASSICAL MIGRATION_PQC_ONLY opr
        \<and> \<not> is_valid_transition MIGRATION_CLASSICAL MIGRATION_FINALIZING opr
        \<and> (\<forall>target \<in> {0, 1, 2, 3}. is_valid_transition current_state target opr \<longrightarrow>
             target \<le> MIGRATION_PQC_ONLY))"

definition harness_state_transition_guards :: bool where
  "harness_state_transition_guards \<longleftrightarrow>
     (\<forall>state \<in> {MIGRATION_CLASSICAL, MIGRATION_HYBRID, MIGRATION_FINALIZING, MIGRATION_PQC_ONLY}.
        let can_begin = (state = MIGRATION_CLASSICAL);
            can_finalize = (state = MIGRATION_HYBRID);
            can_rollback = (state = MIGRATION_HYBRID \<or> state = MIGRATION_FINALIZING) in
        can_begin = (state = MIGRATION_CLASSICAL)
        \<and> can_finalize = (state = MIGRATION_HYBRID)
        \<and> can_rollback = (state = MIGRATION_HYBRID \<or> state = MIGRATION_FINALIZING)
        \<and> (state = MIGRATION_PQC_ONLY \<longrightarrow> \<not> can_begin \<and> \<not> can_finalize \<and> \<not> can_rollback))
     \<and> MIGRATION_CLASSICAL \<noteq> MIGRATION_HYBRID \<and> MIGRATION_HYBRID \<noteq> MIGRATION_PQC_ONLY"

text \<open>
  The capacity harness: an early \<open>return\<close> passes; otherwise the conjunction of the assertions.
\<close>

definition grown_capacity :: "u64 \<Rightarrow> u64" where
  "grown_capacity capacity =
     (let new_cap = (if capacity \<noteq> 0 then capacity * 2 else 16) in
      if new_cap > MIGRATION_MAX_RECORDS then MIGRATION_MAX_RECORDS else new_cap)"

definition harness_capacity_bounds :: "u64 \<Rightarrow> u64 \<Rightarrow> bool" where
  "harness_capacity_bounds count capacity =
     (if count > MIGRATION_MAX_RECORDS then True
      else if capacity > MIGRATION_MAX_RECORDS then True
      else if count > capacity then True
      else if count < capacity then count < capacity
      else
        let new_cap = grown_capacity capacity in
        new_cap \<le> MIGRATION_MAX_RECORDS
        \<and> (new_cap \<ge> 16 \<or> capacity = 0)
        \<and> (if count \<ge> new_cap then new_cap = MIGRATION_MAX_RECORDS else count < new_cap))"

subsection \<open>Finalization\<close>

record fin_state =
  fin_step :: nat
  mem_state :: byte
  classical_erased :: bool
  wal_reflects_finalizing :: bool
  wal_reflects_pqc :: bool

text \<open>The assignments of \<open>harness_finalization_ordering\<close>, one state per step.\<close>

definition fin_start :: fin_state where
  "fin_start = \<lparr>fin_step = 0, mem_state = MIGRATION_HYBRID, classical_erased = False,
     wal_reflects_finalizing = False, wal_reflects_pqc = False\<rparr>"

fun fin_next :: "fin_state \<Rightarrow> fin_state" where
  "fin_next s =
     (let n = fin_step s; s = s\<lparr>fin_step := Suc n\<rparr> in
      if n = 0 then s\<lparr>mem_state := MIGRATION_FINALIZING, wal_reflects_finalizing := True\<rparr>
      else if n = 1 then s\<lparr>classical_erased := True\<rparr>
      else if n = 2 then s
      else if n = 3 then s\<lparr>mem_state := MIGRATION_PQC_ONLY\<rparr>
      else if n = 4 then s\<lparr>wal_reflects_pqc := True\<rparr>
      else s)"

fun fin_after :: "nat \<Rightarrow> fin_state" where
  "fin_after 0 = fin_start"
| "fin_after (Suc n) = fin_next (fin_after n)"

definition harness_finalization_ordering :: bool where
  "harness_finalization_ordering \<longleftrightarrow>
     (let s1 = fin_after 1; s2 = fin_after 2; s3 = fin_after 3; s4 = fin_after 4; s5 = fin_after 5 in
      wal_reflects_finalizing s1 \<and> \<not> classical_erased s1
      \<and> classical_erased s2 \<and> \<not> wal_reflects_pqc s2
      \<and> classical_erased s3 \<and> \<not> wal_reflects_pqc s3
      \<and> classical_erased s4 \<and> \<not> wal_reflects_pqc s4
      \<and> classical_erased s5 \<and> wal_reflects_pqc s5)"

definition classical_key_exists_at_step :: "int \<Rightarrow> int" where
  "classical_key_exists_at_step step = (if step < 2 then 1 else 0)"

definition wal_reflects_pqc_only_at_step :: "int \<Rightarrow> int" where
  "wal_reflects_pqc_only_at_step step = (if step \<ge> 4 then 1 else 0)"

definition erasure_before_wal_safe :: "int \<Rightarrow> int" where
  "erasure_before_wal_safe step = (if step < 2 then 1 else if step \<ge> 2 \<and> step < 4 then 1 else 1)"

subsection \<open>The abstract machine\<close>

datatype phase = Classical | Hybrid | Finalizing | PqcOnly

datatype mig_op = Import | Begin | Finalize | Rollback | EnterFinalizing

inductive mig_step :: "phase \<Rightarrow> mig_op \<Rightarrow> phase \<Rightarrow> bool" where
  step_import: "mig_step p Import Classical"
| step_begin: "mig_step Classical Begin Hybrid"
| step_finalize: "mig_step Hybrid Finalize PqcOnly"
| step_rollback_hybrid: "mig_step Hybrid Rollback Classical"
| step_rollback_finalizing: "mig_step Finalizing Rollback Classical"
| step_enter: "mig_step Hybrid EnterFinalizing Finalizing"

inductive_simps mig_step_simps [simp]:
  "mig_step p Import q" "mig_step p Begin q" "mig_step p Finalize q" "mig_step p Rollback q"
  "mig_step p EnterFinalizing q"

inductive_cases mig_step_from_pqc: "mig_step PqcOnly e q"

fun phase_code :: "phase \<Rightarrow> byte" where
  "phase_code Classical = MIGRATION_CLASSICAL"
| "phase_code Hybrid = MIGRATION_HYBRID"
| "phase_code Finalizing = MIGRATION_FINALIZING"
| "phase_code PqcOnly = MIGRATION_PQC_ONLY"

fun op_code :: "mig_op \<Rightarrow> byte" where
  "op_code Import = 0"
| "op_code Begin = 1"
| "op_code Finalize = 2"
| "op_code Rollback = 3"
| "op_code EnterFinalizing = 4"

lemma transition_refines_step:
  "is_valid_transition (phase_code p) (phase_code q) (op_code e) \<longleftrightarrow> mig_step p e q"
  by (cases p; cases q; cases e) (simp_all add: is_valid_transition_def migration_codes)

lemma phase_code_inj [simp]: "phase_code p = phase_code q \<longleftrightarrow> p = q"
  by (cases p; cases q) (simp_all add: migration_codes)

lemma transition_target_valid:
  "is_valid_transition s t opr \<Longrightarrow> \<exists>q e. t = phase_code q \<and> opr = op_code e"
  unfolding is_valid_transition_def
  by (metis op_code.simps phase_code.simps)

interpretation migration_terminal: terminal_machine
  "\<lambda>p e q. mig_step p e q \<and> e \<noteq> Import" "\<lambda>p. p = PqcOnly"
  by unfold_locales (auto elim: mig_step_from_pqc)

text \<open>The keys a phase has, and that every step keeps the invariant that one always exists.\<close>

definition has_key :: "byte \<Rightarrow> bool" where
  "has_key s \<longleftrightarrow> classical_key_exists (uint s) = 1 \<or> pqc_key_exists (uint s) = 1"

lemma coded_run_abstract:
  assumes "runs (\<lambda>s e t. is_valid_transition s t e) s es t" "s = phase_code p"
  shows "\<exists>q ops. t = phase_code q \<and> es = map op_code ops \<and> runs mig_step p ops q"
  using assms
proof (induction arbitrary: p rule: runs.induct)
  case (runs_Nil s)
  then show ?case by (intro exI [of _ p] exI [of _ "[]"]) simp
next
  case (runs_Cons s e t es u)
  obtain q1 e1 where 1: "t = phase_code q1" "e = op_code e1"
    using transition_target_valid [OF runs_Cons.hyps(1)] by blast
  then have st: "mig_step p e1 q1"
    using runs_Cons.hyps(1) runs_Cons.prems transition_refines_step by simp
  obtain q ops where "u = phase_code q" "es = map op_code ops" "runs mig_step q1 ops q"
    using runs_Cons.IH [OF 1(1)] by blast
  with st 1(2) show ?case
    by (intro exI [of _ q] exI [of _ "e1 # ops"]) (auto simp: runs_Cons_iff)
qed

subsection \<open>Properties\<close>

lemma abstract_run_to_pqc:
  assumes "runs mig_step Classical ops PqcOnly"
  shows "\<exists>ops'. ops = ops' @ [Begin, Finalize] \<and> runs mig_step Classical ops' Classical"
proof (cases ops rule: rev_cases)
  case Nil
  then show ?thesis using assms by simp
next
  case (snoc os e)
  then obtain u where u: "runs mig_step Classical os u" "mig_step u e PqcOnly"
    using assms by (auto simp: runs_snoc)
  then have e: "e = Finalize" "u = Hybrid" by (auto elim: mig_step.cases)
  show ?thesis
  proof (cases os rule: rev_cases)
    case Nil
    then show ?thesis using u(1) e(2) by simp
  next
    case (snoc os' e')
    then obtain v where v: "runs mig_step Classical os' v" "mig_step v e' Hybrid"
      using u(1) e(2) by (auto simp: runs_snoc)
    then have "e' = Begin" "v = Classical" by (auto elim: mig_step.cases)
    with v(1) snoc e \<open>ops = os @ [e]\<close> show ?thesis by simp
  qed
qed

lemma coded_run_iff:
  "runs (\<lambda>s e t. is_valid_transition s t e) (phase_code p) (map op_code ops) (phase_code q)
    \<longleftrightarrow> runs mig_step p ops q"
proof
  show "runs (\<lambda>s e t. is_valid_transition s t e) (phase_code p) (map op_code ops) (phase_code q)"
    if "runs mig_step p ops q"
    using that by (induction rule: runs.induct) (auto simp: runs_Cons_iff intro: transition_refines_step [THEN iffD2])
next
  assume a: "runs (\<lambda>s e t. is_valid_transition s t e) (phase_code p) (map op_code ops) (phase_code q)"
  have inj: "op_code a = op_code b \<longleftrightarrow> a = b" for a b by (cases a; cases b) simp_all
  obtain q' ops' where "phase_code q = phase_code q'" "map op_code ops = map op_code ops'"
    "runs mig_step p ops' q'"
    using coded_run_abstract [OF a refl] by blast
  moreover from this(2) have "ops = ops'"
    by (metis (no_types, lifting) inj injI list.inj_map_strong)
  ultimately show "runs mig_step p ops q" by simp
qed



text \<open>
  The number of operations that separate a state from PQC_ONLY. It drops by at most one
  in a valid transition, so it bounds the length of every run.
\<close>

definition steps_to_pqc :: "byte \<Rightarrow> nat" where
  "steps_to_pqc s = (if s = MIGRATION_PQC_ONLY then 0 else if s = MIGRATION_HYBRID then 1
     else if s = MIGRATION_CLASSICAL then 2 else 3)"

lemma steps_to_pqc_step: "is_valid_transition s t e \<Longrightarrow> steps_to_pqc s \<le> Suc (steps_to_pqc t)"
  by (auto simp: is_valid_transition_def steps_to_pqc_def migration_codes split: if_splits)

lemma steps_to_pqc_run:
  "runs (\<lambda>s e t. is_valid_transition s t e) s es t \<Longrightarrow> steps_to_pqc s \<le> length es + steps_to_pqc t"
proof (induction rule: runs.induct)
  case (runs_Cons s e t es u)
  from steps_to_pqc_step [OF runs_Cons.hyps(1)] runs_Cons.IH show ?case by simp
qed simp

lemma phase_of_code: "s \<le> MIGRATION_PQC_ONLY \<Longrightarrow> \<exists>p. s = phase_code p"
proof -
  assume "s \<le> MIGRATION_PQC_ONLY"
  then have "unat s \<in> {0, 1, 2, 3}"
    by (auto simp: migration_codes word_le_nat_alt)
  then have "s = phase_code Classical \<or> s = phase_code Hybrid \<or> s = phase_code Finalizing
      \<or> s = phase_code PqcOnly"
    by (simp add: migration_codes word_unat_eq_iff)
  then show ?thesis by blast
qed

lemma shortest_run_exists:
  assumes "s \<le> MIGRATION_PQC_ONLY"
  shows "\<exists>es. runs (\<lambda>s e t. is_valid_transition s t e) s es MIGRATION_PQC_ONLY
    \<and> length es = steps_to_pqc s"
proof -
  obtain p where p: "s = phase_code p" using phase_of_code [OF assms] by blast
  define ops where "ops = (case p of Classical \<Rightarrow> [Begin, Finalize] | Hybrid \<Rightarrow> [Finalize]
    | Finalizing \<Rightarrow> [Rollback, Begin, Finalize] | PqcOnly \<Rightarrow> [])"
  have "runs mig_step p ops PqcOnly" by (cases p) (auto simp: ops_def runs_Cons_iff)
  then have "runs (\<lambda>s e t. is_valid_transition s t e) s (map op_code ops) MIGRATION_PQC_ONLY"
    using coded_run_iff [of p ops PqcOnly] p by simp
  moreover have "length (map op_code ops) = steps_to_pqc s"
    unfolding p by (cases p) (simp_all add: ops_def steps_to_pqc_def migration_codes)
  ultimately show ?thesis by blast
qed

lemma finalizing_first_op:
  assumes "runs (\<lambda>s e t. is_valid_transition s t e) MIGRATION_FINALIZING es MIGRATION_PQC_ONLY"
  shows "hd es \<in> {0, 3}"
proof -
  obtain q ops where q: "MIGRATION_PQC_ONLY = phase_code q" "es = map op_code ops"
    "runs mig_step Finalizing ops q"
    using coded_run_abstract [OF assms, of Finalizing] by auto
  then have "q = PqcOnly" using phase_code_inj by (metis phase_code.simps(4))
  with q(3) obtain e os where "ops = e # os" "e = Import \<or> e = Rollback"
    by (cases ops) (auto simp: runs_Cons_iff elim: mig_step.cases)
  with q(2) show ?thesis by auto
qed

text \<open>
  C37. Every migration can be completed, and how far it is: from each of the four states a run of valid
  operations reaches PQC_ONLY, the shortest one has 2 operations from CLASSICAL, 1 from
  HYBRID, 3 from FINALIZING and 0 from PQC_ONLY. So entering FINALIZING takes a migration further from
  its end than it was before it began: no single operation completes it, every run to PQC_ONLY
  first gives the finalization up by a rollback or an import, and FINALIZING is the only state in
  which the finalize guard answers 1 although no finalize transition is valid.
\<close>

theorem pqc_only_reachable_distances:
  assumes "s \<le> MIGRATION_PQC_ONLY"
  shows "(\<exists>es. runs (\<lambda>s e t. is_valid_transition s t e) s es MIGRATION_PQC_ONLY
        \<and> length es = steps_to_pqc s)
    \<and> (\<forall>es. runs (\<lambda>s e t. is_valid_transition s t e) s es MIGRATION_PQC_ONLY \<longrightarrow>
        steps_to_pqc s \<le> length es \<and> (s = MIGRATION_FINALIZING \<longrightarrow> hd es \<in> {0, 3}))
    \<and> (finalize_guard (uint s) = 1 \<and> (\<forall>t. \<not> is_valid_transition s t 2) \<longleftrightarrow> s = MIGRATION_FINALIZING)"
proof (intro conjI allI impI)
  show "\<exists>es. runs (\<lambda>s e t. is_valid_transition s t e) s es MIGRATION_PQC_ONLY
      \<and> length es = steps_to_pqc s"
    by (rule shortest_run_exists [OF assms])
  fix es assume run: "runs (\<lambda>s e t. is_valid_transition s t e) s es MIGRATION_PQC_ONLY"
  from steps_to_pqc_run [OF run] show "steps_to_pqc s \<le> length es" by (simp add: steps_to_pqc_def)
  from run finalizing_first_op show "hd es \<in> {0, 3}" if "s = MIGRATION_FINALIZING" using that by simp
next
  have "finalize_guard (uint s) = (if s = MIGRATION_HYBRID \<or> s = MIGRATION_FINALIZING then 1 else 0)"
    by (simp add: finalize_guard_def word_uint_eq_iff)
  then show "finalize_guard (uint s) = 1 \<and> (\<forall>t. \<not> is_valid_transition s t 2) \<longleftrightarrow>
      s = MIGRATION_FINALIZING"
    by (auto simp: is_valid_transition_def migration_codes)
qed

lemma pqc_only_reachable_distances_witness:
  "map steps_to_pqc [MIGRATION_CLASSICAL, MIGRATION_HYBRID, MIGRATION_FINALIZING, MIGRATION_PQC_ONLY] =
      [2, 1, 3, 0]
    \<and> (\<exists>es. runs (\<lambda>s e t. is_valid_transition s t e) MIGRATION_FINALIZING es MIGRATION_PQC_ONLY
      \<and> length es = 3 \<and> hd es \<in> {0, 3})"
  using pqc_only_reachable_distances [of MIGRATION_FINALIZING]
  by (auto simp: migration_codes steps_to_pqc_def)

text \<open>
  The capacity harness is exact except for small tables: its assertions hold for all
  inputs but a full table of one to seven records, where doubling yields fewer than 16
  slots and \<open>new_cap >= 16 || capacity == 0\<close> fails (the growth itself is sound there too: the new
  capacity is within the limit and makes room, or the limit is reached).
\<close>

lemma capacity_harness_fails_for_small_tables:
  "(harness_capacity_bounds count capacity \<longleftrightarrow>
      \<not> (count = capacity \<and> 1 \<le> unat capacity \<and> unat capacity \<le> 7))
    \<and> (unat capacity \<le> 4096 \<longrightarrow> unat (grown_capacity capacity) =
        (if capacity = 0 then 16 else min 4096 (2 * unat capacity)))"
proof -
  have cap: "unat (grown_capacity capacity) = (if capacity = 0 then 16 else min 4096 (2 * unat capacity))"
    if "unat capacity \<le> 4096"
  proof -
    have "unat (capacity * 2) = 2 * unat capacity" using that by (simp add: unat_word_ariths)
    then show ?thesis
      by (auto simp: grown_capacity_def MIGRATION_MAX_RECORDS_def word_less_nat_alt)
  qed
  have "harness_capacity_bounds count capacity \<longleftrightarrow>
      \<not> (count = capacity \<and> 1 \<le> unat capacity \<and> unat capacity \<le> 7)"
  proof (cases "unat capacity \<le> 4096 \<and> count = capacity")
    case True
    then have "count = capacity" and c: "unat capacity \<le> 4096" by simp_all
    note g = cap [OF c]
    have z: "capacity = 0 \<longleftrightarrow> unat capacity = 0" by (simp add: unat_eq_0)
    show ?thesis
      using c g unfolding \<open>count = capacity\<close>
      by (auto simp: harness_capacity_bounds_def MIGRATION_MAX_RECORDS_def word_less_nat_alt
          word_le_nat_alt z word_unat_eq_iff Let_def min_def split: if_splits)
  next
    case False
    then show ?thesis
      by (auto simp: harness_capacity_bounds_def MIGRATION_MAX_RECORDS_def word_less_nat_alt
          word_le_nat_alt word_unat_eq_iff)
  qed
  with cap show ?thesis by blast
qed

lemma capacity_harness_fails_for_small_tables_witness:
  "\<not> harness_capacity_bounds 7 7 \<and> harness_capacity_bounds 8 8 \<and> unat (grown_capacity 7) = 14"
  using capacity_harness_fails_for_small_tables [of 7 7]
    capacity_harness_fails_for_small_tables [of 8 8] by simp

lemma harness_state_transitions_hold: "harness_state_transitions s opr"
  by (auto simp: harness_state_transitions_def is_valid_transition_def migration_codes)

lemma harness_state_transition_guards_hold: "harness_state_transition_guards"
  by (simp add: harness_state_transition_guards_def migration_codes)

lemma fin_after_vals:
  "fin_after n = \<lparr>fin_step = n,
     mem_state = (if n = 0 then MIGRATION_HYBRID else if n < 4 then MIGRATION_FINALIZING
       else MIGRATION_PQC_ONLY),
     classical_erased = (2 \<le> n), wal_reflects_finalizing = (1 \<le> n), wal_reflects_pqc = (5 \<le> n)\<rparr>"
proof (induction n)
  case 0
  then show ?case by (simp add: fin_start_def)
next
  case (Suc n)
  consider "n = 0" | "n = 1" | "n = 2" | "n = 3" | "n = 4" | "5 \<le> n" by linarith
  then show ?case unfolding fin_after.simps Suc.IH by cases (simp_all add: Let_def)
qed

lemma harness_finalization_ordering_holds: "harness_finalization_ordering"
  by (simp add: fin_after_vals harness_finalization_ordering_def)

text \<open>
  Finalization order: after any number of steps of the modelled sequence the log says
  PQC_ONLY only when the classical key is erased, and the erasure happens while the log still
  says FINALIZING; the harness assertions follow, and the step functions of the Frama-C file
  describe the same sequence (its log step is one earlier, as it has no separate hash wipe).
\<close>

lemma finalization_erases_before_log:
  "(wal_reflects_pqc (fin_after n) \<longrightarrow> classical_erased (fin_after n) \<and> mem_state (fin_after n) = MIGRATION_PQC_ONLY)
    \<and> (classical_erased (fin_after n) \<longrightarrow> wal_reflects_finalizing (fin_after n))
    \<and> harness_finalization_ordering
    \<and> (classical_key_exists_at_step (int n) = 1 \<longleftrightarrow> \<not> classical_erased (fin_after n))
    \<and> (wal_reflects_pqc_only_at_step (int n) = 1 \<longleftrightarrow> wal_reflects_pqc (fin_after (n + 1)))
    \<and> erasure_before_wal_safe (int n) = 1"
  by (simp only: fin_after_vals harness_finalization_ordering_def)
    (auto simp: classical_key_exists_at_step_def wal_reflects_pqc_only_at_step_def
      erasure_before_wal_safe_def Let_def)

lemma finalization_erases_before_log_witness:
  "wal_reflects_pqc (fin_after 5) \<and> \<not> wal_reflects_pqc (fin_after 4) \<and> classical_erased (fin_after 5)"
  using finalization_erases_before_log [of 5] by (simp add: fin_after_vals)

end
