(* ===== verification/Gateway.thy ===== *)
theory Gateway
  imports Prelude
begin

text \<open>
  The request filter of the gateway, as the verification sources state it:
  \<open>verification/framac/eva_gateway.c\<close>, \<open>verification/framac/wp_gateway.c\<close> (the same logic with
  another length of the error response) and the bounded model of
  \<open>verification/cbmc/cbmc_gateway.c\<close>. Reading outside an array is undefined behaviour (\<open>None\<close>).
\<close>

subsection \<open>Sessions\<close>

definition BUFFER_SIZE :: nat where "BUFFER_SIZE = 16384"

datatype SessState = SESS_TLS_HANDSHAKE | SESS_CONNECT_BACK | SESS_ACTIVE_PUMP | SESS_DRAINING

record Session =
  c_fd :: int
  u_fd :: int
  sess_state :: SessState
  c2u_buf :: bytes
  c2u_len :: int
  u2c_buf :: bytes
  u2c_len :: int

definition GET_VERB :: bytes where "GET_VERB = bytes_of ''GET ''"
definition POST_VERB :: bytes where "POST_VERB = bytes_of ''POST ''"
definition MIGRATION_ROUTE :: bytes where "MIGRATION_ROUTE = bytes_of ''/api/migration/''"
definition HTTP_VER :: bytes where "HTTP_VER = bytes_of '' HTTP/1.''"

definition crlf :: bytes where "crlf = [13, 10]"

text \<open>The string literal, with its terminating NUL.\<close>

definition err403 :: bytes where
  "err403 = bytes_of ''HTTP/1.1 403 Forbidden'' @ crlf @ bytes_of ''Content-Length: 0'' @ crlf
     @ bytes_of ''Connection: close'' @ crlf @ crlf @ [0]"

subsection \<open>The response\<close>

text \<open>\<open>for (k ...) s->u2c_buf[s->u2c_len + k] = err403[k];\<close>\<close>

fun copy_response :: "nat list \<Rightarrow> nat \<Rightarrow> bytes \<Rightarrow> bytes option" where
  "copy_response [] off buf = Some buf"
| "copy_response (k # ks) off buf = do {
     c \<leftarrow> nth_opt err403 k;
     (if off + k < length buf then copy_response ks off (buf[off + k := c]) else None) }"

definition send_403_with :: "nat \<Rightarrow> Session \<Rightarrow> Session option" where
  "send_403_with err_len s =
     (let s = (if u_fd s > 0 then s\<lparr>u_fd := -1\<rparr> else s);
          s = s\<lparr>u2c_len := 0\<rparr> in
      if u2c_len s + int err_len < int BUFFER_SIZE
      then do {
        buf \<leftarrow> copy_response [0..<err_len] (nat (u2c_len s)) (u2c_buf s);
        Some (s\<lparr>u2c_buf := buf, u2c_len := u2c_len s + int err_len, sess_state := SESS_DRAINING\<rparr>) }
      else Some (s\<lparr>sess_state := SESS_DRAINING\<rparr>))"

definition eva_send_403_forbidden :: "Session \<Rightarrow> Session option" where
  "eva_send_403_forbidden s = send_403_with 64 s"

definition wp_send_403_forbidden :: "Session \<Rightarrow> Session option" where
  "wp_send_403_forbidden s = send_403_with 69 s"

subsection \<open>The filter\<close>

fun match_from :: "bytes \<Rightarrow> nat \<Rightarrow> bytes \<Rightarrow> bool \<Rightarrow> bool option" where
  "match_from buf i [] ok = Some ok"
| "match_from buf i (c # cs) ok = do {
     b \<leftarrow> nth_opt buf i;
     match_from buf (Suc i) cs (if b \<noteq> c then False else ok) }"

fun scan_loop :: "bytes \<Rightarrow> bytes \<Rightarrow> nat list \<Rightarrow> bool option" where
  "scan_loop buf pat [] = Some False"
| "scan_loop buf pat (i # is) = do {
     hit \<leftarrow> match_from buf i pat True;
     (if hit then Some True else scan_loop buf pat is) }"

definition scan_for :: "bytes \<Rightarrow> bytes \<Rightarrow> int \<Rightarrow> bool option" where
  "scan_for buf pat scan_len = scan_loop buf pat [0..<nat (scan_len - int (length pat) + 1)]"

definition scan_len_of :: "Session \<Rightarrow> int" where
  "scan_len_of s = (if c2u_len s < 4096 then c2u_len s else 4096)"

definition inspect :: "(Session \<Rightarrow> Session option) \<Rightarrow> Session \<Rightarrow> Session option" where
  "inspect reject s = do {
     route \<leftarrow> scan_for (c2u_buf s) MIGRATION_ROUTE (scan_len_of s);
     (if route then Some s
      else do {
        http \<leftarrow> scan_for (c2u_buf s) HTTP_VER (scan_len_of s);
        (if http then reject s else Some s) }) }"

definition eva_handle_client_in_mock :: "Session \<Rightarrow> Session option" where
  "eva_handle_client_in_mock s =
     (if c2u_len s > 4 then do {
        is_get \<leftarrow> match_from (c2u_buf s) 0 GET_VERB True;
        is_post \<leftarrow> match_from (c2u_buf s) 0 POST_VERB True;
        (if is_get \<or> is_post then inspect eva_send_403_forbidden s else Some s) }
      else Some s)"

definition wp_handle_client_in_mock :: "Session \<Rightarrow> Session option" where
  "wp_handle_client_in_mock s = do {
     is_get \<leftarrow> match_from (c2u_buf s) 0 GET_VERB True;
     is_post \<leftarrow> match_from (c2u_buf s) 0 POST_VERB True;
     (if c2u_len s > 4 \<and> (is_get \<or> is_post) then inspect wp_send_403_forbidden s else Some s) }"

subsection \<open>The bounded model\<close>

text \<open>
  In \<open>cbmc_gateway.c\<close> the buffers are pointers, and the searches are two local flags that are
  initialised to false and only ever constrained by assumptions. \<open>http_offset\<close> is the
  uninitialised integer; the answer is the session, or \<open>None\<close> for a NULL session.
\<close>

record CbmcSession =
  cb_c_fd :: int
  cb_u_fd :: int
  cb_state :: SessState
  cb_c2u_buf :: "bytes option"
  cb_c2u_len :: int
  cb_u2c_buf :: "bytes option"
  cb_u2c_len :: int
  cb_want_read_on_c :: int
  cb_want_write_on_c :: int

definition cbmc_send_403_forbidden :: "CbmcSession option \<Rightarrow> CbmcSession option" where
  "cbmc_send_403_forbidden s =
     (case s of
        None \<Rightarrow> None
      | Some s \<Rightarrow>
          if cb_c_fd s \<le> 0 then Some s
          else
            let s = (if cb_u_fd s > 0 then s\<lparr>cb_u_fd := -1\<rparr> else s);
                err_len = int (length (cstr err403));
                s = s\<lparr>cb_u2c_len := 0\<rparr>;
                s = (case cb_u2c_buf s of
                       None \<Rightarrow> s
                     | Some buf \<Rightarrow>
                         if cb_u2c_len s + err_len < int BUFFER_SIZE
                         then s\<lparr>cb_u2c_buf := Some (put_slice (nat (cb_u2c_len s)) (cstr err403) buf),
                                cb_u2c_len := cb_u2c_len s + err_len\<rparr>
                         else s)
            in Some (s\<lparr>cb_state := SESS_DRAINING\<rparr>))"

definition cbmc_handle_client_in_mock :: "int \<Rightarrow> CbmcSession option \<Rightarrow> CbmcSession option" where
  "cbmc_handle_client_in_mock http_offset s =
     (case s of
        None \<Rightarrow> None
      | Some t \<Rightarrow>
          (case cb_c2u_buf t of
             None \<Rightarrow> s
           | Some buf \<Rightarrow>
               if cb_c2u_len t > 4
                  \<and> (take 4 buf = GET_VERB \<or> take 5 buf = POST_VERB)
               then
                 let scan_len = (if cb_c2u_len t < 4096 then cb_c2u_len t else 4096);
                     has_migration = False in
                 if \<not> has_migration
                 then
                   let has_http = False in
                   if has_http
                   then if http_offset < scan_len then cbmc_send_403_forbidden s else s
                   else s
                 else s
               else s))"

text \<open>\<open>main\<close>: the nondeterministic inputs are the length, the two flags and the buffer contents.\<close>

text \<open>\<open>s0\<close>, \<open>c2u\<close> and \<open>u2c\<close> are the contents of the blocks that \<open>malloc\<close> returned.\<close>

definition cbmc_gateway_main ::
  "CbmcSession \<Rightarrow> int \<Rightarrow> bool \<Rightarrow> bool \<Rightarrow> bytes \<Rightarrow> bytes \<Rightarrow> int \<Rightarrow> CbmcSession option" where
  "cbmc_gateway_main s0 loaded_len is_get is_post c2u u2c http_offset =
     (let c2u = (if loaded_len > 5
                 then if is_get then put_slice 0 GET_VERB c2u
                      else if is_post then put_slice 0 POST_VERB c2u else c2u
                 else c2u) in
      cbmc_handle_client_in_mock http_offset
        (Some (s0\<lparr>cb_c_fd := 1, cb_u_fd := 2, cb_state := SESS_ACTIVE_PUMP, cb_c2u_buf := Some c2u,
                 cb_u2c_buf := Some u2c, cb_c2u_len := loaded_len\<rparr>)))"

definition cbmc_gateway_assertions :: "CbmcSession \<Rightarrow> bool" where
  "cbmc_gateway_assertions s \<longleftrightarrow>
     (cb_state s = SESS_ACTIVE_PUMP \<or> cb_state s = SESS_DRAINING)
     \<and> (cb_state s = SESS_DRAINING \<longrightarrow>
          cb_u_fd s = -1 \<and> cb_u2c_len s > 0 \<and> cb_u2c_len s \<le> int BUFFER_SIZE)
     \<and> cb_c2u_buf s \<noteq> None \<and> cb_u2c_buf s \<noteq> None"

subsection \<open>What the loops compute\<close>

definition session_ok :: "Session \<Rightarrow> bool" where
  "session_ok s \<longleftrightarrow> length (c2u_buf s) = BUFFER_SIZE \<and> length (u2c_buf s) = BUFFER_SIZE
     \<and> 0 \<le> c2u_len s \<and> c2u_len s \<le> int BUFFER_SIZE"

definition occurs :: "bytes \<Rightarrow> bytes \<Rightarrow> bool" where
  "occurs pat bs \<longleftrightarrow> (\<exists>i. i + length pat \<le> length bs \<and> take (length pat) (drop i bs) = pat)"

lemma match_from_eq:
  "i + length pat \<le> length buf \<Longrightarrow>
     match_from buf i pat ok = Some (ok \<and> take (length pat) (drop i buf) = pat)"
proof (induction buf i pat ok rule: match_from.induct)
  case (2 buf i c cs ok)
  then have i: "i < length buf" by simp
  then have "drop i buf = buf ! i # drop (Suc i) buf" by (simp add: Cons_nth_drop_Suc)
  then show ?case using 2 i by (auto simp: nth_opt_def)
qed simp

lemma scan_loop_eq:
  "\<forall>i \<in> set is. i + length pat \<le> length buf \<Longrightarrow>
     scan_loop buf pat is = Some (\<exists>i \<in> set is. take (length pat) (drop i buf) = pat)"
  by (induction buf pat "is" rule: scan_loop.induct) (auto simp: match_from_eq)

lemma scan_for_eq:
  assumes "int (length pat) > 0" "0 \<le> n" "n \<le> int (length buf)"
  shows "scan_for buf pat n = Some (occurs pat (take (nat n) buf))"
proof -
  have "i + length pat \<le> nat n" if "i < nat (n - int (length pat) + 1)" for i
    using that by linarith
  then have "scan_for buf pat n =
      Some (\<exists>i < nat (n - int (length pat) + 1). take (length pat) (drop i buf) = pat)"
    unfolding scan_for_def using assms by (subst scan_loop_eq) auto
  also have "(\<exists>i < nat (n - int (length pat) + 1). take (length pat) (drop i buf) = pat) =
      occurs pat (take (nat n) buf)"
  proof -
    have "take (length pat) (drop i (take (nat n) buf)) = take (length pat) (drop i buf)"
      if "i + length pat \<le> nat n" for i
      using that by (simp add: drop_take min_def)
    moreover have "i < nat (n - int (length pat) + 1) \<longleftrightarrow> i + length pat \<le> nat n" for i
      using assms(1,2) by linarith
    moreover have "length (take (nat n) buf) = nat n" using assms(3) by simp
    ultimately show ?thesis by (auto simp: occurs_def)
  qed
  finally show ?thesis .
qed

lemma match_verb: "length pat \<le> length buf \<Longrightarrow> match_from buf 0 pat True = Some (take (length pat) buf = pat)"
  using match_from_eq [of 0 pat buf True] by simp

lemma scan_for_session:
  assumes "session_ok s" "0 < length pat"
  shows "scan_for (c2u_buf s) pat (scan_len_of s)
         = Some (occurs pat (take (min (nat (c2u_len s)) 4096) (c2u_buf s)))"
proof -
  have bounds: "0 \<le> scan_len_of s" "scan_len_of s \<le> int (length (c2u_buf s))"
    "nat (scan_len_of s) = min (nat (c2u_len s)) 4096"
    using assms(1) by (auto simp: session_ok_def scan_len_of_def BUFFER_SIZE_def min_def)
  show ?thesis using scan_for_eq [OF _ bounds(1,2)] assms(2) by (simp add: bounds(3))
qed

lemma verb_lengths [simp]:
  "length GET_VERB = 4" "length POST_VERB = 5" "length MIGRATION_ROUTE = 15" "length HTTP_VER = 8"
  "length err403 = 65"
  by (simp_all add: GET_VERB_def POST_VERB_def MIGRATION_ROUTE_def HTTP_VER_def err403_def crlf_def)

lemma copy_response_eq:
  "\<forall>k \<in> set ks. k < length err403 \<and> off + k < length buf \<Longrightarrow>
     copy_response ks off buf = Some (foldl (\<lambda>b k. b[off + k := err403 ! k]) buf ks)"
  by (induction ks off buf rule: copy_response.induct) (auto simp: nth_opt_def)

lemma copy_response_undefined:
  "k \<in> set ks \<Longrightarrow> length err403 \<le> k \<Longrightarrow> copy_response ks off buf = None"
  by (induction ks off buf rule: copy_response.induct)
    (auto simp: nth_opt_def split: Option.bind_splits)

lemma fold_slice:
  "n \<le> length xs \<Longrightarrow> n \<le> length buf \<Longrightarrow>
     foldl (\<lambda>b k. b[0 + k := xs ! k]) buf [0..<n] = take n xs @ drop n buf"
proof (induction n)
  case (Suc n)
  then show ?case
    by (simp add: list_update_append Cons_nth_drop_Suc [symmetric] take_Suc_conv_app_nth)
qed simp

lemma send_403_eq:
  assumes "length (u2c_buf s) = BUFFER_SIZE" "n \<le> 64"
  shows "send_403_with n s =
    Some (s\<lparr>u_fd := (if u_fd s > 0 then -1 else u_fd s), u2c_len := int n,
            u2c_buf := take n err403 @ drop n (u2c_buf s), sess_state := SESS_DRAINING\<rparr>)"
proof -
  have "copy_response [0..<n] 0 (u2c_buf s) = Some (take n err403 @ drop n (u2c_buf s))"
    using assms by (subst copy_response_eq) (auto simp: BUFFER_SIZE_def fold_slice [simplified])
  then show ?thesis using assms(2) by (simp add: send_403_with_def Let_def BUFFER_SIZE_def)
qed

lemma send_403_overrun: "65 < n \<Longrightarrow> n < BUFFER_SIZE \<Longrightarrow> send_403_with n s = None"
  by (simp add: send_403_with_def Let_def copy_response_undefined [of 65])

subsection \<open>The rule the filter enforces\<close>

text \<open>A session is refused when its first bytes are a request without the permitted route.\<close>

definition window :: "Session \<Rightarrow> bytes" where
  "window s = take (min (nat (c2u_len s)) 4096) (c2u_buf s)"

definition refused :: "Session \<Rightarrow> bool" where
  "refused s \<longleftrightarrow> c2u_len s > 4
     \<and> (take 4 (c2u_buf s) = GET_VERB \<or> take 5 (c2u_buf s) = POST_VERB)
     \<and> \<not> occurs MIGRATION_ROUTE (window s) \<and> occurs HTTP_VER (window s)"

lemma inspect_eq:
  assumes "session_ok s"
  shows "inspect reject s =
    (if \<not> occurs MIGRATION_ROUTE (window s) \<and> occurs HTTP_VER (window s) then reject s else Some s)"
  using assms by (simp add: inspect_def scan_for_session window_def)

lemma eva_handler_eq:
  assumes "session_ok s"
  shows "eva_handle_client_in_mock s = (if refused s then eva_send_403_forbidden s else Some s)"
  using assms match_verb [of GET_VERB "c2u_buf s"] match_verb [of POST_VERB "c2u_buf s"]
  by (simp add: eva_handle_client_in_mock_def refused_def inspect_eq session_ok_def BUFFER_SIZE_def)

lemma wp_handler_eq:
  assumes "session_ok s"
  shows "wp_handle_client_in_mock s = (if refused s then wp_send_403_forbidden s else Some s)"
  using assms match_verb [of GET_VERB "c2u_buf s"] match_verb [of POST_VERB "c2u_buf s"]
  by (auto simp: wp_handle_client_in_mock_def refused_def inspect_eq session_ok_def BUFFER_SIZE_def)

lemma gateway_filter_correct_ok:
  assumes "session_ok s"
  shows "eva_handle_client_in_mock s =
    Some (if refused s
          then s\<lparr>u_fd := (if u_fd s > 0 then -1 else u_fd s), u2c_len := 64,
                 u2c_buf := cstr err403 @ drop 64 (u2c_buf s), sess_state := SESS_DRAINING\<rparr>
          else s)"
proof -
  have "take 64 err403 = cstr err403" by (simp add: err403_def crlf_def bytes_of_def cstr_def)
  then show ?thesis
    using assms send_403_eq [of s 64]
    by (simp add: eva_handler_eq eva_send_403_forbidden_def session_ok_def)
qed

text \<open>C23. The filter of \<open>eva_gateway.c\<close> never reads or writes outside its buffers, and it refuses a
  session exactly when at least five bytes are there, they start with GET or POST, the first
  4096 bytes contain an HTTP version and do not contain the permitted route (anywhere). A refused
  session gets the 64 byte response, loses its upstream descriptor (when that is positive) and is
  draining; any other session is left exactly as it was.\<close>

theorem gateway_filter_correct:
  assumes "session_ok s"
  shows "eva_handle_client_in_mock s =
    Some (if refused s
          then s\<lparr>u_fd := (if u_fd s > 0 then -1 else u_fd s), u2c_len := 64,
                 u2c_buf := cstr err403 @ drop 64 (u2c_buf s), sess_state := SESS_DRAINING\<rparr>
          else s)"
  using assms by (rule gateway_filter_correct_ok)

definition bad_request :: Session where
  "bad_request = \<lparr>c_fd = 1, u_fd = 2, sess_state = SESS_ACTIVE_PUMP,
     c2u_buf = bytes_of ''GET /x HTTP/1.1'' @ replicate 16369 0, c2u_len = 15,
     u2c_buf = replicate 16384 0, u2c_len = 0\<rparr>"

lemma bad_request_ok: "session_ok bad_request"
  by (simp add: bad_request_def session_ok_def BUFFER_SIZE_def)

lemma bad_request_refused: "refused bad_request"
proof -
  have w: "window bad_request = bytes_of ''GET /x HTTP/1.1''"
    by (simp add: window_def bad_request_def)
  have "\<not> occurs MIGRATION_ROUTE (window bad_request)"
    by (auto simp: occurs_def w) (simp add: MIGRATION_ROUTE_def bytes_of_def)
  moreover have "occurs HTTP_VER (window bad_request)"
    unfolding occurs_def w by (rule exI [of _ 6]) (simp add: HTTP_VER_def bytes_of_def)
  ultimately show ?thesis
    by (simp add: refused_def) (simp add: bad_request_def GET_VERB_def bytes_of_def)
qed

theorem gateway_filter_correct_witness:
  "eva_handle_client_in_mock bad_request =
    Some (bad_request\<lparr>u_fd := -1, u2c_len := 64,
            u2c_buf := cstr err403 @ replicate 16320 0, sess_state := SESS_DRAINING\<rparr>)"
  using gateway_filter_correct [OF bad_request_ok] bad_request_refused
  by (simp add: bad_request_def)

text \<open>The filter of \<open>wp_gateway.c\<close> has undefined behaviour on exactly the sessions it refuses:
  it copies 69 bytes out of a literal of 64 characters and its NUL. On every other session it does
  what the filter of \<open>eva_gateway.c\<close> does.\<close>

lemma wp_filter_undefined_exactly_on_refusal:
  assumes "session_ok s"
  shows "wp_handle_client_in_mock s = (if refused s then None else eva_handle_client_in_mock s)"
  using assms send_403_overrun [of 69 s]
  by (simp add: wp_handler_eq eva_handler_eq wp_send_403_forbidden_def BUFFER_SIZE_def)

lemma wp_filter_undefined_exactly_on_refusal_witness:
  "wp_handle_client_in_mock bad_request = None"
  using wp_filter_undefined_exactly_on_refusal [OF bad_request_ok] bad_request_refused by simp

text \<open>The harness of \<open>cbmc_gateway.c\<close> never refuses a request: its two search flags are set to
  false before the assumptions on them, so whatever the inputs, the session is as it was, the
  state is \<open>SESS_ACTIVE_PUMP\<close> and every assertion holds, the ones about draining vacuously.\<close>

lemma gateway_harness_never_drains:
  "\<exists>s. cbmc_gateway_main s0 loaded_len is_get is_post c2u u2c http_offset = Some s
     \<and> cb_state s = SESS_ACTIVE_PUMP \<and> cb_u2c_buf s = Some u2c \<and> cb_u_fd s = 2
     \<and> cbmc_gateway_assertions s"
  by (simp add: cbmc_gateway_main_def cbmc_handle_client_in_mock_def Let_def
      cbmc_gateway_assertions_def)

text \<open>The refusal of that file, had it been reached, keeps its assertions.\<close>

lemma cbmc_refusal_assertions:
  assumes "cb_c_fd s > 0" "cb_u_fd s > 0" "cb_c2u_buf s \<noteq> None" "cb_u2c_buf s \<noteq> None"
  shows "\<exists>t. cbmc_send_403_forbidden (Some s) = Some t \<and> cbmc_gateway_assertions t
     \<and> cb_state t = SESS_DRAINING \<and> cb_u2c_len t = 64"
proof -
  have "length (cstr err403) = 64" by (simp add: err403_def crlf_def bytes_of_def cstr_def)
  then show ?thesis
    using assms by (auto simp: cbmc_send_403_forbidden_def Let_def BUFFER_SIZE_def
        cbmc_gateway_assertions_def split: option.splits)
qed

subsection \<open>The Eva entry point\<close>

text \<open>
  \<open>main\<close> of \<open>eva_gateway.c\<close>: the intervals are the nondeterministic inputs; \<open>tail\<close> and \<open>u2c\<close> are
  the bytes of the two buffers that \<open>main\<close> never assigns.
\<close>

definition eva_gateway_main :: "int \<Rightarrow> int \<Rightarrow> bytes \<Rightarrow> int \<Rightarrow> bytes \<Rightarrow> bytes \<Rightarrow> Session option" where
  "eva_gateway_main c u payload n tail u2c =
     eva_handle_client_in_mock
       \<lparr>c_fd = c, u_fd = u, sess_state = SESS_ACTIVE_PUMP,
        c2u_buf = payload @ [0] @ tail, c2u_len = int (length payload), u2c_buf = u2c, u2c_len = n\<rparr>"

text \<open>
  Eva's run stays inside the buffers, and what happens to the session (its state, its
  descriptor, the length of the response) does not depend on the bytes that were never assigned.
\<close>

lemma eva_main_initialised:
  assumes "length (payload @ [0] @ tail) = BUFFER_SIZE" "length u2c = BUFFER_SIZE"
    and "length tail' = length tail" "length u2c' = BUFFER_SIZE"
  shows "\<exists>s s'. eva_gateway_main c u payload n tail u2c = Some s
    \<and> eva_gateway_main c u payload n tail' u2c' = Some s'
    \<and> sess_state s = sess_state s' \<and> u_fd s = u_fd s' \<and> u2c_len s = u2c_len s'"
proof -
  let ?s = "\<lambda>tl out. \<lparr>c_fd = c, u_fd = u, sess_state = SESS_ACTIVE_PUMP, c2u_buf = payload @ [0] @ tl,
    c2u_len = int (length payload), u2c_buf = out, u2c_len = n\<rparr>"
  have ok: "session_ok (?s tail u2c)" "session_ok (?s tail' u2c')"
    using assms by (simp_all add: session_ok_def)
  have "window (?s tail u2c) = window (?s tail' u2c')"
    by (simp add: window_def)
  then have "refused (?s tail u2c) = refused (?s tail' u2c')"
    by (auto simp: refused_def)
  then show ?thesis
    using gateway_filter_correct_ok [OF ok(1)] gateway_filter_correct_ok [OF ok(2)]
    by (simp add: eva_gateway_main_def)
qed

end
