(* ===== verification/Cbmc.thy ===== *)
theory Cbmc
  imports Prelude
begin

text \<open>
  Harnesses of a bounded model checker. A harness is, for given values of its nondeterministic
  inputs, the list of its \<open>__CPROVER_assume\<close> and \<open>assert\<close> statements in the order they are
  reached, with the conditions they have on that run. A run ends where an assumption is false
  (nothing after it is checked) or where an assertion fails. The checker accepts a harness when
  no values of the inputs make an assertion fail; acceptance says something only if a run can
  come to the end.
\<close>

subsection \<open>Runs\<close>

datatype check = Assume bool | Assert bool

type_synonym harness = "check list"

datatype verdict = Passed | Pruned | Failed

fun run_checks :: "harness \<Rightarrow> verdict" where
  "run_checks [] = Passed"
| "run_checks (Assume b # cs) = (if b then run_checks cs else Pruned)"
| "run_checks (Assert b # cs) = (if b then run_checks cs else Failed)"

definition holds :: "harness \<Rightarrow> bool" where
  "holds cs \<longleftrightarrow> run_checks cs \<noteq> Failed"

definition passes :: "harness \<Rightarrow> bool" where
  "passes cs \<longleftrightarrow> run_checks cs = Passed"

text \<open>A conditional block, and a computation that must be defined (the checker's own assertions).\<close>

definition whenever :: "bool \<Rightarrow> harness \<Rightarrow> harness" where
  "whenever b cs = (if b then cs else [])"

definition defined :: "'a option \<Rightarrow> ('a \<Rightarrow> harness) \<Rightarrow> harness" where
  "defined r k = (case r of None \<Rightarrow> [Assert False] | Some x \<Rightarrow> k x)"

definition verified :: "('i \<Rightarrow> harness) \<Rightarrow> bool" where
  "verified h \<longleftrightarrow> (\<forall>i. holds (h i))"

definition vacuous :: "('i \<Rightarrow> harness) \<Rightarrow> bool" where
  "vacuous h \<longleftrightarrow> (\<forall>i. \<not> passes (h i))"

subsection \<open>Reading off a verdict\<close>

lemma holds_simps [simp]:
  "holds []"
  "holds (Assume b # cs) \<longleftrightarrow> (b \<longrightarrow> holds cs)"
  "holds (Assert b # cs) \<longleftrightarrow> b \<and> holds cs"
  by (simp_all add: holds_def)

lemma passes_simps [simp]:
  "passes []"
  "passes (Assume b # cs) \<longleftrightarrow> b \<and> passes cs"
  "passes (Assert b # cs) \<longleftrightarrow> b \<and> passes cs"
  by (simp_all add: passes_def)

lemma passes_holds: "passes cs \<Longrightarrow> holds cs"
  by (simp add: passes_def holds_def)

lemma run_append: "run_checks (xs @ ys) = (if passes xs then run_checks ys else run_checks xs)"
  by (induction xs rule: run_checks.induct) simp_all

lemma passes_append [simp]: "passes (xs @ ys) \<longleftrightarrow> passes xs \<and> passes ys"
  using run_append [of xs ys] by (auto simp: passes_def)

lemma holds_append: "holds (xs @ ys) \<longleftrightarrow> holds xs \<and> (passes xs \<longrightarrow> holds ys)"
  using run_append [of xs ys] passes_holds [of xs] by (auto simp: holds_def)

lemma holds_whenever [simp]: "holds (whenever b cs) \<longleftrightarrow> (b \<longrightarrow> holds cs)"
  "passes (whenever b cs) \<longleftrightarrow> (b \<longrightarrow> passes cs)"
  by (simp_all add: whenever_def)

lemma defined_Some [simp]: "defined (Some x) k = k x"
  by (simp add: defined_def)

lemma holds_defined:
  "holds (defined r k) \<longleftrightarrow> (\<exists>x. r = Some x \<and> holds (k x))"
  "passes (defined r k) \<longleftrightarrow> (\<exists>x. r = Some x \<and> passes (k x))"
  by (simp_all add: defined_def split: option.split)

lemma holds_asserts [simp]:
  "holds (map (\<lambda>x. Assert (p x)) xs) \<longleftrightarrow> (\<forall>x \<in> set xs. p x)"
  "passes (map (\<lambda>x. Assert (p x)) xs) \<longleftrightarrow> (\<forall>x \<in> set xs. p x)"
  by (induction xs) simp_all

text \<open>A run comes to the end when its assertions hold and its assumptions are met.\<close>

fun assumptions_met :: "harness \<Rightarrow> bool" where
  "assumptions_met [] = True"
| "assumptions_met (Assume b # cs) = (b \<and> assumptions_met cs)"
| "assumptions_met (Assert b # cs) = assumptions_met cs"

lemma assumptions_met_append [simp]:
  "assumptions_met (xs @ ys) \<longleftrightarrow> assumptions_met xs \<and> assumptions_met ys"
  by (induction xs rule: assumptions_met.induct) simp_all

lemma assumptions_met_whenever [simp]: "assumptions_met (whenever b cs) \<longleftrightarrow> (b \<longrightarrow> assumptions_met cs)"
  by (simp add: whenever_def)

lemma assumptions_met_defined [simp]:
  "assumptions_met (defined r k) \<longleftrightarrow> (\<forall>x. r = Some x \<longrightarrow> assumptions_met (k x))"
  by (simp add: defined_def split: option.split)

lemma assumptions_met_asserts [simp]: "assumptions_met (map (\<lambda>x. Assert (p x)) xs)"
  by (induction xs) simp_all

lemma passes_iff: "passes cs \<longleftrightarrow> holds cs \<and> assumptions_met cs"
  by (induction cs rule: run_checks.induct) (auto simp: passes_def holds_def)

lemma verified_passes: "verified h \<Longrightarrow> passes (h i) \<longleftrightarrow> assumptions_met (h i)"
  by (simp add: verified_def passes_iff)

text \<open>A sequence of harnesses holds if each does; the converse needs every run to go on.\<close>

lemma holds_concat: "\<forall>cs \<in> set css. holds cs \<Longrightarrow> holds (concat css)"
  by (induction css) (simp_all add: holds_append)

lemma passes_concat: "passes (concat css) \<longleftrightarrow> (\<forall>cs \<in> set css. passes cs)"
  by (induction css) simp_all

lemma holds_concat_failed:
  "\<forall>cs \<in> set before. passes cs \<Longrightarrow> \<not> holds cs \<Longrightarrow> \<not> holds (concat (before @ cs # after))"
  by (simp add: holds_append passes_concat [symmetric])

end
