(* ===== verification/Ledger.thy ===== *)
theory Ledger
  imports Cbmc
begin

text \<open>
  Checked arithmetic, token transfers and ledger entries, fees and vote counting, as the
  verification sources state them: \<open>verification/cbmc/cbmc_overflow.c\<close> and
  \<open>verification/framac/wp_token_ledger.c\<close>. An output pointer that is written only on success is an
  optional result; balances reached through pointers live in a store, so that two pointers may
  be the same.
\<close>

subsection \<open>Checked arithmetic\<close>

definition safe_add_u64 :: "u64 \<Rightarrow> u64 \<Rightarrow> u64 option" where
  "safe_add_u64 a b = (if a > UINT64_MAX - b then None else Some (a + b))"

definition safe_sub_u64 :: "u64 \<Rightarrow> u64 \<Rightarrow> u64 option" where
  "safe_sub_u64 a b = (if a < b then None else Some (a - b))"

definition safe_add_votes :: "u32 \<Rightarrow> u32 \<Rightarrow> u32 option" where
  "safe_add_votes current weight =
     (if current > UINT32_MAX - weight then None else Some (current + weight))"

definition saturating_mul_u64 :: "u64 \<Rightarrow> u64 \<Rightarrow> u64" where
  "saturating_mul_u64 a b =
     (if a = 0 \<or> b = 0 then 0 else if a > UINT64_MAX div b then UINT64_MAX else a * b)"

definition calculate_priority :: "u64 \<Rightarrow> u64 \<Rightarrow> u64" where
  "calculate_priority fee sz = (if sz = 0 then 0 else fee div sz)"

definition quorum_reached :: "u32 \<Rightarrow> u32 \<Rightarrow> bool" where
  "quorum_reached votes total_validators =
     (if total_validators = 0 then False else votes \<ge> total_validators div 10 + 1)"

subsection \<open>Transfers between balances in memory\<close>

type_synonym balances = "addr \<Rightarrow> u64 option"

definition transfer_model ::
  "addr option \<Rightarrow> addr option \<Rightarrow> u64 \<Rightarrow> balances \<Rightarrow> (bool \<times> balances) option" where
  "transfer_model sender_bal receiver_bal amount m =
     (case (sender_bal, receiver_bal) of
        (Some s, Some r) \<Rightarrow>
          if amount = 0 then Some (True, m)
          else do {
            old_sender \<leftarrow> m s;
            (case safe_sub_u64 old_sender amount of
               None \<Rightarrow> Some (False, m)
             | Some new_sender \<Rightarrow> do {
                 old_receiver \<leftarrow> m r;
                 (case safe_add_u64 old_receiver amount of
                    None \<Rightarrow> Some (False, m)
                  | Some new_receiver \<Rightarrow>
                      Some (True, m(s \<mapsto> new_sender, r \<mapsto> new_receiver))) }) }
      | _ \<Rightarrow> Some (False, m))"

text \<open>The harness calls it many times; \<open>transfers\<close> is any sequence of calls.\<close>

fun transfers :: "(addr \<times> addr \<times> u64) list \<Rightarrow> balances \<Rightarrow> balances option" where
  "transfers [] m = Some m"
| "transfers ((s, r, x) # reqs) m = do {
     (ok, m) \<leftarrow> transfer_model (Some s) (Some r) x m;
     transfers reqs m }"

definition total_supply :: "balances \<Rightarrow> nat" where
  "total_supply m = (\<Sum>a \<in> dom m. unat (the (m a)))"

subsection \<open>Ledger entries\<close>

datatype ModelError = MODEL_OK | MODEL_ERR_VALIDATION

fun ModelError_value :: "ModelError \<Rightarrow> int" where
  "ModelError_value MODEL_OK = 0"
| "ModelError_value MODEL_ERR_VALIDATION = -200"

record BalanceEntry =
  balance :: u64
  utxo_count :: u32
  occupied :: bool

definition ledger_credit_model :: "BalanceEntry \<Rightarrow> u64 \<Rightarrow> ModelError \<times> BalanceEntry" where
  "ledger_credit_model e amount =
     (if balance e > UINT64_MAX - amount then (MODEL_ERR_VALIDATION, e)
      else (MODEL_OK, e\<lparr>balance := balance e + amount, utxo_count := utxo_count e + 1\<rparr>))"

definition ledger_debit_model :: "BalanceEntry \<Rightarrow> u64 \<Rightarrow> ModelError \<times> BalanceEntry" where
  "ledger_debit_model e amount =
     (if balance e < amount then (MODEL_ERR_VALIDATION, e)
      else
        let e = e\<lparr>balance := balance e - amount\<rparr>;
            e = (if utxo_count e > 0 then e\<lparr>utxo_count := utxo_count e - 1\<rparr> else e)
        in (MODEL_OK, e))"

text \<open>The answer holds the assertions in the body, in order, and the entry.\<close>

definition conservation_law :: "BalanceEntry \<Rightarrow> u64 \<Rightarrow> bool list \<times> BalanceEntry" where
  "conservation_law e amount =
     (let old_balance = balance e;
          (r1, e1) = ledger_credit_model e amount;
          (r2, e2) = ledger_debit_model e1 amount in
      ([r1 = MODEL_OK, balance e1 = old_balance + amount,
        r2 = MODEL_OK, balance e2 = old_balance], e2))"

subsection \<open>The harness\<close>

text \<open>The balances of the harness are two locals, at the addresses 0 and 1.\<close>

definition two_balances :: "u64 \<Rightarrow> u64 \<Rightarrow> balances" where
  "two_balances s r = [0 \<mapsto> s, 1 \<mapsto> r]"

definition overflow_harness ::
  "u64 \<Rightarrow> u64 \<Rightarrow> u64 \<Rightarrow> u64 \<Rightarrow> u64 \<Rightarrow> u32 \<Rightarrow> u32 \<Rightarrow> harness" where
  "overflow_harness sender_bal receiver_bal amount fee sz votes total_vals =
     [Assume (sender_bal \<le> 1000000), Assume (receiver_bal \<le> 1000000), Assume (amount \<le> 2000000)] @
     (let total_before = sender_bal + receiver_bal in
      defined (transfer_model (Some 0) (Some 1) amount (two_balances sender_bal receiver_bal)) (\<lambda>(ok, m).
        whenever ok
          (defined (m 0) (\<lambda>s. defined (m 1) (\<lambda>r.
             (let total_after = s + r in
              [Assert (total_after = total_before), Assert (s \<le> sender_bal), Assert (r \<ge> receiver_bal)])))))) @
     whenever (amount > sender_bal)
       (defined (transfer_model (Some 0) (Some 1) amount (two_balances sender_bal receiver_bal))
          (\<lambda>(ok, m). [Assert (\<not> ok)])) @
     defined (transfer_model (Some 0) (Some 1) 100 (two_balances 100 (UINT64_MAX - 50)))
       (\<lambda>(ok, m). [Assert (\<not> ok)]) @
     [Assert (safe_add_u64 UINT64_MAX 1 = None),
      Assert (safe_add_u64 (UINT64_MAX div 2 + 1) (UINT64_MAX div 2 + 1) = None),
      Assert (safe_sub_u64 0 1 = None), Assert (safe_sub_u64 100 101 = None),
      Assert (safe_sub_u64 100 100 \<noteq> None), Assert (safe_sub_u64 100 100 = Some 0)] @
     [Assume (fee \<le> 1000000), Assume (sz \<le> 1000000)] @
     (let product = saturating_mul_u64 fee sz in [Assert (product \<le> UINT64_MAX)]) @
     [Assert (saturating_mul_u64 UINT64_MAX 2 = UINT64_MAX),
      Assert (saturating_mul_u64 0 UINT64_MAX = 0),
      Assert (saturating_mul_u64 1 UINT64_MAX = UINT64_MAX)] @
     (let prio = calculate_priority fee sz in whenever (sz = 0) [Assert (prio = 0)]) @
     [Assume (total_vals \<ge> 4 \<and> total_vals \<le> 256),
      Assert (safe_add_votes UINT32_MAX 1 = None),
      Assume (votes \<le> total_vals)] @
     (let q = quorum_reached votes total_vals in whenever (votes = total_vals) [Assert q])"

subsection \<open>The interface of checked arithmetic\<close>

text \<open>
  What the ledger relies on: addition and subtraction are those of the numbers a word stands
  for, and fail exactly when the result is not one of them.
\<close>

locale checked_addition =
  fixes add :: "'w \<Rightarrow> 'w \<Rightarrow> 'w option"
    and val :: "'w \<Rightarrow> nat"
    and cap :: nat
  assumes val_cap: "val a \<le> cap"
    and add_None: "add a b = None \<longleftrightarrow> cap < val a + val b"
    and add_Some: "add a b = Some c \<Longrightarrow> val c = val a + val b"
begin

lemma add_total: "val a + val b \<le> cap \<Longrightarrow> \<exists>c. add a b = Some c \<and> val c = val a + val b"
  using add_None add_Some by (metis linorder_not_le option.exhaust)

lemma add_grows: "add a b = Some c \<Longrightarrow> val a \<le> val c"
  by (simp add: add_Some)

end

locale checked_arithmetic = checked_addition add val cap
  for add :: "'w \<Rightarrow> 'w \<Rightarrow> 'w option" and val :: "'w \<Rightarrow> nat" and cap :: nat +
  fixes sub :: "'w \<Rightarrow> 'w \<Rightarrow> 'w option"
  assumes sub_None: "sub a b = None \<longleftrightarrow> val a < val b"
    and sub_Some: "sub a b = Some c \<Longrightarrow> val c + val b = val a"
begin

lemma move_conserves:
  "sub a x = Some a' \<Longrightarrow> add b x = Some b' \<Longrightarrow> val a' + val b' = val a + val b"
  using sub_Some [of a x a'] add_Some [of b x b'] by arith

lemma sub_shrinks: "sub a x = Some a' \<Longrightarrow> val a' \<le> val a"
  using sub_Some [of a x a'] by arith

end

lemma unat_minus_le: "b \<le> a \<Longrightarrow> unat (a - b) + unat b = unat a"
  by (simp add: word_le_nat_alt unat_sub)

lemma no_room_comm:
  fixes a b :: "'a::len word"
  shows "(a > - 1 - b) \<longleftrightarrow> 2 ^ LENGTH('a) \<le> unat a + unat b"
  using no_room_iff [of b a] by (simp add: add.commute)

interpretation balance_arith: checked_arithmetic safe_add_u64 unat "2 ^ 64 - 1" safe_sub_u64
proof
  fix a b c :: u64
  show "unat a \<le> 2 ^ 64 - 1" using unsigned_less [of a, where 'a = nat] by simp
  show "safe_add_u64 a b = None \<longleftrightarrow> 2 ^ 64 - 1 < unat a + unat b"
    by (auto simp: safe_add_u64_def no_room_comm)
  show "safe_add_u64 a b = Some c \<Longrightarrow> unat c = unat a + unat b"
    by (auto simp: safe_add_u64_def no_room_comm unat_word_ariths split: if_splits)
  show "safe_sub_u64 a b = None \<longleftrightarrow> unat a < unat b"
    by (simp add: safe_sub_u64_def word_less_nat_alt)
  show "safe_sub_u64 a b = Some c \<Longrightarrow> unat c + unat b = unat a"
    using unat_minus_le [of b a] by (auto simp: safe_sub_u64_def not_less split: if_splits)
qed

interpretation vote_arith: checked_addition safe_add_votes unat "2 ^ 32 - 1"
proof
  fix a b c :: u32
  show "unat a \<le> 2 ^ 32 - 1" using unsigned_less [of a, where 'a = nat] by simp
  show "safe_add_votes a b = None \<longleftrightarrow> 2 ^ 32 - 1 < unat a + unat b"
    by (auto simp: safe_add_votes_def no_room_comm)
  show "safe_add_votes a b = Some c \<Longrightarrow> unat c = unat a + unat b"
    by (auto simp: safe_add_votes_def no_room_comm unat_word_ariths split: if_splits)
qed

lemma saturating_mul_spec:
  "unat (saturating_mul_u64 a b) = min (unat a * unat b) (2 ^ 64 - 1)"
proof (cases "a = 0 \<or> b = 0")
  case True
  then show ?thesis by (auto simp: saturating_mul_u64_def)
next
  case False
  then have pos: "0 < unat b" by (simp add: unat_gt_0)
  have max: "unat UINT64_MAX = 2 ^ 64 - 1" by (simp add: unat_UINT64_MAX)
  have "a > UINT64_MAX div b \<longleftrightarrow> (2 ^ 64 - 1) div unat b < unat a"
    by (simp only: word_less_nat_alt unat_div max)
  also have "\<dots> \<longleftrightarrow> 2 ^ 64 - 1 < unat a * unat b"
    using pos by (rule div_less_iff_less_mult)
  finally show ?thesis
    using False max by (auto simp: saturating_mul_u64_def unat_word_ariths min_def)
qed

lemma quorum_reached_spec:
  "quorum_reached votes vals \<longleftrightarrow> 0 < unat vals \<and> unat vals < 10 * unat votes"
proof -
  have "unat vals div 10 < 2 ^ 32 - 1"
    using unsigned_less [of vals, where 'a = nat] by simp
  then have "unat (vals div 10 + 1) = unat vals div 10 + 1"
    by (simp add: unat_word_ariths unat_div)
  then show ?thesis
    by (auto simp: quorum_reached_def word_le_nat_alt unat_gt_0 word_neq_0_conv)
qed

subsection \<open>Transfers conserve the supply\<close>

lemma total_supply_upd1:
  assumes "finite (dom m)" "m s = Some x"
  shows "total_supply (m(s \<mapsto> x')) + unat x = total_supply m + unat x'"
proof -
  have "total_supply m = unat x + (\<Sum>a \<in> dom m - {s}. unat (the (m a)))"
    unfolding total_supply_def by (subst sum.remove [of _ s]) (use assms in auto)
  moreover have "total_supply (m(s \<mapsto> x')) = unat x' + (\<Sum>a \<in> dom m - {s}. unat (the ((m(s \<mapsto> x')) a)))"
    unfolding total_supply_def by (subst sum.remove [of _ s]) (use assms in auto)
  moreover have "(\<Sum>a \<in> dom m - {s}. unat (the ((m(s \<mapsto> x')) a))) = (\<Sum>a \<in> dom m - {s}. unat (the (m a)))"
    by (rule sum.cong) auto
  ultimately show ?thesis by simp
qed

lemma total_supply_upd:
  assumes "finite (dom m)" "m s = Some x" "m r = Some y" "s \<noteq> r"
    and "unat x' + unat y' = unat x + unat y"
  shows "total_supply (m(s \<mapsto> x', r \<mapsto> y')) = total_supply m"
  using total_supply_upd1 [of m s x x'] total_supply_upd1 [of "m(s \<mapsto> x')" r y y'] assms by simp

lemma transfer_cases:
  assumes "m s = Some x" "m r = Some y"
  obtains (noop) "transfer_model (Some s) (Some r) a m = Some (True, m)" "a = 0"
    | (refused) "transfer_model (Some s) (Some r) a m = Some (False, m)"
        "unat x < unat a \<or> 2 ^ 64 - 1 < unat y + unat a" "a \<noteq> 0"
    | (moved) x' y' where
        "transfer_model (Some s) (Some r) a m = Some (True, m(s \<mapsto> x', r \<mapsto> y'))"
        "safe_sub_u64 x a = Some x'" "safe_add_u64 y a = Some y'" "a \<noteq> 0"
proof -
  show ?thesis
  proof (cases "a = 0")
    case True
    then show ?thesis using noop by (simp add: transfer_model_def)
  next
    case False
    show ?thesis
    proof (cases "safe_sub_u64 x a")
      case None
      then show ?thesis
        using refused False assms balance_arith.sub_None [of x a] by (simp add: transfer_model_def)
    next
      case (Some x')
      then show ?thesis
        using refused moved False assms balance_arith.add_None [of y a]
        by (cases "safe_add_u64 y a") (simp_all add: transfer_model_def)
    qed
  qed
qed

lemma transfer_conserves:
  assumes "finite (dom m)" "s \<in> dom m" "r \<in> dom m" "s \<noteq> r"
  shows "\<exists>ok m'. transfer_model (Some s) (Some r) a m = Some (ok, m')
    \<and> dom m' = dom m \<and> total_supply m' = total_supply m"
proof -
  obtain x y where xy: "m s = Some x" "m r = Some y" using assms by auto
  then show ?thesis
  proof (cases rule: transfer_cases [where a = a])
    case (moved x' y')
    then have "total_supply (m(s \<mapsto> x', r \<mapsto> y')) = total_supply m"
      using balance_arith.move_conserves by (intro total_supply_upd [OF assms(1) xy assms(4)]) blast
    moreover have "dom (m(s \<mapsto> x', r \<mapsto> y')) = dom m" using assms by auto
    ultimately show ?thesis using moved by (simp add: ex_bool_eq)
  qed (simp_all add: ex_bool_eq)
qed

text \<open>C27. Whatever transfers are asked for, in any order, between different balances, each is
  defined, and the sum of all balances (as a number, not modulo \<open>2 ^ 64\<close>) stays what it was: a
  refused transfer changes nothing and an accepted one moves the amount.\<close>

theorem transfers_conserve_supply:
  assumes "finite (dom m)" "\<forall>(s, r, a) \<in> set reqs. s \<in> dom m \<and> r \<in> dom m \<and> s \<noteq> r"
  shows "\<exists>m'. transfers reqs m = Some m' \<and> dom m' = dom m \<and> total_supply m' = total_supply m"
  using assms
proof (induction reqs arbitrary: m)
  case (Cons req reqs)
  obtain s r a where req: "req = (s, r, a)" by (cases req)
  obtain ok m1 where step: "transfer_model (Some s) (Some r) a m = Some (ok, m1)"
      "dom m1 = dom m" "total_supply m1 = total_supply m"
    using transfer_conserves [of m s r a] Cons.prems req by auto
  then show ?case using Cons.IH [of m1] Cons.prems req by simp
qed simp

theorem transfers_conserve_supply_witness:
  "\<exists>m'. transfers [(0, 1, 30), (1, 0, 200)] [0 \<mapsto> 50, 1 \<mapsto> 70] = Some m'
     \<and> dom m' = {0, 1} \<and> total_supply m' = 120"
proof -
  have "total_supply [0 \<mapsto> 50, 1 \<mapsto> 70] = 120" by (simp add: total_supply_def)
  then show ?thesis
    using transfers_conserve_supply [of "[0 \<mapsto> 50, 1 \<mapsto> 70]" "[(0, 1, 30), (1, 0, 200)]"]
    by (simp add: insert_commute)
qed

text \<open>Nothing in \<open>transfer_model\<close> compares the two pointers: a transfer from a balance to
  itself that is accepted and not empty adds the amount to the balance and to the supply.\<close>

lemma self_transfer_mints:
  assumes "finite (dom m)" "m s = Some x" "a \<le> x" "unat x + unat a < 2 ^ 64" "a \<noteq> 0"
  shows "transfer_model (Some s) (Some s) a m = Some (True, m(s \<mapsto> x + a))
    \<and> total_supply (m(s \<mapsto> x + a)) = total_supply m + unat a"
  using assms(2,2)
proof (cases rule: transfer_cases [where a = a])
  case (moved x' y')
  then have "y' = x + a" by (simp add: safe_add_u64_def split: if_splits)
  moreover from this have "unat (x + a) = unat x + unat a" using moved balance_arith.add_Some by blast
  ultimately show ?thesis
    using moved total_supply_upd1 [OF assms(1,2), of "x + a"] by simp
qed (use assms in \<open>auto simp: word_le_nat_alt\<close>)

theorem self_transfer_mints_witness:
  "transfer_model (Some 0) (Some 0) 30 [0 \<mapsto> 50] = Some (True, [0 \<mapsto> 80])
    \<and> total_supply [0 \<mapsto> 80] = total_supply [0 \<mapsto> 50] + 30"
  using self_transfer_mints [of "[0 \<mapsto> 50]" 0 50 30] by simp

subsection \<open>Ledger entries as accounts\<close>

text \<open>The specification: a number between zero and the capacity.\<close>

datatype entry_op = Credit u64 | Debit u64

fun account :: "entry_op \<Rightarrow> nat \<Rightarrow> nat option" where
  "account (Credit a) n = (if n + unat a < 2 ^ 64 then Some (n + unat a) else None)"
| "account (Debit a) n = (if unat a \<le> n then Some (n - unat a) else None)"

fun entry_step :: "entry_op \<Rightarrow> BalanceEntry \<Rightarrow> ModelError \<times> BalanceEntry" where
  "entry_step (Credit a) e = ledger_credit_model e a"
| "entry_step (Debit a) e = ledger_debit_model e a"

fun entry_run :: "entry_op list \<Rightarrow> BalanceEntry \<Rightarrow> ModelError list \<times> BalanceEntry" where
  "entry_run [] e = ([], e)"
| "entry_run (c # cs) e =
     (let (r, e1) = entry_step c e; (rs, e2) = entry_run cs e1 in (r # rs, e2))"

fun account_run :: "entry_op list \<Rightarrow> nat \<Rightarrow> ModelError list \<times> nat" where
  "account_run [] n = ([], n)"
| "account_run (c # cs) n =
     (case account c n of
        None \<Rightarrow> (let (rs, k) = account_run cs n in (MODEL_ERR_VALIDATION # rs, k))
      | Some n' \<Rightarrow> (let (rs, k) = account_run cs n' in (MODEL_OK # rs, k)))"

lemma entry_step_refines:
  "(case account c (unat (balance e)) of
      None \<Rightarrow> entry_step c e = (MODEL_ERR_VALIDATION, e)
    | Some n \<Rightarrow> fst (entry_step c e) = MODEL_OK \<and> unat (balance (snd (entry_step c e))) = n)"
proof (cases c)
  case (Credit a)
  then show ?thesis
    by (auto simp: ledger_credit_model_def no_room_comm unat_word_ariths not_le)
next
  case (Debit a)
  then show ?thesis
    by (auto simp: ledger_debit_model_def word_less_nat_alt unat_sub word_le_nat_alt Let_def)
qed

text \<open>C28. Any sequence of credits and debits of a ledger entry answers what a bounded counter of
  unbounded integers answers, and leaves the balance that counter holds: no sequence wraps, and a
  refused operation does not change the entry.\<close>

theorem ledger_entry_refines_account:
  "(fst (entry_run cs e), unat (balance (snd (entry_run cs e)))) = account_run cs (unat (balance e))"
proof (induction cs arbitrary: e)
  case (Cons c cs)
  show ?case
    using Cons.IH [of "snd (entry_step c e)"] entry_step_refines [of c e]
    by (auto simp: Let_def split_beta split: option.splits) (metis fst_conv snd_conv)+
qed simp

text \<open>
  The count of outputs is not checked: it returns to its old value after a credit and a debit,
  except that a full counter is emptied.
\<close>

lemma conservation_law_holds:
  assumes "unat (balance e) + unat a < 2 ^ 64"
  shows "conservation_law e a =
    ([True, True, True, True],
     if utxo_count e = UINT32_MAX then e\<lparr>utxo_count := 0\<rparr> else e)"
proof -
  have room: "\<not> balance e > UINT64_MAX - a" using assms by (simp add: no_room_comm not_le)
  have sum: "unat (balance e + a) = unat (balance e) + unat a"
    using assms by (simp add: unat_word_ariths)
  have "\<not> balance e + a < a" by (simp add: word_less_nat_alt sum)
  moreover have "0 < utxo_count e + 1 \<longleftrightarrow> utxo_count e \<noteq> UINT32_MAX"
    by (simp add: word_neq_0_conv [symmetric] add_eq_0_iff2)
  ultimately show ?thesis
    using room by (simp add: conservation_law_def ledger_credit_model_def ledger_debit_model_def Let_def)
qed

subsection \<open>The harness holds\<close>

lemma harness_transfer:
  obtains ok m' s' r' where
    "transfer_model (Some 0) (Some 1) a (two_balances s r) = Some (ok, m')"
    "m' 0 = Some s'" "m' 1 = Some r'"
    "ok \<longrightarrow> s' + r' = s + r \<and> s' \<le> s \<and> r' \<ge> r" "a > s \<longrightarrow> \<not> ok"
proof -
  let ?m = "two_balances s r"
  have m: "?m 0 = Some s" "?m 1 = Some r" by (simp_all add: two_balances_def)
  from m show ?thesis
  proof (cases rule: transfer_cases [where a = a])
    case noop
    show ?thesis by (rule that [OF noop(1) m]) (simp_all add: noop(2) not_less)
  next
    case refused
    show ?thesis by (rule that [OF refused(1) m]) simp_all
  next
    case (moved s' r')
    have "s' = s - a" "r' = r + a" "a \<le> s"
      using moved by (auto simp: safe_sub_u64_def safe_add_u64_def not_less split: if_splits)
    moreover have "s' \<le> s" "r' \<ge> r"
      using balance_arith.sub_shrinks [OF moved(2)] balance_arith.add_grows [OF moved(3)]
      by (simp_all add: word_le_nat_alt)
    ultimately show ?thesis by (intro that [OF moved(1), of s' r']) (simp_all add: not_less)
  qed
qed

text \<open>No assertion of the harness fails.\<close>

lemma near_max_refused:
  "transfer_model (Some 0) (Some 1) 100 (two_balances 100 (UINT64_MAX - 50))
     = Some (False, two_balances 100 (UINT64_MAX - 50))"
  by (simp add: transfer_model_def safe_sub_u64_def safe_add_u64_def two_balances_def)

lemma checked_constants:
  "safe_add_u64 UINT64_MAX 1 = None" "safe_add_u64 (UINT64_MAX div 2 + 1) (UINT64_MAX div 2 + 1) = None"
  "safe_sub_u64 0 1 = None" "safe_sub_u64 100 101 = None" "safe_sub_u64 100 100 = Some 0"
  "saturating_mul_u64 0 UINT64_MAX = 0" "safe_add_votes UINT32_MAX 1 = None"
  by (simp_all add: safe_add_u64_def safe_sub_u64_def safe_add_votes_def saturating_mul_u64_def)

lemma saturated_constants:
  "saturating_mul_u64 UINT64_MAX 2 = UINT64_MAX" "saturating_mul_u64 1 UINT64_MAX = UINT64_MAX"
proof -
  have "unat (saturating_mul_u64 UINT64_MAX 2) = unat UINT64_MAX"
    "unat (saturating_mul_u64 1 UINT64_MAX) = unat UINT64_MAX"
    by (simp_all only: saturating_mul_spec unat_UINT64_MAX) (simp_all add: unat_UINT64_MAX)
  then show "saturating_mul_u64 UINT64_MAX 2 = UINT64_MAX" "saturating_mul_u64 1 UINT64_MAX = UINT64_MAX"
    by (simp_all only: word_unat_eq_iff)
qed

lemma overflow_harness_holds:
  "holds (overflow_harness sender_bal receiver_bal amount fee sz votes total_vals)"
proof -
  obtain ok1 m1 s1 r1 where first:
    "transfer_model (Some 0) (Some 1) amount (two_balances sender_bal receiver_bal) = Some (ok1, m1)"
    "m1 0 = Some s1" "m1 1 = Some r1"
    "ok1 \<longrightarrow> s1 + r1 = sender_bal + receiver_bal \<and> s1 \<le> sender_bal \<and> r1 \<ge> receiver_bal"
    "amount > sender_bal \<longrightarrow> \<not> ok1"
    by (rule harness_transfer [of amount sender_bal receiver_bal])
  have "quorum_reached total_vals total_vals" if "4 \<le> total_vals"
    using that by (simp add: quorum_reached_spec word_le_nat_alt)
  moreover have "product \<le> UINT64_MAX" for product :: u64 by (rule word_n1_ge)
  ultimately show ?thesis
    using first
    unfolding overflow_harness_def Let_def near_max_refused checked_constants saturated_constants
    by (simp add: holds_append calculate_priority_def)
qed

end
