(* ===== verification/Governance.thy ===== *)
theory Governance
  imports Prelude
begin

text \<open>
  Governance votes, as \<open>verification/framac/wp_governance.c\<close> states them: the search for an earlier
  vote of a key, the three tallies, and the quorum and approval tests. The tallies and the products
  of the approval test are 64 bit and wrap.
\<close>

subsection \<open>Votes and proposals\<close>

definition GOV_PK_HASH_SIZE :: nat where "GOV_PK_HASH_SIZE = 32"

text \<open>A C enum parameter may hold any integer.\<close>

definition GOV_VOTE_FOR :: int where "GOV_VOTE_FOR = 0"
definition GOV_VOTE_AGAINST :: int where "GOV_VOTE_AGAINST = 1"
definition GOV_VOTE_ABSTAIN :: int where "GOV_VOTE_ABSTAIN = 2"

lemmas vote_codes = GOV_VOTE_FOR_def GOV_VOTE_AGAINST_def GOV_VOTE_ABSTAIN_def

record GovVote =
  voter_pk_hash :: bytes
  vote_choice :: int
  vote_weight :: u64

record GovProposal =
  votes :: "GovVote list"
  vote_count :: nat
  vote_capacity :: nat
  votes_for :: u64
  votes_against :: u64
  votes_abstain :: u64
  total_stake :: u64

subsection \<open>Operations\<close>

fun pk_equal_loop :: "nat list \<Rightarrow> bytes \<Rightarrow> bytes \<Rightarrow> bool option" where
  "pk_equal_loop [] a b = Some True"
| "pk_equal_loop (i # is) a b = do {
     x \<leftarrow> nth_opt a i;
     y \<leftarrow> nth_opt b i;
     (if x \<noteq> y then Some False else pk_equal_loop is a b) }"

definition pk_equal :: "bytes \<Rightarrow> bytes \<Rightarrow> bool option" where
  "pk_equal a b = pk_equal_loop [0..<GOV_PK_HASH_SIZE] a b"

fun has_voted_loop :: "nat list \<Rightarrow> GovProposal \<Rightarrow> bytes \<Rightarrow> bool option" where
  "has_voted_loop [] p pk_hash = Some False"
| "has_voted_loop (i # is) p pk_hash = do {
     v \<leftarrow> nth_opt (votes p) i;
     same \<leftarrow> pk_equal (voter_pk_hash v) pk_hash;
     (if same then Some True else has_voted_loop is p pk_hash) }"

definition has_voted :: "GovProposal \<Rightarrow> bytes \<Rightarrow> bool option" where
  "has_voted p pk_hash = has_voted_loop [0..<vote_count p] p pk_hash"

definition accumulate_vote :: "int \<Rightarrow> u64 \<Rightarrow> GovProposal \<Rightarrow> GovProposal" where
  "accumulate_vote choice weight p =
     (if choice = GOV_VOTE_FOR then p\<lparr>votes_for := votes_for p + weight\<rparr>
      else if choice = GOV_VOTE_AGAINST then p\<lparr>votes_against := votes_against p + weight\<rparr>
      else if choice = GOV_VOTE_ABSTAIN then p\<lparr>votes_abstain := votes_abstain p + weight\<rparr>
      else p)"

definition gov_quorum_reached :: "u64 \<Rightarrow> u64 \<Rightarrow> bool" where
  "gov_quorum_reached total_votes stake =
     (if stake = 0 then False else total_votes \<ge> stake div 10 + 1)"

definition approval_reached :: "u64 \<Rightarrow> u64 \<Rightarrow> bool" where
  "approval_reached for_votes total_votes =
     (if total_votes = 0 then False else for_votes * 100 \<ge> total_votes * 67)"

subsection \<open>The search for an earlier vote\<close>

lemma pk_equal_loop_eq:
  "\<forall>i \<in> set is. i < length a \<and> i < length b \<Longrightarrow>
     pk_equal_loop is a b = Some (\<forall>i \<in> set is. a ! i = b ! i)"
  by (induction "is" a b rule: pk_equal_loop.induct) auto

lemma pk_equal_eq:
  assumes "GOV_PK_HASH_SIZE \<le> length a" "GOV_PK_HASH_SIZE \<le> length b"
  shows "pk_equal a b = Some (take GOV_PK_HASH_SIZE a = take GOV_PK_HASH_SIZE b)"
  using assms by (auto simp: pk_equal_def pk_equal_loop_eq list_eq_iff_nth_eq)

definition proposal_readable :: "GovProposal \<Rightarrow> bool" where
  "proposal_readable p \<longleftrightarrow> vote_count p \<le> length (votes p)
     \<and> (\<forall>v \<in> set (take (vote_count p) (votes p)). GOV_PK_HASH_SIZE \<le> length (voter_pk_hash v))"

lemma has_voted_loop_eq:
  assumes "GOV_PK_HASH_SIZE \<le> length pk"
    and "\<forall>i \<in> set is. i < length (votes p) \<and> GOV_PK_HASH_SIZE \<le> length (voter_pk_hash (votes p ! i))"
  shows "has_voted_loop is p pk = Some (\<exists>i \<in> set is.
      take GOV_PK_HASH_SIZE (voter_pk_hash (votes p ! i)) = take GOV_PK_HASH_SIZE pk)"
  using assms by (induction "is" p pk rule: has_voted_loop.induct) (auto simp: pk_equal_eq)

text \<open>\<open>has_voted\<close> never reads outside the votes that are there, and it answers true exactly when
  one of them was cast with the given key hash.\<close>

lemma has_voted_correct:
  assumes "proposal_readable p" "GOV_PK_HASH_SIZE \<le> length pk"
  shows "has_voted p pk = Some (\<exists>v \<in> set (take (vote_count p) (votes p)).
    take GOV_PK_HASH_SIZE (voter_pk_hash v) = take GOV_PK_HASH_SIZE pk)"
proof -
  have count: "vote_count p \<le> length (votes p)" using assms(1) by (simp add: proposal_readable_def)
  have "set (take (vote_count p) (votes p)) = (!) (votes p) ` {..<vote_count p}"
    using nth_image [OF count] by (simp add: atLeast0LessThan)
  then show ?thesis
    using assms count unfolding has_voted_def
    by (subst has_voted_loop_eq) (auto simp: proposal_readable_def)
qed

definition key_hash :: "byte \<Rightarrow> bytes" where "key_hash b = replicate 32 b"

definition two_votes :: GovProposal where
  "two_votes = \<lparr>votes = [\<lparr>voter_pk_hash = key_hash 1, vote_choice = 0, vote_weight = 10\<rparr>,
                        \<lparr>voter_pk_hash = key_hash 2, vote_choice = 1, vote_weight = 20\<rparr>],
     vote_count = 2, vote_capacity = 2, votes_for = 10, votes_against = 20, votes_abstain = 0,
     total_stake = 100\<rparr>"

theorem has_voted_correct_witness:
  "has_voted two_votes (key_hash 2) = Some True \<and> has_voted two_votes (key_hash 3) = Some False"
  using has_voted_correct [of two_votes "key_hash 2"] has_voted_correct [of two_votes "key_hash 3"]
  by (simp add: proposal_readable_def two_votes_def key_hash_def GOV_PK_HASH_SIZE_def)

subsection \<open>The tallies\<close>

text \<open>A ballot is a list of choices with their weights, cast one after the other.\<close>

fun cast_all :: "(int \<times> u64) list \<Rightarrow> GovProposal \<Rightarrow> GovProposal" where
  "cast_all [] p = p"
| "cast_all ((c, w) # vs) p = cast_all vs (accumulate_vote c w p)"

definition weight_of :: "int \<Rightarrow> (int \<times> u64) list \<Rightarrow> nat" where
  "weight_of c vs = sum_list (map (\<lambda>(d, w). unat w) (filter (\<lambda>(d, w). d = c) vs))"

lemma weight_of_simps [simp]:
  "weight_of c [] = 0"
  "weight_of c ((d, w) # vs) = (if d = c then unat w else 0) + weight_of c vs"
  by (simp_all add: weight_of_def)

lemma cast_all_tallies:
  assumes "unat (votes_for p) + weight_of GOV_VOTE_FOR vs < 2 ^ 64"
    and "unat (votes_against p) + weight_of GOV_VOTE_AGAINST vs < 2 ^ 64"
    and "unat (votes_abstain p) + weight_of GOV_VOTE_ABSTAIN vs < 2 ^ 64"
  shows "unat (votes_for (cast_all vs p)) = unat (votes_for p) + weight_of GOV_VOTE_FOR vs
    \<and> unat (votes_against (cast_all vs p)) = unat (votes_against p) + weight_of GOV_VOTE_AGAINST vs
    \<and> unat (votes_abstain (cast_all vs p)) = unat (votes_abstain p) + weight_of GOV_VOTE_ABSTAIN vs"
  using assms
proof (induction vs p rule: cast_all.induct)
  case (2 c w vs p)
  have "unat (votes_for (accumulate_vote c w p))
      = unat (votes_for p) + (if c = GOV_VOTE_FOR then unat w else 0)"
    "unat (votes_against (accumulate_vote c w p))
      = unat (votes_against p) + (if c = GOV_VOTE_AGAINST then unat w else 0)"
    "unat (votes_abstain (accumulate_vote c w p))
      = unat (votes_abstain p) + (if c = GOV_VOTE_ABSTAIN then unat w else 0)"
    using 2(2-4) by (auto simp: accumulate_vote_def unat_word_ariths vote_codes)
  then show ?case using 2 by (simp add: add.assoc)
qed simp

lemma approval_exact:
  assumes "unat t * 100 < 2 ^ 64" "unat f \<le> unat t"
  shows "approval_reached f t \<longleftrightarrow> 0 < unat t \<and> 67 * unat t \<le> 100 * unat f"
proof -
  have "unat (t * 67) = unat t * 67" "unat (f * 100) = unat f * 100"
    using assms by (simp_all add: unat_word_ariths)
  then show ?thesis
    by (auto simp: approval_reached_def word_le_nat_alt unat_gt_0 mult.commute word_neq_0_conv)
qed

lemma gov_quorum_exact:
  "gov_quorum_reached v s \<longleftrightarrow> 0 < unat s \<and> unat s < 10 * unat v"
proof -
  have "unat s div 10 < 2 ^ 64 - 1"
    using unsigned_less [of s, where 'a = nat] by simp
  then have "unat (s div 10 + 1) = unat s div 10 + 1"
    by (simp add: unat_word_ariths unat_div)
  then show ?thesis
    by (auto simp: gov_quorum_reached_def word_le_nat_alt unat_gt_0 word_neq_0_conv)
qed

text \<open>C31. Tallying any ballot into an empty proposal and testing the result decides what the two
  rules say about the numbers: the quorum is more than a tenth of the stake, the approval at least
  67 in 100 of the weight cast. The condition on the weights is the one of the contract of
  \<open>approval_reached\<close>; nothing in the code enforces it.\<close>

theorem governance_tally_exact:
  assumes "votes_for p = 0" "votes_against p = 0" "votes_abstain p = 0"
    and "cast = weight_of GOV_VOTE_FOR vs + weight_of GOV_VOTE_AGAINST vs + weight_of GOV_VOTE_ABSTAIN vs"
    and "cast * 100 < 2 ^ 64"
    and "q = cast_all vs p"
    and "counted = votes_for q + votes_against q + votes_abstain q"
  shows "unat counted = cast
    \<and> gov_quorum_reached counted stake = (0 < unat stake \<and> unat stake < 10 * cast)
    \<and> approval_reached (votes_for q) counted
        = (0 < cast \<and> 67 * cast \<le> 100 * weight_of GOV_VOTE_FOR vs)"
proof -
  have tallies: "unat (votes_for q) = weight_of GOV_VOTE_FOR vs"
    "unat (votes_against q) = weight_of GOV_VOTE_AGAINST vs"
    "unat (votes_abstain q) = weight_of GOV_VOTE_ABSTAIN vs"
    using cast_all_tallies [of p vs] assms by simp_all
  then have "unat counted = cast"
    using assms by (simp add: unat_word_ariths)
  then show ?thesis
    using approval_exact [of counted "votes_for q"] gov_quorum_exact [of counted stake]
      tallies assms(4,5) by simp
qed

definition fresh_proposal :: GovProposal where
  "fresh_proposal = \<lparr>votes = [], vote_count = 0, vote_capacity = 0, votes_for = 0,
     votes_against = 0, votes_abstain = 0, total_stake = 1000\<rparr>"

definition tallied :: "GovProposal \<Rightarrow> u64" where
  "tallied p = votes_for p + votes_against p + votes_abstain p"

theorem governance_tally_exact_witness:
  "gov_quorum_reached (tallied (cast_all [(0, 70), (1, 20), (2, 11)] fresh_proposal)) 1000
   \<and> approval_reached (votes_for (cast_all [(0, 70), (1, 20), (2, 11)] fresh_proposal))
       (tallied (cast_all [(0, 70), (1, 20), (2, 11)] fresh_proposal))"
  using governance_tally_exact [of fresh_proposal 101 "[(0, 70), (1, 20), (2, 11)]" _ _ 1000,
      OF _ _ _ _ _ refl refl]
  by (simp add: tallied_def fresh_proposal_def vote_codes)

text \<open>Outside that condition the products wrap: one vote approves against all others.\<close>

lemma approval_wraps: "approval_reached 1 275324538413575398"
  by (simp add: approval_reached_def)

text \<open>And so does a tally.\<close>

lemma tally_wraps:
  "votes_for p = UINT64_MAX \<Longrightarrow> votes_for (accumulate_vote GOV_VOTE_FOR 1 p) = 0"
  by (simp add: accumulate_vote_def)

end
