(* ===== verification/Consensus.thy ===== *)
theory Consensus
  imports Cbmc
begin

text \<open>
  Quorum size and leader choice, as \<open>verification/cbmc/cbmc_consensus.c\<close> and
  \<open>verification/framac/wp_consensus.c\<close> state them, in 32 bit arithmetic; division by zero is
  undefined. A quorum formula is only useful if any two quorums share an honest validator and the
  honest validators alone form one: that is proved of both versions, over sets of validators.
\<close>

subsection \<open>Quorum and leader\<close>

definition bft_quorum :: "u32 \<Rightarrow> u32" where
  "bft_quorum n = (2 * n) div 3 + 1"

definition wp_bft_quorum :: "u32 \<Rightarrow> u32" where
  "wp_bft_quorum total_nodes =
     (if total_nodes \<le> 1 then 1
      else if total_nodes \<le> 3 then 2
      else (total_nodes * 2 div 3) + 1)"

definition get_leader_for_view :: "u32 \<Rightarrow> u32 \<Rightarrow> u32" where
  "get_leader_for_view view n_validators =
     (if n_validators = 0 then 0 else (view - 1) mod n_validators)"

definition wp_get_leader_for_view :: "u32 \<Rightarrow> u32 \<Rightarrow> u32 option" where
  "wp_get_leader_for_view view n_validators =
     (if n_validators = 0 then None else Some ((view - 1) mod n_validators))"

text \<open>The result, with the assertions of the body in order.\<close>

definition bft_quorum_supermajority :: "u32 \<Rightarrow> bool list \<times> u32" where
  "bft_quorum_supermajority n =
     (let two_n = n * 2;
          div_val = two_n div 3;
          rem_val = two_n mod 3;
          q = div_val + 1 in
      ([two_n = n * 2, div_val = two_n div 3, rem_val = two_n mod 3, rem_val \<le> 2,
        two_n = 3 * div_val + rem_val, 3 * q = 3 * div_val + 3, 3 * q = two_n - rem_val + 3,
        3 * q \<ge> two_n + 1, 3 * q > 2 * n, q \<le> n], q))"

definition consensus_harness :: "u32 \<Rightarrow> u32 \<Rightarrow> u32 \<Rightarrow> u32 \<Rightarrow> harness" where
  "consensus_harness n view1 view2 view_a =
     [Assume (n \<ge> 4 \<and> n \<le> 256)] @
     (let q = bft_quorum n; opposition = n - q in
      [Assert (q = (2 * n) div 3 + 1),
       Assert (3 * q > 2 * n),
       Assert (3 * opposition < n),
       Assert (q \<le> n),
       Assert (q \<ge> 2),
       Assert (2 * (ucast n :: u64) < ucast UINT32_MAX),
       Assert (bft_quorum 4 = 3), Assert (bft_quorum 7 = 5), Assert (bft_quorum 256 = 171)]) @
     [Assume (view1 \<ge> 1 \<and> view1 \<le> 100), Assume (view2 \<ge> 1 \<and> view2 \<le> 100)] @
     (let leader1 = get_leader_for_view view1 n; leader2 = get_leader_for_view view2 n in
      whenever (view1 = view2) [Assert (leader1 = leader2)] @
      [Assert (leader1 < n), Assert (leader2 < n)]) @
     [Assume (view_a \<ge> 1 \<and> view_a \<le> 100)] @
     whenever (view_a + n \<le> 100)
       [Assert (get_leader_for_view view_a n = get_leader_for_view (view_a + n) n)]"

subsection \<open>As numbers\<close>

lemma unat_bft_quorum:
  assumes "unat n < 2 ^ 31"
  shows "unat (bft_quorum n) = 2 * unat n div 3 + 1"
  using assms by (simp add: bft_quorum_def unat_word_ariths unat_div)

lemma unat_wp_bft_quorum:
  assumes "4 \<le> unat n" "unat n < 2 ^ 31"
  shows "unat (wp_bft_quorum n) = 2 * unat n div 3 + 1"
  using assms by (simp add: wp_bft_quorum_def word_le_nat_alt unat_word_ariths unat_div mult.commute)

lemma unat_leader:
  assumes "n \<noteq> 0" "1 \<le> unat v"
  shows "unat (get_leader_for_view v n) = (unat v - 1) mod unat n"
  using assms by (simp add: get_leader_for_view_def unat_mod unat_sub word_le_nat_alt)

text \<open>The formula at and above \<open>2 ^ 31\<close> is a quorum of one.\<close>

lemma bft_quorum_wraps: "bft_quorum 0x80000000 = 1"
  by (simp add: bft_quorum_def)

text \<open>The two versions differ for three validators only, as far as \<open>2 ^ 31\<close>.\<close>

lemma quorum_versions_differ:
  assumes "unat n < 2 ^ 31"
  shows "bft_quorum n = wp_bft_quorum n \<longleftrightarrow> n \<noteq> 3"
proof (cases "4 \<le> unat n")
  case True
  then show ?thesis
    using assms by (auto simp: word_unat_eq_iff unat_bft_quorum unat_wp_bft_quorum)
next
  case False
  then have "unat n = 0 \<or> unat n = 1 \<or> unat n = 2 \<or> unat n = 3" by arith
  then have "n = 0 \<or> n = 1 \<or> n = 2 \<or> n = 3" by (simp add: word_unat_eq_iff)
  then show ?thesis by (auto simp: bft_quorum_def wp_bft_quorum_def word_le_nat_alt)
qed

subsection \<open>Quorums of validators\<close>

text \<open>The number of faulty validators a group of \<open>n\<close> tolerates.\<close>

definition tolerated :: "nat \<Rightarrow> nat" where
  "tolerated n = (n - 1) div 3"

lemma quorum_arith:
  assumes "1 \<le> n" "q = 2 * n div 3 + (1 :: nat)"
  shows "n + tolerated n < 2 * q" "q + tolerated n \<le> n"
  using assms by (auto simp: tolerated_def)

locale quorum_system =
  fixes quorum :: "u32 \<Rightarrow> u32"
    and valid_size :: "nat \<Rightarrow> bool"
  assumes two_thirds: "valid_size (unat n) \<Longrightarrow> unat (quorum n) = 2 * unat n div 3 + 1"
    and valid_pos: "valid_size k \<Longrightarrow> 1 \<le> k"
begin

lemma quorums_intersect:
  assumes "valid_size (unat n)" "A \<subseteq> {..<unat n}" "B \<subseteq> {..<unat n}"
    and "unat (quorum n) \<le> card A" "unat (quorum n) \<le> card B"
  shows "tolerated (unat n) < card (A \<inter> B)"
proof -
  have fin: "finite A" "finite B" using assms(2,3) by (auto intro: finite_subset)
  have "card (A \<union> B) \<le> unat n"
    using card_mono [of "{..<unat n}" "A \<union> B"] assms(2,3) by simp
  moreover have "card A + card B = card (A \<union> B) + card (A \<inter> B)"
    using fin by (rule card_Un_Int)
  ultimately show ?thesis
    using quorum_arith(1) [OF valid_pos [OF assms(1)] two_thirds [OF assms(1)]] assms(4,5) by linarith
qed

lemma shared_honest:
  assumes "valid_size (unat n)" "A \<subseteq> {..<unat n}" "B \<subseteq> {..<unat n}"
    and "unat (quorum n) \<le> card A" "unat (quorum n) \<le> card B"
    and "F \<subseteq> {..<unat n}" "card F \<le> tolerated (unat n)"
  shows "\<exists>v \<in> A \<inter> B. v \<notin> F"
proof (rule ccontr)
  assume "\<not> ?thesis"
  then have "A \<inter> B \<subseteq> F" by auto
  then have "card (A \<inter> B) \<le> card F" using assms(6) by (intro card_mono) (auto intro: finite_subset)
  then show False using quorums_intersect [OF assms(1-5)] assms(7) by simp
qed

lemma honest_suffice:
  assumes "valid_size (unat n)" "F \<subseteq> {..<unat n}" "card F \<le> tolerated (unat n)"
  shows "unat (quorum n) \<le> card ({..<unat n} - F)"
proof -
  have "card ({..<unat n} - F) = unat n - card F"
    using assms(2) by (subst card_Diff_subset) (auto intro: finite_subset)
  then show ?thesis
    using quorum_arith(2) [OF valid_pos [OF assms(1)] two_thirds [OF assms(1)]] assms(3) by linarith
qed

end

interpretation cbmc_quorum: quorum_system bft_quorum "\<lambda>n. 1 \<le> n \<and> n < 2 ^ 31"
  by unfold_locales (use unat_bft_quorum in auto)

interpretation wp_quorum: quorum_system wp_bft_quorum "\<lambda>n. 4 \<le> n \<and> n < 2 ^ 31"
  by unfold_locales (use unat_wp_bft_quorum in auto)

text \<open>C25. With \<open>n\<close> validators of which at most \<open>(n - 1) / 3\<close> are faulty, any two sets of at least
  \<open>bft_quorum(n)\<close> validators share an honest one, and the honest validators alone reach the quorum:
  two conflicting decisions are impossible, and faulty validators cannot block one.\<close>

theorem quorums_share_an_honest_validator:
  assumes "1 \<le> unat n" "unat n < 2 ^ 31" "F \<subseteq> {..<unat n}" "card F \<le> tolerated (unat n)"
    and "A \<subseteq> {..<unat n}" "B \<subseteq> {..<unat n}"
    and "unat (bft_quorum n) \<le> card A" "unat (bft_quorum n) \<le> card B"
  shows "(\<exists>v \<in> A \<inter> B. v \<notin> F) \<and> unat (bft_quorum n) \<le> card ({..<unat n} - F)"
  using cbmc_quorum.shared_honest [of n A B F] cbmc_quorum.honest_suffice [of n F] assms by simp

theorem quorums_share_an_honest_validator_witness:
  "(\<exists>v \<in> {0, 1, 2} \<inter> {1, 2, 3 :: nat}. v \<notin> {1}) \<and> unat (bft_quorum 4) \<le> card ({..<4} - {1 :: nat})"
  using quorums_share_an_honest_validator [of 4 "{1}" "{0, 1, 2}" "{1, 2, 3}"]
  by (simp add: tolerated_def bft_quorum_def)

subsection \<open>Leaders\<close>

lemma window_mod_inj:
  assumes "(k + i) mod n = (k + j) mod (n :: nat)" "i < n" "j < n"
  shows "i = j"
proof -
  have "\<And>i j. i \<le> j \<Longrightarrow> j < n \<Longrightarrow> (k + i) mod n = (k + j) mod n \<Longrightarrow> i = j"
  proof -
    fix i j assume ij: "i \<le> j" "j < n" "(k + i) mod n = (k + j) mod n"
    then have "n dvd (k + j) - (k + i)" by (intro mod_eq_dvd_iff_nat [THEN iffD1]) auto
    then show "i = j" using ij by (auto dest: dvd_imp_le)
  qed
  then show ?thesis using assms by (metis nat_le_linear)
qed

text \<open>In any \<open>n\<close> views in a row (starting from view 1 or later and not running over the 32 bit
  view number) every one of the \<open>n\<close> validators leads exactly once.\<close>

lemma leaders_rotate_fairly:
  assumes "n \<noteq> 0" "1 \<le> unat v" "unat v + unat n \<le> 2 ^ 32"
  shows "bij_betw (\<lambda>i. unat (get_leader_for_view (v + of_nat i) n)) {..<unat n} {..<unat n}"
proof -
  have leader: "unat (get_leader_for_view (v + of_nat i) n) = (unat v - 1 + i) mod unat n"
    if "i < unat n" for i
  proof -
    have "unat (v + of_nat i) = unat v + i"
      using that assms(3) by (simp add: unat_word_ariths unat_of_nat take_bit_nat_eq_self)
    then show ?thesis using assms unat_leader [of n "v + of_nat i"] by simp
  qed
  have inj: "inj_on (\<lambda>i. unat (get_leader_for_view (v + of_nat i) n)) {..<unat n}"
    by (rule inj_onI) (auto simp: leader dest: window_mod_inj)
  moreover have "(\<lambda>i. unat (get_leader_for_view (v + of_nat i) n)) ` {..<unat n} \<subseteq> {..<unat n}"
    using assms(1) by (auto simp: leader unat_gt_0)
  ultimately show ?thesis
    by (simp add: bij_betw_def endo_inj_surj)
qed

lemma leaders_rotate_fairly_witness:
  "bij_betw (\<lambda>i. unat (get_leader_for_view (3 + of_nat i) 4)) {..<4} {..<4}"
  using leaders_rotate_fairly [of 4 3] by simp

subsection \<open>The harness and the contract\<close>

lemma supermajority_asserts:
  assumes "4 \<le> n" "n \<le> 256"
  shows "list_all id (fst (bft_quorum_supermajority n)) \<and> snd (bft_quorum_supermajority n) = bft_quorum n"
proof -
  have n: "4 \<le> unat n" "unat n \<le> 256" using assms by (simp_all add: word_le_nat_alt)
  obtain d r where dr: "n * 2 div 3 = d" "n * 2 mod 3 = r" by simp
  have parts: "n * 2 = 3 * d + r"
    using mult_div_mod_eq [of 3 "n * 2"] dr by simp
  have two: "unat (n * 2) = 2 * unat n" using n by (simp add: unat_word_ariths)
  have d: "unat d = 2 * unat n div 3" and r: "unat r \<le> 2"
    using dr two by (auto simp: unat_div unat_mod)
  have q: "unat (d + 1) = unat d + 1" "unat (3 * (d + 1)) = 3 * (unat d + 1)"
    "unat (n * 2 + 1) = 2 * unat n + 1"
    using n d two by (simp_all add: unat_word_ariths)
  have "n * 2 + 1 \<le> 3 * (d + 1)" "2 * n < 3 * (d + 1)" "d + 1 \<le> n" "r \<le> 2"
    using n d r q two by (simp_all add: word_le_nat_alt word_less_nat_alt mult.commute [of 2 n])
  moreover have "3 * (d + 1) = 3 * d + 3" "3 * (d + 1) = n * 2 - r + 3"
    by (simp_all only: parts) (simp_all add: algebra_simps)
  ultimately show ?thesis
    unfolding bft_quorum_supermajority_def Let_def bft_quorum_def mult.commute [of 2 n] dr
    using parts by simp
qed

text \<open>No assertion of the harness fails.\<close>

lemma quorum_assertions:
  assumes "4 \<le> n" "n \<le> 256"
  shows "2 * n < 3 * bft_quorum n" "3 * (n - bft_quorum n) < n" "bft_quorum n \<le> n" "2 \<le> bft_quorum n"
    "2 * (ucast n :: u64) < ucast UINT32_MAX"
proof -
  have n: "4 \<le> unat n" "unat n \<le> 256" "n \<noteq> 0" using assms by (auto simp: word_le_nat_alt)
  have q: "unat (bft_quorum n) = 2 * unat n div 3 + 1" using n by (intro unat_bft_quorum) simp
  show le: "bft_quorum n \<le> n" "2 \<le> bft_quorum n" using n q by (simp_all add: word_le_nat_alt)
  have opp: "unat (n - bft_quorum n) = unat n - unat (bft_quorum n)"
    using le by (simp add: unat_sub)
  have "unat (3 * bft_quorum n) = 3 * unat (bft_quorum n)" "unat (2 * n) = 2 * unat n"
    using n q by (simp_all add: unat_word_ariths)
  then show "2 * n < 3 * bft_quorum n" using n q by (simp add: word_less_nat_alt)
  obtain against where against: "n - bft_quorum n = against" by simp
  have "unat (3 * against) = 3 * (unat n - unat (bft_quorum n))"
    using n q opp by (simp add: against unat_word_ariths)
  then show "3 * (n - bft_quorum n) < n" using n q by (simp add: against word_less_nat_alt)
  show "2 * (ucast n :: u64) < ucast UINT32_MAX"
    using n by (simp add: word_less_nat_alt unat_word_ariths unsigned_ucast_eq take_bit_nat_eq_self
        unat_UINT32_MAX)
qed

lemma leader_rotates:
  assumes "4 \<le> n" "n \<le> 256" "1 \<le> v" "v \<le> 100"
  shows "get_leader_for_view v n = get_leader_for_view (v + n) n"
proof -
  have n: "4 \<le> unat n" "unat n \<le> 256" "n \<noteq> 0" and v: "1 \<le> unat v" "unat v \<le> 100"
    using assms by (auto simp: word_le_nat_alt)
  have "unat (v + n) = unat v + unat n" using n v by (simp add: unat_word_ariths)
  moreover have "unat v + unat n - 1 = unat v - 1 + unat n" using v by simp
  then have "(unat v + unat n - 1) mod unat n = (unat v - 1) mod unat n" by (simp only: mod_add_self2)
  ultimately show ?thesis
    using n v unat_leader [of n v] unat_leader [of n "v + n"] by (simp add: word_unat_eq_iff)
qed

lemma consensus_harness_holds: "holds (consensus_harness n view1 view2 view_a)"
proof (cases "4 \<le> n \<and> n \<le> 256")
  case True
  then have "4 \<le> n" "n \<le> 256" by simp_all
  note facts = quorum_assertions [OF this] leader_rotates [OF this, of view_a]
  have "get_leader_for_view view n < n" for view
    using \<open>4 \<le> n\<close> by (auto simp: get_leader_for_view_def word_less_nat_alt word_le_nat_alt unat_mod)
  moreover have "bft_quorum 4 = 3" "bft_quorum 7 = 5" "bft_quorum 256 = 171"
    "bft_quorum n = 2 * n div 3 + 1"
    by (simp_all add: bft_quorum_def)
  ultimately show ?thesis
    using facts unfolding consensus_harness_def Let_def by (simp only: holds_append holds_simps
        passes_simps passes_append holds_whenever) blast
qed (auto simp: consensus_harness_def)

end
