(* ===== verification/Utxo.thy ===== *)
theory Utxo
  imports Ledger
begin

text \<open>
  Marking transaction outputs as spent, as \<open>verification/cbmc/cbmc_utxo.c\<close> and
  \<open>verification/framac/wp_utxo.c\<close> state it. A pointer into the set is an index; NULL is \<open>None\<close>.
  Access outside the entries is undefined behaviour. The contract both versions are shown to meet
  is the locale \<open>spend_once\<close>.
\<close>

subsection \<open>The version with a lookup\<close>

record UTXO =
  tx_hash :: bytes
  output_index :: u32
  amount :: u64
  spent :: bool
  owner_pubkey_hash :: bytes

record UTXOSet =
  entries :: "UTXO list"
  set_count :: nat
  set_capacity :: nat

text \<open>
  The codes that the function returns; their declaration stands in a comment that is not
  closed (line 41 of the file).
\<close>

datatype SpendError = SPEND_OK | SPEND_ERR_UTXO | SPEND_ERR_VALIDATION

definition utxo_mark_spent_model :: "nat option \<Rightarrow> UTXOSet \<Rightarrow> (SpendError \<times> UTXOSet) option" where
  "utxo_mark_spent_model utxo s =
     (case utxo of
        None \<Rightarrow> Some (SPEND_ERR_VALIDATION, s)
      | Some i \<Rightarrow> do {
          u \<leftarrow> nth_opt (entries s) i;
          (if spent u then Some (SPEND_ERR_UTXO, s)
           else Some (SPEND_OK, s\<lparr>entries := (entries s)[i := u\<lparr>spent := True\<rparr>]\<rparr>)) })"

definition utxo_find_model :: "UTXOSet option \<Rightarrow> nat \<Rightarrow> nat option" where
  "utxo_find_model s index =
     (case s of
        None \<Rightarrow> None
      | Some s \<Rightarrow> if index \<ge> set_count s then None else Some index)"

definition MAX_UTXO_CAPACITY :: nat where "MAX_UTXO_CAPACITY = 16"

text \<open>The contents of the block that \<open>malloc\<close> returned; \<open>None\<close> if it returned NULL.\<close>

definition utxo_harness :: "UTXO list option \<Rightarrow> nat \<Rightarrow> nat \<Rightarrow> nat \<Rightarrow> harness" where
  "utxo_harness block n target_idx other_idx =
     [Assume (n \<ge> 1 \<and> n \<le> MAX_UTXO_CAPACITY), Assume (block \<noteq> None)] @
     (let contents = take n (the block);
          s0 = \<lparr>entries = map (\<lambda>u. u\<lparr>spent := False\<rparr>) contents, set_count = n, set_capacity = n\<rparr> in
      map (\<lambda>u. Assume (amount u \<le> UINT64_MAX div 2)) contents @
      [Assume (target_idx < n)] @
      (let target = utxo_find_model (Some s0) target_idx in
       [Assert (target \<noteq> None)] @
       defined (nth_opt (entries s0) (the target)) (\<lambda>u. [Assert (\<not> spent u)]) @
       defined (utxo_mark_spent_model target s0) (\<lambda>(result, s1).
         [Assert (result = SPEND_OK)] @
         defined (nth_opt (entries s1) (the target)) (\<lambda>u. [Assert (spent u = True)]) @
         defined (utxo_mark_spent_model target s1) (\<lambda>(result2, s2).
           [Assert (result2 = SPEND_ERR_UTXO)] @
           defined (nth_opt (entries s2) (the target)) (\<lambda>u. [Assert (spent u = True)]) @
           defined (utxo_mark_spent_model None s2) (\<lambda>(result3, s3).
             [Assert (result3 = SPEND_ERR_VALIDATION)] @
             (let oob = utxo_find_model (Some s3) n in [Assert (oob = None)]) @
             whenever (n > 1)
               ([Assume (other_idx < n \<and> other_idx \<noteq> target_idx)] @
                (let other = utxo_find_model (Some s3) other_idx in
                 [Assert (other \<noteq> None)] @
                 defined (nth_opt (entries s3) (the other)) (\<lambda>u. [Assert (spent u = False)]))))))))"

subsection \<open>The version with an index\<close>

record WpUTXO =
  wp_amount :: u64
  wp_spent :: int

record WpUTXOSet =
  wp_entries :: "WpUTXO list option"
  wp_count :: u32
  wp_capacity :: u32

definition wp_mark :: "WpUTXO list \<Rightarrow> WpUTXOSet \<Rightarrow> u32 \<Rightarrow> (int \<times> WpUTXOSet) option" where
  "wp_mark es uset idx = do {
     u \<leftarrow> nth_opt es (unat idx);
     (if wp_spent u \<noteq> 0 then Some (-200, uset)
      else Some (0, uset\<lparr>wp_entries := Some (es[unat idx := u\<lparr>wp_spent := 1\<rparr>])\<rparr>)) }"

definition wp_utxo_mark_spent_model :: "WpUTXOSet \<Rightarrow> u32 \<Rightarrow> (int \<times> WpUTXOSet) option" where
  "wp_utxo_mark_spent_model uset idx = do {
     es \<leftarrow> wp_entries uset;
     wp_mark es uset idx }"

definition utxo_spend_isolation :: "WpUTXOSet \<Rightarrow> u32 \<Rightarrow> u32 \<Rightarrow> (int \<times> WpUTXOSet) option" where
  "utxo_spend_isolation uset idx1 idx2 = wp_utxo_mark_spent_model uset idx1"

text \<open>The set itself may be NULL; the answer holds the set that was passed, updated.\<close>

definition utxo_mark_spent_safe :: "WpUTXOSet option \<Rightarrow> u32 \<Rightarrow> (int \<times> WpUTXOSet option) option" where
  "utxo_mark_spent_safe uset idx =
     (case uset of
        None \<Rightarrow> Some (-200, None)
      | Some s \<Rightarrow>
          (case wp_entries s of
             None \<Rightarrow> Some (-200, Some s)
           | Some es \<Rightarrow>
               if idx \<ge> wp_count s then Some (-200, Some s)
               else map_option (apsnd Some) (wp_mark es s idx)))"

subsection \<open>The contract: an output is spent once\<close>

fun spend_run :: "('i \<Rightarrow> 's \<Rightarrow> (bool \<times> 's) option) \<Rightarrow> 'i list \<Rightarrow> 's \<Rightarrow> (bool list \<times> 's) option" where
  "spend_run spend [] s = Some ([], s)"
| "spend_run spend (i # ks) s = do {
     (ok, s) \<leftarrow> spend i s;
     (oks, s) \<leftarrow> spend_run spend ks s;
     Some (ok # oks, s) }"

text \<open>Which of a list of attempts may succeed: the first for each output that was unspent.\<close>

fun first_attempts :: "('i \<Rightarrow> bool) \<Rightarrow> 'i list \<Rightarrow> bool list" where
  "first_attempts free [] = []"
| "first_attempts free (i # ks) = free i # first_attempts (free(i := False)) ks"

locale spend_once =
  fixes spend :: "'i \<Rightarrow> 's \<Rightarrow> (bool \<times> 's) option"
    and valid :: "'s \<Rightarrow> bool"
    and unspent :: "'s \<Rightarrow> 'i \<Rightarrow> bool"
  assumes spend_spec: "valid s \<Longrightarrow>
    \<exists>s'. spend i s = Some (unspent s i, s') \<and> valid s' \<and> unspent s' = (unspent s)(i := False)"
begin

lemma spend_run_spec:
  "valid s \<Longrightarrow> \<exists>s'. spend_run spend ks s = Some (first_attempts (unspent s) ks, s')
     \<and> valid s' \<and> unspent s' = (\<lambda>j. unspent s j \<and> j \<notin> set ks)"
proof (induction ks arbitrary: s)
  case (Cons i ks)
  obtain s1 where s1: "spend i s = Some (unspent s i, s1)" "valid s1"
      "unspent s1 = (unspent s)(i := False)"
    using spend_spec [OF Cons.prems] by blast
  obtain s2 where "spend_run spend ks s1 = Some (first_attempts (unspent s1) ks, s2)" "valid s2"
      "unspent s2 = (\<lambda>j. unspent s1 j \<and> j \<notin> set ks)"
    using Cons.IH [OF s1(2)] by blast
  then show ?case using s1 by (auto simp: fun_eq_iff)
qed simp

end

text \<open>An output is accepted at most once, and exactly once if it was unspent and is attempted.\<close>

lemma first_attempts_once:
  "count_list (zip ks (first_attempts free ks)) (i, True) = (if free i \<and> i \<in> set ks then 1 else 0)"
  by (induction ks arbitrary: free) auto

lemma length_first_attempts [simp]: "length (first_attempts free ks) = length ks"
  by (induction ks arbitrary: free) auto

subsection \<open>Both versions meet the contract\<close>

definition cbmc_spend :: "nat \<Rightarrow> UTXOSet \<Rightarrow> (bool \<times> UTXOSet) option" where
  "cbmc_spend i s = map_option (apfst (\<lambda>r. r = SPEND_OK))
     (utxo_mark_spent_model (utxo_find_model (Some s) i) s)"

definition wp_spend :: "u32 \<Rightarrow> WpUTXOSet option \<Rightarrow> (bool \<times> WpUTXOSet option) option" where
  "wp_spend i s = map_option (apfst (\<lambda>r. r = 0)) (utxo_mark_spent_safe s i)"

definition cbmc_unspent :: "UTXOSet \<Rightarrow> nat \<Rightarrow> bool" where
  "cbmc_unspent s i \<longleftrightarrow> i < set_count s \<and> \<not> spent (entries s ! i)"

definition wp_unspent :: "WpUTXOSet option \<Rightarrow> u32 \<Rightarrow> bool" where
  "wp_unspent s i \<longleftrightarrow> (\<exists>t es. s = Some t \<and> wp_entries t = Some es \<and> i < wp_count t
     \<and> wp_spent (es ! unat i) = 0)"

definition wp_valid :: "WpUTXOSet option \<Rightarrow> bool" where
  "wp_valid s \<longleftrightarrow> (\<forall>t es. s = Some t \<and> wp_entries t = Some es \<longrightarrow> unat (wp_count t) \<le> length es)"

interpretation cbmc_once: spend_once cbmc_spend "\<lambda>s. set_count s \<le> length (entries s)" cbmc_unspent
proof
  fix s :: UTXOSet and i
  assume "set_count s \<le> length (entries s)"
  then show "\<exists>s'. cbmc_spend i s = Some (cbmc_unspent s i, s')
      \<and> set_count s' \<le> length (entries s') \<and> cbmc_unspent s' = (cbmc_unspent s)(i := False)"
    by (auto simp: cbmc_spend_def utxo_mark_spent_model_def utxo_find_model_def cbmc_unspent_def
        fun_eq_iff nth_list_update)
qed

interpretation wp_once: spend_once wp_spend wp_valid wp_unspent
proof
  fix s :: "WpUTXOSet option" and i
  assume valid: "wp_valid s"
  show "\<exists>s'. wp_spend i s = Some (wp_unspent s i, s')
      \<and> wp_valid s' \<and> wp_unspent s' = (wp_unspent s)(i := False)"
  proof (cases "\<exists>t es. s = Some t \<and> wp_entries t = Some es \<and> i < wp_count t")
    case True
    then obtain t es where t: "s = Some t" "wp_entries t = Some es" "i < wp_count t" by blast
    then have "unat i < length es" using valid by (fastforce simp: wp_valid_def word_less_nat_alt)
    then show ?thesis
      using t valid
      by (auto simp: wp_spend_def utxo_mark_spent_safe_def wp_mark_def wp_unspent_def wp_valid_def
          fun_eq_iff nth_list_update word_unat_eq_iff not_le)
  next
    case False
    then show ?thesis
      using valid
      by (auto simp: wp_spend_def utxo_mark_spent_safe_def wp_unspent_def not_less fun_eq_iff
          split: option.splits)
  qed
qed

text \<open>C26. Whatever outputs are looked up and spent, in whatever order and however often: every
  attempt is defined, an output that was unspent is accepted by exactly one of the attempts on it,
  any other by none, and afterwards the outputs still unspent are those never attempted.\<close>

theorem utxo_spent_at_most_once:
  assumes "set_count s \<le> length (entries s)"
  shows "\<exists>oks s'. spend_run cbmc_spend ks s = Some (oks, s') \<and> length oks = length ks
    \<and> (\<forall>i. count_list (zip ks oks) (i, True) = (if cbmc_unspent s i \<and> i \<in> set ks then 1 else 0))
    \<and> cbmc_unspent s' = (\<lambda>i. cbmc_unspent s i \<and> i \<notin> set ks)"
  using cbmc_once.spend_run_spec [OF assms, of ks]
  by (auto simp: first_attempts_once)

definition utxo_of :: "u64 \<Rightarrow> bool \<Rightarrow> UTXO" where
  "utxo_of a sp = \<lparr>tx_hash = replicate 32 7, output_index = 0, amount = a, spent = sp,
     owner_pubkey_hash = replicate 32 9\<rparr>"

definition three_utxos :: UTXOSet where
  "three_utxos = \<lparr>entries = [utxo_of 5 False, utxo_of 6 True, utxo_of 7 False], set_count = 3,
     set_capacity = 3\<rparr>"

theorem utxo_spent_at_most_once_witness:
  "\<exists>oks s'. spend_run cbmc_spend [0, 1, 0, 4] three_utxos = Some (oks, s')
    \<and> count_list (zip [0, 1, 0, 4 :: nat] oks) (0, True) = 1
    \<and> count_list (zip [0, 1, 0, 4 :: nat] oks) (1, True) = 0
    \<and> cbmc_unspent s' 2 \<and> \<not> cbmc_unspent s' 0"
proof -
  have "set_count three_utxos \<le> length (entries three_utxos)" by (simp add: three_utxos_def)
  then obtain oks s' where run: "spend_run cbmc_spend [0, 1, 0, 4] three_utxos = Some (oks, s')"
    "\<forall>i. count_list (zip [0, 1, 0, 4 :: nat] oks) (i, True)
       = (if cbmc_unspent three_utxos i \<and> i \<in> set [0, 1, 0, 4] then 1 else 0)"
    "cbmc_unspent s' = (\<lambda>i. cbmc_unspent three_utxos i \<and> i \<notin> set [0, 1, 0, 4])"
    using utxo_spent_at_most_once [of three_utxos "[0, 1, 0, 4]"] by blast
  have "cbmc_unspent three_utxos 0" "\<not> cbmc_unspent three_utxos 1" "cbmc_unspent three_utxos 2"
    by (simp_all add: three_utxos_def utxo_of_def cbmc_unspent_def)
  then show ?thesis
    using run by (intro exI [of _ oks] exI [of _ s'] conjI) simp_all
qed

text \<open>The same of the version with an index, through NULL pointers as well.\<close>

lemma wp_utxo_spent_at_most_once:
  assumes "wp_valid s"
  shows "\<exists>oks s'. spend_run wp_spend ks s = Some (oks, s') \<and> length oks = length ks
    \<and> (\<forall>i. count_list (zip ks oks) (i, True) = (if wp_unspent s i \<and> i \<in> set ks then 1 else 0))
    \<and> wp_unspent s' = (\<lambda>i. wp_unspent s i \<and> i \<notin> set ks)"
  using wp_once.spend_run_spec [OF assms, of ks]
  by (auto simp: first_attempts_once)

text \<open>Spending one output does not touch another, which is the contract of \<open>utxo_spend_isolation\<close>.\<close>

lemma spend_isolation:
  assumes "wp_entries s = Some es" "unat i < length es" "i \<noteq> j"
  shows "\<exists>r t fs. utxo_spend_isolation s i j = Some (r, t) \<and> wp_entries t = Some fs
    \<and> fs ! unat j = es ! unat j \<and> length fs = length es"
  using assms
  by (auto simp: utxo_spend_isolation_def wp_utxo_mark_spent_model_def wp_mark_def word_unat_eq_iff)

lemma utxo_harness_holds:
  assumes "\<forall>contents \<in> set_option block. length contents = n"
  shows "holds (utxo_harness block n target other)"
proof (cases block)
  case (Some contents)
  have "holds (map (\<lambda>u. Assume (p u)) us)" for p and us :: "UTXO list" by (induction us) simp_all
  then show ?thesis
    using assms Some
    by (simp add: utxo_harness_def utxo_find_model_def utxo_mark_spent_model_def Let_def holds_append)
qed (simp add: utxo_harness_def)

end
