(* ===== verification/Bridge.thy ===== *)
theory Bridge
  imports Prelude
begin

text \<open>
  Identifiers, amounts and proofs of the cross-chain bridge, as
  \<open>verification/cbmc/cbmc_bridge_bounds.c\<close> states them. Local arrays are blocks of bytes with the
  content they happen to have; a write or read outside a block, and a failed assertion, is
  undefined (\<open>None\<close>). The hash of that file keeps the first 32 bytes of its input, padded with
  zeroes; what is proved of the encodings does not depend on it.
\<close>

subsection \<open>Sizes and states\<close>

definition BRIDGE_TRANSFER_ID_SIZE :: nat where "BRIDGE_TRANSFER_ID_SIZE = 32"
definition BRIDGE_MAX_ATTESTATIONS :: nat where "BRIDGE_MAX_ATTESTATIONS = 16"
definition BRIDGE_RELAY_SIG_SIZE :: nat where "BRIDGE_RELAY_SIG_SIZE = 4627"
definition BRIDGE_CHAIN_COUNT :: byte where "BRIDGE_CHAIN_COUNT = 4"

datatype BridgeTransferState =
    BRIDGE_STATE_INITIATED
  | BRIDGE_STATE_LOCKED
  | BRIDGE_STATE_PROVED
  | BRIDGE_STATE_COMPLETED
  | BRIDGE_STATE_REFUNDED

fun BridgeTransferState_value :: "BridgeTransferState \<Rightarrow> int" where
  "BridgeTransferState_value BRIDGE_STATE_INITIATED = 0"
| "BridgeTransferState_value BRIDGE_STATE_LOCKED = 1"
| "BridgeTransferState_value BRIDGE_STATE_PROVED = 2"
| "BridgeTransferState_value BRIDGE_STATE_COMPLETED = 3"
| "BridgeTransferState_value BRIDGE_STATE_REFUNDED = 4"

instantiation BridgeTransferState :: linorder
begin

definition less_eq_BridgeTransferState :: "BridgeTransferState \<Rightarrow> BridgeTransferState \<Rightarrow> bool" where
  "s \<le> t \<longleftrightarrow> BridgeTransferState_value s \<le> BridgeTransferState_value t"

definition less_BridgeTransferState :: "BridgeTransferState \<Rightarrow> BridgeTransferState \<Rightarrow> bool" where
  "s < t \<longleftrightarrow> BridgeTransferState_value s < BridgeTransferState_value t"

instance
proof
  fix s t :: BridgeTransferState
  show "s \<le> t \<Longrightarrow> t \<le> s \<Longrightarrow> s = t"
    by (cases s; cases t) (simp_all add: less_eq_BridgeTransferState_def)
qed (auto simp: less_eq_BridgeTransferState_def less_BridgeTransferState_def)

end

subsection \<open>Writing into a buffer\<close>

text \<open>A buffer with the offset reached; \<open>emit\<close> is \<open>memcpy(buf + off, xs, n); off += n\<close>.\<close>

type_synonym cursor = "bytes \<times> nat"

definition emit :: "bytes \<Rightarrow> cursor \<Rightarrow> cursor option" where
  "emit xs c = (case c of (buf, off) \<Rightarrow>
     if off + length xs \<le> length buf then Some (put_slice off xs buf, off + length xs) else None)"

definition require :: "bool \<Rightarrow> 'a \<Rightarrow> 'a option" where
  "require b x = (if b then Some x else None)"

definition hash_model :: "bytes \<Rightarrow> nat \<Rightarrow> bytes option" where
  "hash_model data n = those (map (\<lambda>i. if n > i then nth_opt data i else Some 0) [0..<32])"

definition BRIDGE_DOMAIN :: bytes where "BRIDGE_DOMAIN = bytes_of ''BRIDGE-ID-V1''"

text \<open>An address, cut off after 128 bytes; NULL is empty.\<close>

definition capped_addr :: "bytes option \<Rightarrow> bytes option" where
  "capped_addr a =
     (case a of
        None \<Rightarrow> Some []
      | Some s \<Rightarrow> do {
          n \<leftarrow> strlen s;
          Some (take (if n > 128 then 128 else n) s) })"

definition transfer_id_cursor ::
  "bytes \<Rightarrow> byte \<Rightarrow> byte \<Rightarrow> bytes option \<Rightarrow> bytes option \<Rightarrow> u64 \<Rightarrow> u64 \<Rightarrow> cursor option" where
  "transfer_id_cursor buf src dst src_addr dst_addr amount timelock = do {
     c \<leftarrow> emit BRIDGE_DOMAIN (buf, 0);
     c \<leftarrow> require (snd c = 12) c;
     c \<leftarrow> emit [src] c;
     c \<leftarrow> emit [dst] c;
     c \<leftarrow> require (snd c = 14) c;
     sa \<leftarrow> capped_addr src_addr;
     c \<leftarrow> emit sa c;
     da \<leftarrow> capped_addr dst_addr;
     c \<leftarrow> emit da c;
     c \<leftarrow> emit (le_bytes 8 amount) c;
     c \<leftarrow> emit (le_bytes 8 timelock) c;
     require (snd c \<le> 512) c }"

definition generate_transfer_id_model ::
  "bytes \<Rightarrow> byte \<Rightarrow> byte \<Rightarrow> bytes option \<Rightarrow> bytes option \<Rightarrow> u64 \<Rightarrow> u64 \<Rightarrow> bytes option" where
  "generate_transfer_id_model buf src dst src_addr dst_addr amount timelock = do {
     (data, off) \<leftarrow> transfer_id_cursor buf src dst src_addr dst_addr amount timelock;
     hash_model data off }"

subsection \<open>Private amounts\<close>

record BridgePrivateAmount =
  commitment :: bytes
  blinding :: bytes
  range_proof :: bytes
  range_proof_len :: nat
  private_amount :: u64

definition blinding_byte :: "u64 \<Rightarrow> nat \<Rightarrow> byte" where
  "blinding_byte amount i = ucast (of_nat i XOR drop_bit (i mod 8) amount)"

definition generate_private_amount_model ::
  "bytes \<Rightarrow> bytes \<Rightarrow> u64 \<Rightarrow> BridgePrivateAmount \<Rightarrow> BridgePrivateAmount option" where
  "generate_private_amount_model commit_input range_tag amount pa = do {
     let pa = pa\<lparr>private_amount := amount\<rparr>;
     let pa = pa\<lparr>blinding := map (blinding_byte amount) [0..<32]\<rparr>;
     (commit_input, n) \<leftarrow> emit (le_bytes 8 amount) (commit_input, 0);
     (commit_input, n) \<leftarrow> emit (blinding pa) (commit_input, 8);
     h \<leftarrow> hash_model commit_input 40;
     let pa = pa\<lparr>commitment := h\<rparr>;
     (prf, n) \<leftarrow> emit (commitment pa) (range_proof pa, 0);
     (range_tag, n) \<leftarrow> emit (bytes_of ''RANGE-PROOF-V1'') (range_tag, 0);
     (range_tag, n) \<leftarrow> emit (take 26 (commitment pa)) (range_tag, 14);
     h \<leftarrow> hash_model range_tag 40;
     (prf, n) \<leftarrow> emit h (prf, 32);
     let pa = pa\<lparr>range_proof := prf, range_proof_len := 64\<rparr>;
     require (range_proof_len pa \<le> 768) pa }"

subsection \<open>Lock proofs\<close>

record BridgeAttestation =
  relay_pk_hash :: bytes
  signature :: bytes
  sig_len :: nat
  timestamp :: u64

record BridgeLockProof =
  lock_tx_hash :: bytes
  block_height :: u64
  confirmations :: u32
  merkle_proof :: bytes
  merkle_proof_len :: nat
  attestations :: "BridgeAttestation list"
  attestation_count :: nat

definition verify_lock_proof_message_bounds :: "bytes \<Rightarrow> BridgeLockProof \<Rightarrow> bytes \<Rightarrow> bytes option" where
  "verify_lock_proof_message_bounds msg p transfer_id = do {
     (msg, n) \<leftarrow> emit (take 32 (lock_tx_hash p)) (msg, 0);
     (msg, n) \<leftarrow> emit (le_bytes 8 (block_height p)) (msg, 32);
     (msg, n) \<leftarrow> emit (le_bytes 4 (confirmations p)) (msg, 40);
     (msg, n) \<leftarrow> emit (take 32 transfer_id) (msg, 44);
     hash_model msg 76 }"

text \<open>
  The loop of \<open>main\<close> over the attestations: \<open>assert(i < MAX); attestations[i].sig_len = 32;\<close>
\<close>

fun attestation_loop :: "nat list \<Rightarrow> BridgeLockProof \<Rightarrow> BridgeLockProof option" where
  "attestation_loop [] p = Some p"
| "attestation_loop (i # is) p = do {
     a \<leftarrow> nth_opt (attestations p) i;
     p \<leftarrow> require (i < BRIDGE_MAX_ATTESTATIONS) p;
     attestation_loop is (p\<lparr>attestations := (attestations p)[i := a\<lparr>sig_len := 32\<rparr>]\<rparr>) }"

subsection \<open>What the writes produce\<close>

text \<open>\<open>holds_prefix c xs\<close>: the bytes written so far are \<open>xs\<close>.\<close>

definition holds_prefix :: "cursor \<Rightarrow> nat \<Rightarrow> bytes \<Rightarrow> bool" where
  "holds_prefix c sz xs \<longleftrightarrow> length (fst c) = sz \<and> snd c = length xs \<and> take (length xs) (fst c) = xs"

lemma holds_prefix_start [simp]: "holds_prefix (buf, 0) (length buf) []"
  by (simp add: holds_prefix_def)

lemma emit_extends:
  assumes "holds_prefix c sz xs" "length xs + length ys \<le> sz"
  shows "\<exists>d. emit ys c = Some d \<and> holds_prefix d sz (xs @ ys)"
proof -
  obtain buf off where c: "c = (buf, off)" by (cases c)
  have "take (length xs + length ys) (put_slice (length xs) ys buf) = xs @ ys"
    using assms by (simp add: c holds_prefix_def put_slice_def min_def)
  then show ?thesis
    using assms by (auto simp: c holds_prefix_def emit_def)
qed

lemma those_Some: "those (map (\<lambda>i. Some (g i)) ks) = Some (map g ks)"
  by (induction ks) auto

definition first32 :: "bytes \<Rightarrow> bytes" where
  "first32 xs = take 32 (xs @ replicate 32 0)"

lemma hash_model_eq:
  assumes "n \<le> length data"
  shows "hash_model data n = Some (first32 (take n data))"
proof -
  have "map (\<lambda>i. if n > i then nth_opt data i else Some 0) [0..<32]
      = map (\<lambda>i. Some (first32 (take n data) ! i)) [0..<32]"
    using assms by (intro map_cong) (auto simp: first32_def nth_append min_def)
  moreover have "map ((!) (first32 (take n data))) [0..<32] = first32 (take n data)"
    by (rule nth_equalityI) (auto simp: first32_def)
  ultimately show ?thesis by (simp only: hash_model_def those_Some)
qed

text \<open>The encoding of a transfer: addresses are not delimited.\<close>

definition addr_bytes :: "bytes option \<Rightarrow> bytes" where
  "addr_bytes a = (case a of None \<Rightarrow> [] | Some s \<Rightarrow> take 128 (cstr s))"

definition addr_ok :: "bytes option \<Rightarrow> bool" where
  "addr_ok a \<longleftrightarrow> (case a of None \<Rightarrow> True | Some s \<Rightarrow> 0 \<in> set s)"

definition transfer_encoding ::
  "byte \<Rightarrow> byte \<Rightarrow> bytes option \<Rightarrow> bytes option \<Rightarrow> u64 \<Rightarrow> u64 \<Rightarrow> bytes" where
  "transfer_encoding src dst sa da amount timelock =
     BRIDGE_DOMAIN @ [src, dst] @ addr_bytes sa @ addr_bytes da
       @ le_bytes 8 amount @ le_bytes 8 timelock"

lemma length_addr_bytes: "length (addr_bytes a) \<le> 128"
  by (simp add: addr_bytes_def split: option.splits)

lemma take_capped:
  "take (if length (cstr s) > 128 then 128 else length (cstr s)) s = take 128 (cstr s)"
  using take_cstr [of s] take_take [of 128 "length (cstr s)" s] by (simp add: min_def)

lemma capped_addr_eq: "addr_ok a \<Longrightarrow> capped_addr a = Some (addr_bytes a)"
  by (simp add: addr_ok_def capped_addr_def addr_bytes_def strlen_terminated take_capped
      split: option.splits)

lemma length_BRIDGE_DOMAIN [simp]: "length BRIDGE_DOMAIN = 12"
  by (simp add: BRIDGE_DOMAIN_def)

lemma length_transfer_encoding: "length (transfer_encoding src dst sa da amount timelock) \<le> 286"
  using length_addr_bytes [of sa] length_addr_bytes [of da]
  by (simp add: transfer_encoding_def)

lemma transfer_id_cursor_eq:
  assumes "length buf = 512" "addr_ok sa" "addr_ok da"
  shows "\<exists>c. transfer_id_cursor buf src dst sa da amount timelock = Some c
    \<and> holds_prefix c 512 (transfer_encoding src dst sa da amount timelock)"
proof -
  have fit: "length (addr_bytes sa) \<le> 128" "length (addr_bytes da) \<le> 128"
    by (rule length_addr_bytes)+
  obtain c1 where c1: "emit BRIDGE_DOMAIN (buf, 0) = Some c1" "holds_prefix c1 512 BRIDGE_DOMAIN"
    using emit_extends [OF holds_prefix_start, of BRIDGE_DOMAIN buf] assms(1) by auto
  obtain c2 where c2: "emit [src] c1 = Some c2" "holds_prefix c2 512 (BRIDGE_DOMAIN @ [src])"
    using emit_extends [OF c1(2), of "[src]"] by auto
  obtain c3 where c3: "emit [dst] c2 = Some c3" "holds_prefix c3 512 (BRIDGE_DOMAIN @ [src, dst])"
    using emit_extends [OF c2(2), of "[dst]"] by auto
  obtain c4 where c4: "emit (addr_bytes sa) c3 = Some c4"
      "holds_prefix c4 512 (BRIDGE_DOMAIN @ [src, dst] @ addr_bytes sa)"
    using emit_extends [OF c3(2), of "addr_bytes sa"] fit by auto
  obtain c5 where c5: "emit (addr_bytes da) c4 = Some c5"
      "holds_prefix c5 512 (BRIDGE_DOMAIN @ [src, dst] @ addr_bytes sa @ addr_bytes da)"
    using emit_extends [OF c4(2), of "addr_bytes da"] fit by auto
  obtain c6 where c6: "emit (le_bytes 8 amount) c5 = Some c6"
      "holds_prefix c6 512 (BRIDGE_DOMAIN @ [src, dst] @ addr_bytes sa @ addr_bytes da @ le_bytes 8 amount)"
    using emit_extends [OF c5(2), of "le_bytes 8 amount"] fit by auto
  obtain c7 where c7: "emit (le_bytes 8 timelock) c6 = Some c7"
      "holds_prefix c7 512 (transfer_encoding src dst sa da amount timelock)"
    using emit_extends [OF c6(2), of "le_bytes 8 timelock"] fit by (auto simp: transfer_encoding_def)
  have "snd c1 = 12" "snd c3 = 14" "snd c7 \<le> 512"
    using c1(2) c3(2) c7(2) length_transfer_encoding [of src dst sa da amount timelock]
    by (simp_all add: holds_prefix_def)
  then show ?thesis
    using c1 c2 c3 c4 c5 c6 c7 assms
    by (simp add: transfer_id_cursor_def require_def capped_addr_eq)
qed

lemma transfer_id_defined:
  assumes "length buf = 512" "addr_ok sa" "addr_ok da"
  shows "generate_transfer_id_model buf src dst sa da amount timelock
      = Some (first32 (transfer_encoding src dst sa da amount timelock))
    \<and> length (transfer_encoding src dst sa da amount timelock) \<le> 286"
proof -
  let ?enc = "transfer_encoding src dst sa da amount timelock"
  obtain data off where c: "transfer_id_cursor buf src dst sa da amount timelock = Some (data, off)"
      "holds_prefix (data, off) 512 ?enc"
    using transfer_id_cursor_eq [OF assms, of src dst amount timelock] by auto
  then have "off \<le> length data" "take off data = ?enc"
    using length_transfer_encoding [of src dst sa da amount timelock] by (auto simp: holds_prefix_def)
  then show ?thesis
    using c(1) length_transfer_encoding [of src dst sa da amount timelock]
    by (simp add: generate_transfer_id_model_def hash_model_eq)
qed

text \<open>C29. For every chain pair, every pair of C strings (or NULL), amount and timelock, and whatever
  the 512 byte buffer held before, \<open>generate_transfer_id_model\<close> writes at most 286 bytes, all inside
  the buffer, its assertions hold, and the identifier is the hash of the encoding of the transfer:
  bytes left in the buffer do not leak into it.\<close>

theorem transfer_id_in_bounds:
  assumes "length buf = 512" "addr_ok sa" "addr_ok da"
  shows "generate_transfer_id_model buf src dst sa da amount timelock
      = Some (first32 (transfer_encoding src dst sa da amount timelock))
    \<and> length (transfer_encoding src dst sa da amount timelock) \<le> 286"
  using transfer_id_defined [OF assms] .

definition addr_A :: "bytes option" where "addr_A = Some (bytes_of ''alice'' @ [0])"
definition addr_B :: "bytes option" where "addr_B = Some (bytes_of ''bob'' @ [0])"

theorem transfer_id_in_bounds_witness:
  "generate_transfer_id_model (replicate 512 170) 1 2 addr_A addr_B 1000 77
    = Some (first32 (transfer_encoding 1 2 addr_A addr_B 1000 77))"
  using transfer_id_in_bounds [of "replicate 512 170" addr_A addr_B 1 2 1000 77]
  by (simp add: addr_ok_def addr_A_def addr_B_def)

text \<open>The encoding does not say where one address ends and the next begins: two transfers whose
  addresses have the same concatenation (both short enough not to be cut) have the same identifier
  under any hash; and under the hash of this file the destination, the amount and the timelock do
  not count at all once the source address has 18 bytes.\<close>

lemma transfer_ids_collide:
  assumes "length buf = 512" "addr_ok sa" "addr_ok da" "addr_ok sa'" "addr_ok da'"
    and "addr_bytes sa @ addr_bytes da = addr_bytes sa' @ addr_bytes da' \<and> amount = amount'
          \<and> timelock = timelock'
        \<or> addr_bytes sa = addr_bytes sa' \<and> 18 \<le> length (addr_bytes sa)"
  shows "generate_transfer_id_model buf src dst sa da amount timelock
    = generate_transfer_id_model buf src dst sa' da' amount' timelock'"
  using assms(6)
proof
  assume "addr_bytes sa @ addr_bytes da = addr_bytes sa' @ addr_bytes da' \<and> amount = amount'
          \<and> timelock = timelock'"
  then have "transfer_encoding src dst sa da amount timelock
      = transfer_encoding src dst sa' da' amount' timelock'"
    by (simp add: transfer_encoding_def append_assoc [symmetric] del: append_assoc)
  then show ?thesis
    using transfer_id_defined [OF assms(1-3)] transfer_id_defined [OF assms(1,4,5)] by simp
next
  assume same: "addr_bytes sa = addr_bytes sa' \<and> 18 \<le> length (addr_bytes sa)"
  have "first32 (transfer_encoding src dst sa da amount timelock)
      = BRIDGE_DOMAIN @ [src, dst] @ take 18 (addr_bytes sa)" if "18 \<le> length (addr_bytes sa)"
    for sa da amount timelock
    using that by (simp add: first32_def transfer_encoding_def min_def)
  moreover have "18 \<le> length (addr_bytes sa')" using same by auto
  ultimately have "first32 (transfer_encoding src dst sa da amount timelock)
      = first32 (transfer_encoding src dst sa' da' amount' timelock')"
    using same by simp
  then show ?thesis
    using transfer_id_defined [OF assms(1-3)] transfer_id_defined [OF assms(1,4,5)] by simp
qed

definition addr_AB :: "bytes option" where "addr_AB = Some (bytes_of ''aliceb'' @ [0])"
definition addr_OB :: "bytes option" where "addr_OB = Some (bytes_of ''ob'' @ [0])"

theorem transfer_ids_collide_witness:
  "generate_transfer_id_model (replicate 512 0) 1 2 addr_A addr_B 1000 77
    = generate_transfer_id_model (replicate 512 0) 1 2 addr_AB addr_OB 1000 77"
  by (rule transfer_ids_collide)
    (simp_all add: addr_ok_def addr_A_def addr_B_def addr_AB_def addr_OB_def addr_bytes_def
      cstr_def bytes_of_def)

subsection \<open>Private amounts, lock proofs and states\<close>

lemma emit_in:
  "off + length xs \<le> length buf \<Longrightarrow> emit xs (buf, off) = Some (put_slice off xs buf, off + length xs)"
  by (simp add: emit_def)

lemma length_first32 [simp]: "length (first32 xs) = 32"
  by (simp add: first32_def)

lemma put_slice_fill:
  "length xs + length ys = length buf \<Longrightarrow> put_slice (length xs) ys (put_slice 0 xs buf) = xs @ ys"
  by (simp add: put_slice_def)

lemma private_amount_in_bounds:
  assumes "length commit_input = 40" "length range_tag = 40" "length (range_proof pa) = 768"
  shows "\<exists>q. generate_private_amount_model commit_input range_tag amt pa = Some q
    \<and> private_amount q = amt \<and> range_proof_len q = 64 \<and> length (range_proof q) = 768
    \<and> blinding q = map (blinding_byte amt) [0..<32]
    \<and> commitment q = le_bytes 8 amt @ take 24 (blinding q)
    \<and> take 32 (range_proof q) = commitment q"
proof -
  let ?b = "map (blinding_byte amt) [0..<32]"
  let ?c = "first32 (le_bytes 8 amt @ ?b)"
  let ?t = "bytes_of ''RANGE-PROOF-V1'' @ take 26 ?c"
  have commit: "put_slice 8 ?b (put_slice 0 (le_bytes 8 amt) commit_input) = le_bytes 8 amt @ ?b"
    using put_slice_fill [of "le_bytes 8 amt" ?b commit_input] assms(1) by simp
  have label: "length (bytes_of ''RANGE-PROOF-V1'') = 14" by simp
  have tag: "put_slice 14 (take 26 ?c) (put_slice 0 (bytes_of ''RANGE-PROOF-V1'') range_tag) = ?t"
    using put_slice_fill [of "bytes_of ''RANGE-PROOF-V1''" "take 26 ?c" range_tag] assms(2) label
    unfolding label by simp
  have "?c = le_bytes 8 amt @ take 24 ?b" by (simp add: first32_def)
  moreover have "take 32 (put_slice 32 h (put_slice 0 ?c (range_proof pa))) = ?c" for h
    using assms(3) by (simp add: put_slice_def)
  moreover have "hash_model (le_bytes 8 amt @ ?b) 40 = Some ?c" "hash_model ?t 40 = Some (first32 ?t)"
    by (subst hash_model_eq; simp)+
  ultimately show ?thesis
    using assms commit tag
    by (simp add: generate_private_amount_model_def Let_def emit_in require_def)
qed

lemma lock_proof_in_bounds:
  assumes "length msg = 104" "length (lock_tx_hash p) = 32" "length transfer_id = 32"
  shows "verify_lock_proof_message_bounds msg p transfer_id = Some (lock_tx_hash p)"
proof -
  have "take 32 (put_slice 44 transfer_id (put_slice 40 x (put_slice 32 y
      (put_slice 0 (lock_tx_hash p) msg)))) = lock_tx_hash p" for x y
    using assms by (simp add: put_slice_def)
  then show ?thesis
    using assms by (simp add: verify_lock_proof_message_bounds_def emit_in hash_model_eq first32_def)
qed

lemma attestation_loop_defined:
  "\<forall>i \<in> set ks. i < length (attestations p) \<and> i < BRIDGE_MAX_ATTESTATIONS \<Longrightarrow>
     \<exists>q. attestation_loop ks p = Some q \<and> length (attestations q) = length (attestations p)"
proof (induction ks arbitrary: p)
  case (Cons i ks)
  let ?p = "p\<lparr>attestations := (attestations p)[i := (attestations p ! i)\<lparr>sig_len := 32\<rparr>]\<rparr>"
  show ?case using Cons.IH [of ?p] Cons.prems by (simp add: require_def)
qed simp

text \<open>The order of the enumerators puts exactly the final states at the top.\<close>

lemma bridge_final_states:
  "BRIDGE_STATE_COMPLETED \<le> s \<longleftrightarrow> s = BRIDGE_STATE_COMPLETED \<or> s = BRIDGE_STATE_REFUNDED"
  by (cases s) (simp_all add: less_eq_BridgeTransferState_def)

end
