(* ===== verification/CryptoModel.thy ===== *)
theory CryptoModel
  imports Cbmc
begin

text \<open>
  Comparison, parameter checks and wiping, as \<open>verification/cbmc/cbmc_crypto.c\<close> states them. The
  two comparisons answer together with the offsets they read, in order, which is what an observer
  of the time taken learns: the leak the comments of that file speak of is a statement about it.
\<close>

subsection \<open>Comparison\<close>

fun ct_loop :: "nat list \<Rightarrow> bytes \<Rightarrow> bytes \<Rightarrow> byte \<Rightarrow> (byte \<times> nat list) option" where
  "ct_loop [] pa pb diff = Some (diff, [])"
| "ct_loop (i # is) pa pb diff = do {
     x \<leftarrow> nth_opt pa i;
     y \<leftarrow> nth_opt pb i;
     (d, reads) \<leftarrow> ct_loop is pa pb (diff OR (x XOR y));
     Some (d, i # reads) }"

definition constant_time_memcmp :: "bytes \<Rightarrow> bytes \<Rightarrow> nat \<Rightarrow> (int \<times> nat list) option" where
  "constant_time_memcmp a b len = do {
     (diff, reads) \<leftarrow> ct_loop [0..<len] a b 0;
     Some (uint diff, reads) }"

fun insecure_loop :: "nat list \<Rightarrow> bytes \<Rightarrow> bytes \<Rightarrow> (int \<times> nat list) option" where
  "insecure_loop [] pa pb = Some (0, [])"
| "insecure_loop (i # is) pa pb = do {
     x \<leftarrow> nth_opt pa i;
     y \<leftarrow> nth_opt pb i;
     (if x \<noteq> y then Some (1, [i])
      else do {
        (r, reads) \<leftarrow> insecure_loop is pa pb;
        Some (r, i # reads) }) }"

definition insecure_memcmp :: "bytes \<Rightarrow> bytes \<Rightarrow> nat \<Rightarrow> (int \<times> nat list) option" where
  "insecure_memcmp a b len = insecure_loop [0..<len] a b"

subsection \<open>Key derivation parameters\<close>

definition PBKDF2_MIN_ITERATIONS :: u32 where "PBKDF2_MIN_ITERATIONS = 600000"
definition PBKDF2_SALT_SIZE :: nat where "PBKDF2_SALT_SIZE = 16"
definition PBKDF2_KEY_SIZE :: u32 where "PBKDF2_KEY_SIZE = 32"

record PBKDF2Params =
  iterations :: u32
  salt :: bytes
  key_length :: u32

definition validate_pbkdf2_params :: "PBKDF2Params option \<Rightarrow> bool" where
  "validate_pbkdf2_params params =
     (case params of
        None \<Rightarrow> False
      | Some p \<Rightarrow>
          if iterations p < PBKDF2_MIN_ITERATIONS then False
          else if key_length p = 0 \<or> key_length p > 64 then False
          else True)"

subsection \<open>Wiping\<close>

fun cleanse_loop :: "nat list \<Rightarrow> bytes \<Rightarrow> bytes option" where
  "cleanse_loop [] p = Some p"
| "cleanse_loop (i # is) p = (if i < length p then cleanse_loop is (p[i := 0]) else None)"

definition secure_cleanse :: "bytes \<Rightarrow> nat \<Rightarrow> bytes option" where
  "secure_cleanse p len = cleanse_loop [0..<len] p"

subsection \<open>The harness\<close>

definition same_bytes :: "bytes \<Rightarrow> bytes \<Rightarrow> nat \<Rightarrow> bool option" where
  "same_bytes a b len = map_option (\<lambda>(r, reads). r = 0) (constant_time_memcmp a b len)"

definition crypto_harness :: "bytes \<Rightarrow> PBKDF2Params \<Rightarrow> u32 \<Rightarrow> bytes \<Rightarrow> harness" where
  "crypto_harness buf_a params iters key_material =
     (let buf_b = buf_a in
      defined (same_bytes buf_a buf_b 32) (\<lambda>same. [Assert same]) @
      (let buf_b = buf_b[0 := buf_b ! 0 XOR 0x01] in
       defined (same_bytes buf_a buf_b 32) (\<lambda>same. [Assert (\<not> same)])) @
      (let buf_b = buf_a; buf_b = buf_b[31 := buf_b ! 31 XOR 0xFF] in
       defined (same_bytes buf_a buf_b 32) (\<lambda>same. [Assert (\<not> same)]) @
       defined (same_bytes buf_a buf_b 0) (\<lambda>same. [Assert same]))) @
     defined (same_bytes [0x42] [0x42] 1) (\<lambda>same. [Assert same]) @
     defined (same_bytes [0x42] [0x43] 1) (\<lambda>same. [Assert (\<not> same)]) @
     (let params = params\<lparr>iterations := 600000, key_length := 32\<rparr> in
      [Assert (validate_pbkdf2_params (Some params))] @
      (let params = params\<lparr>iterations := 599999\<rparr> in
       [Assert (\<not> validate_pbkdf2_params (Some params))] @
       (let params = params\<lparr>iterations := 600000, key_length := 0\<rparr> in
        [Assert (\<not> validate_pbkdf2_params (Some params))] @
        (let params = params\<lparr>key_length := 65\<rparr> in
         [Assert (\<not> validate_pbkdf2_params (Some params)),
          Assert (\<not> validate_pbkdf2_params None),
          Assume (iters \<ge> 1 \<and> iters \<le> 1000000)] @
         (let params = params\<lparr>iterations := iters, key_length := 32\<rparr> in
          if iters < PBKDF2_MIN_ITERATIONS
          then [Assert (\<not> validate_pbkdf2_params (Some params))]
          else [Assert (validate_pbkdf2_params (Some params))]))))) @
     defined (secure_cleanse key_material 32) (\<lambda>wiped. map (\<lambda>i. Assert (wiped ! i = 0)) [0..<32])"

subsection \<open>What the comparisons compute and read\<close>

lemma or_xor_zero: "(d OR (x XOR y) = (0 :: byte)) \<longleftrightarrow> d = 0 \<and> x = y"
proof -
  have "(d OR (x XOR y) = 0) \<longleftrightarrow> d = 0 \<and> x XOR y = 0" by (rule or_eq_0_iff)
  moreover have "(x XOR y = 0) \<longleftrightarrow> x = y"
    by (metis xor.left_neutral xor_self_eq xor.assoc)
  ultimately show ?thesis by simp
qed

lemma ct_loop_spec:
  "\<forall>i \<in> set ks. i < length a \<and> i < length b \<Longrightarrow>
     \<exists>d. ct_loop ks a b diff = Some (d, ks) \<and> (d = 0 \<longleftrightarrow> diff = 0 \<and> (\<forall>i \<in> set ks. a ! i = b ! i))"
proof (induction ks arbitrary: diff)
  case (Cons i ks)
  obtain d where "ct_loop ks a b (diff OR (a ! i XOR b ! i)) = Some (d, ks)"
      "d = 0 \<longleftrightarrow> diff OR (a ! i XOR b ! i) = 0 \<and> (\<forall>i \<in> set ks. a ! i = b ! i)"
    using Cons.IH [of "diff OR (a ! i XOR b ! i)"] Cons.prems by auto
  then show ?case using Cons.prems by (simp add: or_xor_zero)
qed simp

lemma insecure_loop_spec:
  "\<forall>i \<in> set ks. i < length a \<and> i < length b \<Longrightarrow>
     insecure_loop ks a b =
       (if \<forall>i \<in> set ks. a ! i = b ! i then Some (0, ks)
        else Some (1, takeWhile (\<lambda>i. a ! i = b ! i) ks @ [the (find (\<lambda>i. a ! i \<noteq> b ! i) ks)]))"
  by (induction ks) auto

lemma take_eq_iff:
  "n \<le> length a \<Longrightarrow> n \<le> length b \<Longrightarrow> (take n a = take n b) = (\<forall>i \<in> set [0..<n]. a ! i = b ! i)"
  by (auto simp: list_eq_iff_nth_eq)

lemma constant_time_memcmp_spec:
  assumes "len \<le> length a" "len \<le> length b"
  shows "\<exists>r. constant_time_memcmp a b len = Some (r, [0..<len])
    \<and> (r = 0 \<longleftrightarrow> take len a = take len b) \<and> 0 \<le> r \<and> r < 256"
proof -
  obtain d where d: "ct_loop [0..<len] a b 0 = Some (d, [0..<len])"
      "d = 0 \<longleftrightarrow> (\<forall>i \<in> set [0..<len]. a ! i = b ! i)"
    using ct_loop_spec [of "[0..<len]" a b 0] assms by auto
  moreover have "uint d = 0 \<longleftrightarrow> d = 0" by (metis uint_0_iff)
  moreover have "uint d < 256" using uint_bounded [of d] by simp
  ultimately show ?thesis
    using take_eq_iff [OF assms] by (simp add: constant_time_memcmp_def)
qed

text \<open>C33. \<open>constant_time_memcmp\<close> answers zero exactly when the compared bytes are equal, and it reads
  the same offsets in the same order whatever they contain.\<close>

theorem constant_time_memcmp_correct:
  assumes "len \<le> length a" "len \<le> length b"
  shows "\<exists>r. constant_time_memcmp a b len = Some (r, [0..<len])
    \<and> (r = 0 \<longleftrightarrow> take len a = take len b) \<and> 0 \<le> r \<and> r < 256"
  using assms by (rule constant_time_memcmp_spec)

theorem constant_time_memcmp_correct_witness:
  "\<exists>r. constant_time_memcmp [1, 2, 3] [1, 9, 3] 3 = Some (r, [0, 1, 2]) \<and> r \<noteq> 0"
proof -
  have "[0..<3] = [0, 1, 2 :: nat]" by (simp add: upt_rec)
  then show ?thesis
    using constant_time_memcmp_correct [of 3 "[1, 2, 3]" "[1, 9, 3]"] by auto
qed

text \<open>The early exit tells where the first difference is.\<close>

lemma insecure_memcmp_leaks:
  assumes "len \<le> length a" "len \<le> length b" "k < len" "take k a = take k b" "a ! k \<noteq> b ! k"
  shows "insecure_memcmp a b len = Some (1, [0..<Suc k])"
proof -
  have split: "[0..<len] = [0..<k] @ k # [Suc k..<len]"
    using assms(3) by (metis less_imp_le upt_add_eq_append upt_conv_Cons le_add_diff_inverse zero_le)
  have same: "\<forall>i < k. a ! i = b ! i"
    using assms(1-4) by (metis nth_take)
  have "takeWhile (\<lambda>i. a ! i = b ! i) [0..<len] = [0..<k]"
    unfolding split using same assms(5) by (subst takeWhile_append2) auto
  moreover have "find (\<lambda>i. a ! i \<noteq> b ! i) [0..<len] = Some k"
    unfolding find_Some_iff using assms same by (intro exI [of _ k]) auto
  moreover have "\<not> (\<forall>i \<in> set [0..<len]. a ! i = b ! i)" using assms(3,5) by auto
  ultimately show ?thesis
    using assms by (simp add: insecure_memcmp_def insecure_loop_spec)
qed

subsection \<open>Wiping and the harness\<close>

lemma cleanse_loop_spec:
  "\<forall>i \<in> set ks. i < length p \<Longrightarrow>
     \<exists>q. cleanse_loop ks p = Some q \<and> length q = length p
       \<and> (\<forall>i < length p. q ! i = (if i \<in> set ks then 0 else p ! i))"
proof (induction ks arbitrary: p)
  case (Cons k ks)
  then obtain q where "cleanse_loop ks (p[k := 0]) = Some q" "length q = length p"
      "\<forall>i < length p. q ! i = (if i \<in> set ks then 0 else p[k := 0] ! i)"
    using Cons.IH [of "p[k := 0]"] by auto
  then show ?case using Cons.prems by (auto simp: nth_list_update)
qed simp

lemma secure_cleanse_wipes:
  assumes "len \<le> length p"
  shows "\<exists>q. secure_cleanse p len = Some q \<and> length q = length p
    \<and> (\<forall>i < length p. q ! i = (if i < len then 0 else p ! i))"
  using cleanse_loop_spec [of "[0..<len]" p] assms by (auto simp: secure_cleanse_def)

lemma same_bytes_eq:
  assumes "len \<le> length a" "len \<le> length b"
  shows "same_bytes a b len = Some (take len a = take len b)"
  using constant_time_memcmp_spec [OF assms] by (auto simp: same_bytes_def)

lemma flipped_differs:
  assumes "k < length a" "k < n" "m \<noteq> (0 :: byte)"
  shows "take n a \<noteq> take n (a[k := a ! k XOR m])"
proof
  assume "take n a = take n (a[k := a ! k XOR m])"
  then have "take n a ! k = take n (a[k := a ! k XOR m]) ! k" by simp
  then have "a ! k = a ! k XOR m" using assms by simp
  then show False using assms(3) by (metis xor.assoc xor_self_eq xor.left_neutral)
qed

lemma crypto_harness_holds:
  assumes "length buf_a = 32" "length key_material = 32"
  shows "holds (crypto_harness buf_a params iters key_material)"
proof -
  obtain wiped where "secure_cleanse key_material 32 = Some wiped" "\<forall>i < 32. wiped ! i = 0"
    using secure_cleanse_wipes [of 32 key_material] assms(2) by auto
  moreover have "take 32 buf_a \<noteq> take 32 (buf_a[0 := buf_a ! 0 XOR 1])"
    "take 32 buf_a \<noteq> take 32 (buf_a[31 := buf_a ! 31 XOR 0xFF])"
    using assms(1) by (intro flipped_differs; simp)+
  ultimately show ?thesis
    using assms
    by (simp add: crypto_harness_def same_bytes_eq validate_pbkdf2_params_def holds_append Let_def
        PBKDF2_MIN_ITERATIONS_def)
qed

end
