(* ===== verification/Lifecycles.thy ===== *)
theory Lifecycles
  imports Cbmc
begin

text \<open>
  The status machines of the compliance modules, as their harnesses state them: verifiable
  credentials (\<open>verification/cbmc/cbmc_did_vc.c\<close>), snapshot replication and recovery targets
  (\<open>cbmc_disaster_recovery.c\<close>), service providers and incidents (\<open>cbmc_mica_dora.c\<close>). A status is
  the unsigned integer of the code; a harness is the list of its checks.
\<close>

subsection \<open>Verifiable credentials\<close>

definition VC_STATUS_COUNT :: u32 where "VC_STATUS_COUNT = 4"

text \<open>0 is VALID, 1 REVOKED, 2 SUSPENDED; the actions are suspend, revoke, reinstate, sign.\<close>

definition vc_next :: "u32 \<Rightarrow> u32 \<Rightarrow> u32" where
  "vc_next current action =
     (let nxt = current;
          nxt = (if action = 0 \<and> current = 0 then 2 else nxt);
          nxt = (if action = 1 \<and> (current = 0 \<or> current = 2) then 1 else nxt);
          nxt = (if action = 2 \<and> current = 2 then 0 else nxt)
      in nxt)"

definition harness_verify_state_machine :: "u32 \<Rightarrow> u32 \<Rightarrow> harness" where
  "harness_verify_state_machine current action =
     [Assume (current < VC_STATUS_COUNT), Assume (action < 4)] @
     (let nxt = vc_next current action in
      whenever (current = 1) [Assert (nxt = 1)] @
      [Assert (nxt < VC_STATUS_COUNT)] @
      whenever (nxt = 2 \<and> current \<noteq> 2) [Assert (current = 0)])"

fun vc_run :: "u32 \<Rightarrow> u32 list \<Rightarrow> u32" where
  "vc_run s [] = s"
| "vc_run s (a # as) = vc_run (vc_next s a) as"

subsection \<open>Snapshot replication\<close>

definition DR_STATUS_COUNT :: u32 where "DR_STATUS_COUNT = 7"
definition DR_MAX_REGIONS :: u32 where "DR_MAX_REGIONS = 8"
definition DR_MAX_SNAPSHOTS :: u64 where "DR_MAX_SNAPSHOTS = 256"

text \<open>1 is COMPLETE, 2 REPLICATING, 3 VERIFIED, 6 PRUNED.\<close>

definition dr_next :: "u32 \<Rightarrow> u32 \<Rightarrow> u32" where
  "dr_next current region_count =
     (if current = 1 \<or> current = 2
      then if region_count \<ge> 2 then 3 else if region_count = 1 then 2 else current
      else current)"

definition harness_replication_state :: "u32 \<Rightarrow> u32 \<Rightarrow> harness" where
  "harness_replication_state current region_count =
     [Assume (current < DR_STATUS_COUNT), Assume (region_count \<le> DR_MAX_REGIONS)] @
     (let nxt = dr_next current region_count in
      whenever (nxt = 3) [Assert (region_count \<ge> 2)] @
      whenever (current = 6) [Assert (nxt = 6)] @
      [Assert (nxt < DR_STATUS_COUNT)])"

fun dr_run :: "u32 \<Rightarrow> u32 list \<Rightarrow> u32" where
  "dr_run s [] = s"
| "dr_run s (r # rs) = dr_run (dr_next s r) rs"

definition harness_retention :: "u64 \<Rightarrow> u64 \<Rightarrow> harness" where
  "harness_retention snaps keep =
     [Assume (snaps \<le> DR_MAX_SNAPSHOTS), Assume (keep > 0), Assume (keep \<le> DR_MAX_SNAPSHOTS)] @
     whenever (snaps > keep)
       (let to_prune = snaps - keep in [Assert (to_prune < snaps), Assert (snaps - to_prune = keep)]) @
     [Assert (keep > 0)]"

definition rto_rpo_compliant :: "u64 \<Rightarrow> u64 \<Rightarrow> u64 \<Rightarrow> u64 \<Rightarrow> bool" where
  "rto_rpo_compliant rto_target rto_actual rpo_target rpo_actual =
     (let rto_ok = (rto_actual \<le> rto_target); rpo_ok = (rpo_actual \<le> rpo_target) in rto_ok \<and> rpo_ok)"

text \<open>The 64 bit variables are initialised from the 32 bit \<open>nondet_uint()\<close>.\<close>

definition harness_rto_rpo :: "u32 \<Rightarrow> u32 \<Rightarrow> u32 \<Rightarrow> u32 \<Rightarrow> harness" where
  "harness_rto_rpo n1 n2 n3 n4 =
     (let rto_target = ucast n1; rto_actual = ucast n2; rpo_target = ucast n3; rpo_actual = ucast n4;
          compliant = rto_rpo_compliant rto_target rto_actual rpo_target rpo_actual in
      [Assume (rto_target > 0), Assume (rpo_target > 0)] @
      whenever compliant [Assert (rto_actual \<le> rto_target), Assert (rpo_actual \<le> rpo_target)] @
      whenever (rto_actual > rto_target \<or> rpo_actual > rpo_target) [Assert (\<not> compliant)])"

subsection \<open>Service providers\<close>

datatype CaspStatus =
  CASP_STATUS_PENDING | CASP_STATUS_AUTHORIZED | CASP_STATUS_SUSPENDED | CASP_STATUS_REVOKED

text \<open>The blocks of \<open>verify_casp_status_range\<close>, each a transition with its condition.\<close>

inductive casp_step :: "CaspStatus \<Rightarrow> CaspStatus \<Rightarrow> bool" where
  authorize: "casp_step CASP_STATUS_PENDING CASP_STATUS_AUTHORIZED"
| suspend: "casp_step CASP_STATUS_AUTHORIZED CASP_STATUS_SUSPENDED"
| revoke: "status = CASP_STATUS_AUTHORIZED \<or> status = CASP_STATUS_SUSPENDED \<Longrightarrow>
    casp_step status CASP_STATUS_REVOKED"
| stay: "casp_step CASP_STATUS_REVOKED CASP_STATUS_REVOKED"

code_pred casp_step .

inductive_cases casp_step_cases: "casp_step s t"

subsection \<open>Incidents\<close>

definition ICT_STATUS_RESOLVED :: u32 where "ICT_STATUS_RESOLVED = 4"
definition ICT_STATUS_COUNT :: u32 where "ICT_STATUS_COUNT = 5"

definition ict_accepted :: "u32 \<Rightarrow> u32 \<Rightarrow> bool" where
  "ict_accepted current proposed =
     (if proposed \<le> current \<and> proposed \<noteq> ICT_STATUS_RESOLVED then False else True)"

text \<open>An incident report that is not accepted leaves the status.\<close>

fun ict_run :: "u32 \<Rightarrow> u32 list \<Rightarrow> u32" where
  "ict_run s [] = s"
| "ict_run s (p # ps) = ict_run (if ict_accepted s p then p else s) ps"

definition incident_deadlines :: "u64 \<Rightarrow> u64 \<times> u64 \<times> u64" where
  "incident_deadlines detected_at =
     (detected_at + 4 * 3600, detected_at + 24 * 3600, detected_at + 72 * 3600)"

definition verify_incident_deadline_bounds :: "u64 \<Rightarrow> harness" where
  "verify_incident_deadline_bounds detected_at =
     [Assume (detected_at \<ge> 1577836800), Assume (detected_at \<le> 4102444800)] @
     (let (initial, intermediate, last_one) = incident_deadlines detected_at in
      [Assert (initial > detected_at), Assert (intermediate > detected_at), Assert (last_one > detected_at),
       Assert (initial < intermediate), Assert (intermediate < last_one),
       Assert (last_one \<le> UINT64_MAX)])"

subsection \<open>Terminal states\<close>

interpretation vc_revoked: terminal_machine "\<lambda>s a t. t = vc_next s a" "\<lambda>s. s = 1"
  by unfold_locales (simp add: vc_next_def Let_def)

interpretation dr_pruned: terminal_machine "\<lambda>s r t. t = dr_next s r" "\<lambda>s. s = 6 \<or> s = 3"
  by unfold_locales (auto simp: dr_next_def)

interpretation casp_revoked: terminal_machine "\<lambda>s (_ :: unit) t. casp_step s t" "\<lambda>s. s = CASP_STATUS_REVOKED"
  by unfold_locales (auto elim: casp_step_cases)

lemma vc_run_runs: "runs (\<lambda>s a t. t = vc_next s a) s as (vc_run s as)"
  by (induction as arbitrary: s) (auto intro: runs.intros)

lemma dr_run_runs: "runs (\<lambda>s r t. t = dr_next s r) s rs (dr_run s rs)"
  by (induction rs arbitrary: s) (auto intro: runs.intros)

subsection \<open>Credentials over time\<close>

lemma vc_next_cases:
  "vc_next 0 a = (if a = 0 then 2 else if a = 1 then 1 else 0)"
  "vc_next 2 a = (if a = 1 then 1 else if a = 2 then 0 else 2)"
  "vc_next 1 a = 1"
  by (simp_all add: vc_next_def Let_def)

text \<open>The last suspension or reinstatement decides.\<close>

definition last_switch :: "u32 \<Rightarrow> u32 list \<Rightarrow> u32" where
  "last_switch s as = foldl (\<lambda>s a. if a = 0 then 2 else if a = 2 then 0 else s) s as"

lemma vc_run_spec:
  "s = 0 \<or> s = 2 \<Longrightarrow> vc_run s as = (if 1 \<in> set as then 1 else last_switch s as)"
proof (induction as arbitrary: s)
  case Nil
  then show ?case by (simp add: last_switch_def)
next
  case (Cons a as)
  have revoked: "vc_run 1 as = 1" using vc_revoked.runs_final [OF vc_run_runs] by simp
  consider "a = 1" | "a = 0" | "a = 2" | "a \<noteq> 0" "a \<noteq> 1" "a \<noteq> 2" by blast
  then show ?case
    using Cons.prems Cons.IH [of 0] Cons.IH [of 2] revoked
    by cases (auto simp: vc_next_cases last_switch_def)
qed

text \<open>From VALID or SUSPENDED, after any sequence of actions a credential is REVOKED exactly when
  one of them was a revocation, however often it was suspended, reinstated or signed before or
  after; otherwise it is SUSPENDED or VALID as the last suspension or reinstatement says.\<close>

lemma vc_revocation_is_permanent:
  assumes "s = 0 \<or> s = 2"
  shows "vc_run s as = (if 1 \<in> set as then 1 else last_switch s as)
    \<and> (vc_run s as = 1 \<longleftrightarrow> 1 \<in> set as)"
proof -
  have "last_switch s as = 0 \<or> last_switch s as = 2" if "s = 0 \<or> s = 2" for s
    using that
  proof (induction as arbitrary: s)
    case (Cons a as)
    then show ?case by (simp add: last_switch_def)
  qed (simp add: last_switch_def)
  then have "last_switch s as \<noteq> 1" using assms by force
  then show ?thesis using vc_run_spec [OF assms, of as] by simp
qed

lemma vc_revocation_is_permanent_witness:
  "vc_run 0 [0, 2, 1, 2, 3] = 1 \<and> vc_run 0 [0, 2, 0, 3] = 2"
  using vc_revocation_is_permanent [of 0 "[0, 2, 1, 2, 3]"] vc_revocation_is_permanent [of 0 "[0, 2, 0, 3]"]
  by (simp add: last_switch_def)

lemma harness_verify_state_machine_holds: "holds (harness_verify_state_machine current action)"
  by (auto simp: harness_verify_state_machine_def vc_next_def Let_def VC_STATUS_COUNT_def holds_append)

subsection \<open>Replication over time\<close>

lemma dr_next_cases:
  "dr_next 1 r = (if r \<ge> 2 then 3 else if r = 1 then 2 else 1)"
  "dr_next 2 r = (if r \<ge> 2 then 3 else 2)"
  "dr_next 3 r = 3"
  by (simp_all add: dr_next_def)

lemma dr_run_spec:
  assumes "s = 1 \<or> s = 2"
  shows "dr_run s rs = 3 \<longleftrightarrow> (\<exists>r \<in> set rs. r \<ge> 2)"
  using assms
proof (induction rs arbitrary: s)
  case (Cons r rs)
  have verified: "dr_run 3 rs = 3" using dr_pruned.runs_final [OF dr_run_runs] by simp
  have "dr_next s r = (if r \<ge> 2 then 3 else dr_next s r)" using Cons.prems by (auto simp: dr_next_def)
  moreover have "\<not> r \<ge> 2 \<Longrightarrow> dr_next s r = 1 \<or> dr_next s r = 2"
    using Cons.prems by (auto simp: dr_next_cases)
  ultimately show ?case
    using Cons.IH [of "dr_next s r"] verified by (cases "r \<ge> 2") auto
qed auto

text \<open>A snapshot that was complete or replicating is VERIFIED after a series of replication rounds
  exactly when one of the rounds reached two regions, which is the invariant the harness means to
  check; but the assertion of the harness is about any current state, and it fails exactly for a
  snapshot that is VERIFIED already when fewer than two regions are reached now.\<close>

lemma verified_needs_two_regions:
  assumes "s = 1 \<or> s = 2"
  shows "(dr_run s rs = 3 \<longleftrightarrow> (\<exists>r \<in> set rs. r \<ge> 2))
    \<and> (\<forall>current r. holds (harness_replication_state current r) = (current \<noteq> 3 \<or> r \<ge> 2))"
proof -
  have "holds (harness_replication_state current r) = (current \<noteq> 3 \<or> r \<ge> 2)" for current r
  proof (cases "current = 3")
    case True
    then show ?thesis
      by (auto simp: harness_replication_state_def dr_next_def Let_def DR_STATUS_COUNT_def holds_append
          DR_MAX_REGIONS_def word_le_nat_alt)
  next
    case False
    then show ?thesis
      by (auto simp: harness_replication_state_def dr_next_def Let_def DR_STATUS_COUNT_def holds_append)
  qed
  then show ?thesis using dr_run_spec [OF assms] by simp
qed

lemma verified_needs_two_regions_witness:
  "dr_run 1 [1, 0, 3, 1] = 3 \<and> dr_run 1 [1, 1] \<noteq> 3 \<and> \<not> holds (harness_replication_state 3 1)"
  using verified_needs_two_regions [of 1 "[1, 0, 3, 1]"] verified_needs_two_regions [of 1 "[1, 1]"]
  by (auto simp: DR_STATUS_COUNT_def word_le_nat_alt)

lemma harness_retention_holds: "holds (harness_retention snaps keep)"
proof -
  have "snaps - keep < snaps" if "keep < snaps" "0 < keep"
  proof -
    have "unat (snaps - keep) = unat snaps - unat keep"
      using that by (intro unat_sub) (simp add: order_less_imp_le)
    moreover have "0 < unat keep" using that by (simp add: word_less_nat_alt)
    ultimately show ?thesis using that by (simp add: word_less_nat_alt)
  qed
  then show ?thesis by (simp add: harness_retention_def Let_def holds_append)
qed

lemma harness_rto_rpo_holds: "holds (harness_rto_rpo n1 n2 n3 n4)"
  by (auto simp: harness_rto_rpo_def rto_rpo_compliant_def Let_def holds_append)

subsection \<open>Incidents over time\<close>

lemma ict_run_mono: "s \<le> ICT_STATUS_RESOLVED \<Longrightarrow> \<forall>p \<in> set ps. p < ICT_STATUS_COUNT \<Longrightarrow> s \<le> ict_run s ps"
proof (induction ps arbitrary: s)
  case (Cons p ps)
  let ?t = "if ict_accepted s p then p else s"
  have "s \<le> ?t \<and> ?t \<le> ICT_STATUS_RESOLVED"
    using Cons.prems
    by (auto simp: ict_accepted_def ICT_STATUS_RESOLVED_def ICT_STATUS_COUNT_def word_le_nat_alt
        word_less_nat_alt not_le)
  then show ?case using Cons.IH [of ?t] Cons.prems by (auto intro: order_trans)
qed simp

lemma ict_resolved_final: "\<forall>p \<in> set ps. p < ICT_STATUS_COUNT \<Longrightarrow> ict_run ICT_STATUS_RESOLVED ps = ICT_STATUS_RESOLVED"
proof (induction ps)
  case (Cons p ps)
  have "p \<le> ICT_STATUS_RESOLVED"
    using Cons.prems by (auto simp: ICT_STATUS_RESOLVED_def ICT_STATUS_COUNT_def word_le_nat_alt word_less_nat_alt)
  then show ?case using Cons by (auto simp: ict_accepted_def)
qed simp

lemma incident_deadlines_bounded: "holds (verify_incident_deadline_bounds detected_at)"
proof (cases "detected_at \<le> 4102444800")
  case True
  then have "unat detected_at \<le> 4102444800" by (simp add: word_le_nat_alt)
  then have "unat (detected_at + 14400) = unat detected_at + 14400"
    "unat (detected_at + 86400) = unat detected_at + 86400"
    "unat (detected_at + 259200) = unat detected_at + 259200"
    by (simp_all add: unat_word_ariths)
  then show ?thesis
    by (simp add: verify_incident_deadline_bounds_def incident_deadlines_def word_less_nat_alt)
qed (simp add: verify_incident_deadline_bounds_def)

subsection \<open>Providers over time\<close>

lemma casp_rank:
  "casp_step s t \<Longrightarrow> s = CASP_STATUS_PENDING \<Longrightarrow> t = CASP_STATUS_AUTHORIZED"
  "casp_step s t \<Longrightarrow> t \<noteq> CASP_STATUS_PENDING"
  by (auto elim: casp_step_cases)

lemma casp_revoked_forever:
  "runs (\<lambda>s (_ :: unit) t. casp_step s t) CASP_STATUS_REVOKED es t \<Longrightarrow> t = CASP_STATUS_REVOKED"
  using casp_revoked.runs_final by blast

end
