(* ===== verification/Limits.thy ===== *)
theory Limits
  imports Cbmc
begin

text \<open>
  Sizes, filters and severities of the remaining modules, as their harnesses state them:
  identifiers (\<open>verification/cbmc/cbmc_mica_dora.c\<close>, \<open>cbmc_confidential_contracts.c\<close>,
  \<open>cbmc_did_vc.c\<close>), the serialisation of contract storage, and event export
  (\<open>cbmc_siem_export.c\<close>).
\<close>

subsection \<open>Identifiers\<close>

definition MICA_ID_SIZE :: u64 where "MICA_ID_SIZE = 33"

definition verify_generate_id_bounds :: "u64 \<Rightarrow> u64 \<Rightarrow> harness" where
  "verify_generate_id_bounds pre_len data_len =
     (let BUF_SIZE = 512; MAX_PREFIX = 64; TIMESTAMP_BYTES = 8; MAX_DATA = 128 in
      [Assume (pre_len \<le> MAX_PREFIX), Assume (data_len \<le> MAX_DATA)] @
      (let tot = pre_len + TIMESTAMP_BYTES + data_len in
       [Assert (tot \<le> BUF_SIZE), Assert (16 * 2 + 1 = MICA_ID_SIZE)]))"

definition harness_generate_id_buffer :: "u64 \<Rightarrow> u64 \<Rightarrow> harness" where
  "harness_generate_id_buffer plen dlen =
     (let off = 0 in
      [Assume (plen \<le> 32)] @
      (let off = off + plen; off = off + 8 in
       [Assert (off \<le> 256), Assume (dlen \<le> 64)] @
       (let off = off + dlen in [Assert (off \<le> 256)])))"

definition DID_URI_SIZE :: u64 where "DID_URI_SIZE = 128"

definition harness_did_uri_bounds :: harness where
  "harness_did_uri_bounds =
     (let pre_len = 10; hex_len = 32; null_term = 1;
          tot = pre_len + hex_len + null_term;
          fragment_key = tot - 1 + 6;
          fragment_svc = tot - 1 + 6;
          max_fragment = tot - 1 + 6 in
      [Assert (tot \<le> DID_URI_SIZE), Assert (fragment_key < DID_URI_SIZE),
       Assert (fragment_svc < DID_URI_SIZE), Assert (max_fragment < DID_URI_SIZE)])"

subsection \<open>Contract storage\<close>

definition CC_MAX_STATE_SIZE :: nat where "CC_MAX_STATE_SIZE = 4096"
definition VM_MAX_STORAGE :: nat where "VM_MAX_STORAGE = 256"
definition CC_COMMITMENT_SIZE :: nat where "CC_COMMITMENT_SIZE = 32"

text \<open>
  The entries of storage, eight bytes of key and eight of value each, with the state buffer and the
  offset reached. Writing outside the buffer is undefined, and so is a failed assertion.
\<close>

fun write_bytes :: "bytes \<Rightarrow> bytes \<Rightarrow> nat \<Rightarrow> (bytes \<times> nat) option" where
  "write_bytes [] buf off = Some (buf, off)"
| "write_bytes (x # xs) buf off =
     (if off < length buf then write_bytes xs (buf[off := x]) (off + 1) else None)"

fun serialize_loop :: "(bytes \<times> bytes) list \<Rightarrow> bytes \<Rightarrow> nat \<Rightarrow> (bytes \<times> nat) option" where
  "serialize_loop [] buf state_off = Some (buf, state_off)"
| "serialize_loop ((k, v) # kvs) buf state_off =
     (if state_off + 16 > CC_MAX_STATE_SIZE then Some (buf, state_off)
      else do {
        asserted \<leftarrow> (if state_off + 16 \<le> CC_MAX_STATE_SIZE then Some () else None);
        (buf, state_off) \<leftarrow> write_bytes k buf state_off;
        (buf, state_off) \<leftarrow> write_bytes v buf state_off;
        serialize_loop kvs buf state_off })"

definition harness_state_serialization :: "bytes \<Rightarrow> (bytes \<times> bytes) list \<Rightarrow> harness" where
  "harness_state_serialization state_bytes storage =
     [Assume (length storage \<le> VM_MAX_STORAGE)] @
     defined (serialize_loop storage state_bytes 0)
       (\<lambda>(buf, state_off). [Assert (state_off \<le> CC_MAX_STATE_SIZE)])"

definition commitment_input :: "bytes \<Rightarrow> u64 \<Rightarrow> bytes \<Rightarrow> bytes option" where
  "commitment_input input val blind = do {
     (input, off) \<leftarrow> write_bytes (le_bytes 8 val) input 0;
     (input, off) \<leftarrow> write_bytes (take CC_COMMITMENT_SIZE blind) input 8;
     Some input }"

definition harness_commitment_buffer :: "bytes \<Rightarrow> u64 \<Rightarrow> bytes \<Rightarrow> harness" where
  "harness_commitment_buffer input val blind =
     map (\<lambda>i. Assert (i < (40 :: nat))) [0..<8] @
     [Assert (8 + CC_COMMITMENT_SIZE = 40)] @
     defined (commitment_input input val blind) (\<lambda>input. [])"

subsection \<open>Event export\<close>

definition SIEM_SEV_COUNT :: u32 where "SIEM_SEV_COUNT = 8"
definition SIEM_CAT_COUNT :: u32 where "SIEM_CAT_COUNT = 10"

definition passes_severity :: "u32 \<Rightarrow> u32 \<Rightarrow> bool" where
  "passes_severity event_sev filter_sev \<longleftrightarrow> event_sev \<le> filter_sev"

definition passes_category :: "u32 \<Rightarrow> u32 \<Rightarrow> bool" where
  "passes_category cat mask_bits \<longleftrightarrow> mask_bits = 0 \<or> mask_bits AND push_bit (unat cat) 1 \<noteq> 0"

definition harness_filter_logic :: "u32 \<Rightarrow> u32 \<Rightarrow> u32 \<Rightarrow> u32 \<Rightarrow> harness" where
  "harness_filter_logic event_sev filter_sev cat mask_bits =
     [Assume (event_sev < SIEM_SEV_COUNT), Assume (filter_sev < SIEM_SEV_COUNT)] @
     whenever (event_sev = 0) [Assert (passes_severity event_sev filter_sev)] @
     whenever (event_sev = 7 \<and> filter_sev < 7) [Assert (\<not> passes_severity event_sev filter_sev)] @
     [Assume (cat < SIEM_CAT_COUNT)] @
     whenever (mask_bits = 0) [Assert (passes_category cat mask_bits)]"

definition cef_severity :: "int list" where
  "cef_severity = [10, 9, 8, 7, 5, 4, 3, 1]"

definition harness_cef_mapping :: "u32 \<Rightarrow> harness" where
  "harness_cef_mapping sev =
     [Assume (sev < SIEM_SEV_COUNT)] @
     defined (nth_opt cef_severity (unat sev)) (\<lambda>c.
       [Assert (c \<ge> 0), Assert (c \<le> 10)] @
       whenever (sev = 0) [Assert (c = 10)] @
       whenever (sev = 7) [Assert (c = 1)] @
       whenever (sev < 4) [Assert (c \<ge> 7)])"

subsection \<open>Every harness holds\<close>

lemma id_bounds_hold: "holds (verify_generate_id_bounds pre_len data_len)"
  by (simp add: verify_generate_id_bounds_def MICA_ID_SIZE_def word_le_nat_alt unat_word_ariths)

lemma id_buffer_holds: "holds (harness_generate_id_buffer plen dlen)"
  by (simp add: harness_generate_id_buffer_def word_le_nat_alt unat_word_ariths)

text \<open>The URI prefix is 13 characters, not the 10 the harness adds up; the longest URI still fits.\<close>

lemma did_uri_bounds:
  "holds harness_did_uri_bounds" "length ''did:higgaion:'' = 13" "13 + 32 + 6 + 1 \<le> unat DID_URI_SIZE"
  by (simp_all add: harness_did_uri_bounds_def DID_URI_SIZE_def)

lemma write_bytes_eq:
  "off + length xs \<le> length buf \<Longrightarrow> write_bytes xs buf off = Some (put_slice off xs buf, off + length xs)"
proof (induction xs arbitrary: buf off)
  case Nil
  then show ?case by (simp add: put_slice_def)
next
  case (Cons x xs)
  have "put_slice (Suc off) xs (buf[off := x]) = put_slice off (x # xs) buf"
    using Cons.prems by (simp add: put_slice_def take_Suc_conv_app_nth drop_update_swap)
  then show ?case using Cons by simp
qed

text \<open>
  A storage of \<open>n\<close> entries becomes the concatenation of the first 256 of them: for the storages the
  machine allows nothing is cut off.
\<close>

definition entries_ok :: "(bytes \<times> bytes) list \<Rightarrow> bool" where
  "entries_ok kvs \<longleftrightarrow> (\<forall>(k, v) \<in> set kvs. length k = 8 \<and> length v = 8)"

definition flatten :: "(bytes \<times> bytes) list \<Rightarrow> bytes" where
  "flatten kvs = concat (map (\<lambda>(k, v). k @ v) kvs)"

lemma serialize_loop_eq:
  assumes "entries_ok kvs" "length buf = CC_MAX_STATE_SIZE" "off + 16 * length kvs \<le> CC_MAX_STATE_SIZE"
  shows "serialize_loop kvs buf off = Some (put_slice off (flatten kvs) buf, off + 16 * length kvs)"
  using assms
proof (induction kvs arbitrary: buf off)
  case Nil
  then show ?case by (simp add: flatten_def put_slice_def)
next
  case (Cons kv kvs)
  obtain k v where kv: "kv = (k, v)" by (cases kv)
  let ?buf = "put_slice (off + 8) v (put_slice off k buf)"
  have len: "length k = 8" "length v = 8" using Cons.prems kv by (auto simp: entries_ok_def)
  have step: "serialize_loop ((k, v) # kvs) buf off = serialize_loop kvs ?buf (off + 16)"
    using Cons.prems len by (simp add: write_bytes_eq add.commute)
  have "?buf = put_slice off (k @ v) buf"
    using Cons.prems len by (simp add: put_slice_def min_def add.commute)
  moreover have "put_slice (off + 16) (flatten kvs) (put_slice off (k @ v) buf)
      = put_slice off ((k @ v) @ flatten kvs) buf"
    using Cons.prems len by (simp add: put_slice_def min_def ac_simps)
  ultimately show ?case
    using Cons.IH [of ?buf "off + 16"] Cons.prems len step
    by (simp add: kv entries_ok_def flatten_def)
qed

lemma length_flatten: "entries_ok kvs \<Longrightarrow> length (flatten kvs) = 16 * length kvs"
  by (induction kvs) (auto simp: flatten_def entries_ok_def)

lemma storage_serialized:
  assumes "entries_ok kvs" "length buf = CC_MAX_STATE_SIZE" "length kvs \<le> VM_MAX_STORAGE"
  shows "serialize_loop kvs buf 0 = Some (flatten kvs @ drop (16 * length kvs) buf, 16 * length kvs)"
    and "passes (harness_state_serialization buf kvs)"
proof -
  have room: "16 * length kvs \<le> CC_MAX_STATE_SIZE"
    using assms(3) by (simp add: CC_MAX_STATE_SIZE_def VM_MAX_STORAGE_def)
  then show "serialize_loop kvs buf 0 = Some (flatten kvs @ drop (16 * length kvs) buf, 16 * length kvs)"
    using serialize_loop_eq [OF assms(1,2), of 0] length_flatten [OF assms(1)]
    by (simp add: put_slice_def)
  then show "passes (harness_state_serialization buf kvs)"
    using room assms(3) by (simp add: harness_state_serialization_def)
qed

lemma commitment_buffer_filled:
  assumes "length input = 40" "length blind = CC_COMMITMENT_SIZE"
  shows "commitment_input input val blind = Some (le_bytes 8 val @ blind)"
    and "passes (harness_commitment_buffer input val blind)"
proof -
  show "commitment_input input val blind = Some (le_bytes 8 val @ blind)"
    using assms by (simp add: commitment_input_def write_bytes_eq CC_COMMITMENT_SIZE_def put_slice_def)
  then show "passes (harness_commitment_buffer input val blind)"
    by (simp add: harness_commitment_buffer_def CC_COMMITMENT_SIZE_def)
qed

lemma filter_logic_holds: "holds (harness_filter_logic event_sev filter_sev cat mask_bits)"
  by (auto simp: harness_filter_logic_def passes_severity_def passes_category_def holds_append)

lemma cef_mapping_holds: "holds (harness_cef_mapping sev)"
proof (cases "sev < SIEM_SEV_COUNT")
  case True
  then have "unat sev < 8" by (simp add: SIEM_SEV_COUNT_def word_less_nat_alt)
  then have "unat sev \<in> {0, 1, 2, 3, 4, 5, 6, 7}" by auto
  then show ?thesis
    by (auto simp: harness_cef_mapping_def nth_opt_def cef_severity_def holds_append word_less_nat_alt
        word_unat_eq_iff)
qed (simp add: harness_cef_mapping_def)

text \<open>The mapping is strictly monotone, which the harness only checks approximately.\<close>

lemma cef_strictly_decreasing: "i < j \<Longrightarrow> j < 8 \<Longrightarrow> cef_severity ! j < cef_severity ! i"
  by (auto simp: cef_severity_def less_Suc_eq numeral_eq_Suc)

end
