(* ===== verification/ReserveRatio.thy ===== *)
theory ReserveRatio
  imports Cbmc
begin

text \<open>
  The reserve ratio of \<open>verification/cbmc/cbmc_mica_dora.c\<close> (\<open>verify_reserve_ratio_safety\<close>):
  two \<open>uint64_t\<close> amounts are converted to \<open>double\<close>, divided, and the quotient is compared with
  1.0. The conversions and the division round to 53 significant bits, half to even, as IEEE 754
  (and C's Annex F) prescribe; no value here is subnormal or overflows. A \<open>double\<close> is a natural
  number times \<open>2 ^ -117\<close>, so a quotient of converted amounts has all its bits.
\<close>

subsection \<open>Rounding\<close>

fun bit_length :: "nat \<Rightarrow> nat" where
  "bit_length n = (if n = 0 then 0 else Suc (bit_length (n div 2)))"

declare bit_length.simps [simp del]

text \<open>
  Rounding \<open>q\<close> (plus something smaller than 1 when \<open>sticky\<close>) to 53 significant bits; a sticky
  fraction may only be given when bits are dropped.
\<close>

definition round53 :: "nat \<Rightarrow> bool \<Rightarrow> nat" where
  "round53 q sticky =
     (let drop = bit_length q - 53; m = q div 2 ^ drop; r = q mod 2 ^ drop in
      if drop = 0 then q
      else if 2 ^ (drop - 1) < r \<or> r = 2 ^ (drop - 1) \<and> (sticky \<or> odd m) then (m + 1) * 2 ^ drop
      else m * 2 ^ drop)"

definition u64_to_double :: "u64 \<Rightarrow> nat" where
  "u64_to_double n = round53 (unat n) False"

text \<open>The quotient of two converted amounts, in units of \<open>2 ^ -117\<close>.\<close>

definition double_div :: "nat \<Rightarrow> nat \<Rightarrow> nat" where
  "double_div a b = round53 (a * 2 ^ 117 div b) (a * 2 ^ 117 mod b \<noteq> 0)"

definition double_one :: nat where
  "double_one = 2 ^ 117"

definition reserve_ratio :: "u64 \<Rightarrow> u64 \<Rightarrow> nat" where
  "reserve_ratio reserve_value tokens_issued =
     double_div (u64_to_double reserve_value) (u64_to_double tokens_issued)"

definition verify_reserve_ratio_safety :: "u64 \<Rightarrow> u64 \<Rightarrow> harness" where
  "verify_reserve_ratio_safety tokens_issued reserve_value =
     [Assume (tokens_issued > 0), Assume (reserve_value \<le> UINT64_MAX)] @
     (let ratio = reserve_ratio reserve_value tokens_issued in
      [Assert (ratio \<ge> 0)] @
      whenever (reserve_value < tokens_issued) [Assert (ratio < double_one)] @
      whenever (reserve_value \<ge> tokens_issued) [Assert (ratio \<ge> double_one)])"

subsection \<open>Lengths\<close>

lemma bit_length_0 [simp]: "bit_length 0 = 0"
  by (simp add: bit_length.simps)

lemma bit_length_pos: "0 < n \<Longrightarrow> bit_length n = Suc (bit_length (n div 2))"
  by (subst bit_length.simps) simp

lemma bit_length_lower: "0 < n \<Longrightarrow> 2 ^ (bit_length n - 1) \<le> n"
proof (induction n rule: bit_length.induct)
  case (1 n)
  show ?case
  proof (cases "n div 2 = 0")
    case True
    then have "n = 1" using "1.prems" by auto
    then show ?thesis by (simp add: bit_length_pos)
  next
    case False
    then have "2 ^ (bit_length (n div 2) - 1) \<le> n div 2" using "1.IH" by auto
    moreover have "0 < bit_length (n div 2)" using False bit_length_pos [of "n div 2"] by simp
    then have "2 ^ bit_length (n div 2) = 2 * (2::nat) ^ (bit_length (n div 2) - 1)"
      by (metis Suc_diff_1 power_Suc)
    ultimately have "2 ^ bit_length (n div 2) \<le> n" by linarith
    then show ?thesis using "1.prems" by (simp add: bit_length_pos)
  qed
qed

lemma bit_length_upper: "n < 2 ^ bit_length n"
proof (induction n rule: bit_length.induct)
  case (1 n)
  then show ?case by (cases "n = 0") (auto simp: bit_length_pos)
qed

lemma bit_length_less: "n < 2 ^ k \<Longrightarrow> bit_length n \<le> k"
proof (rule ccontr)
  assume n: "n < 2 ^ k" and "\<not> bit_length n \<le> k"
  then have "k \<le> bit_length n - 1" "0 < n" by (auto intro!: gr0I)
  then have "2 ^ k \<le> n"
    using bit_length_lower [of n] power_increasing [of k "bit_length n - 1" "2::nat"] by linarith
  with n show False by simp
qed

lemma bit_length_mono: "a \<le> b \<Longrightarrow> bit_length a \<le> bit_length b"
  using bit_length_upper [of b] by (intro bit_length_less) simp

subsection \<open>Rounding is monotone and keeps powers of two\<close>

lemma pow_split:
  assumes "53 < L"
  shows "(2::nat) ^ (L - 1) = 2 ^ 52 * 2 ^ (L - 53)" and "(2::nat) ^ L = 2 ^ 53 * 2 ^ (L - 53)"
proof -
  have L: "L - 1 = 52 + (L - 53)" "L = 53 + (L - 53)" using assms by simp_all
  show "(2::nat) ^ (L - 1) = 2 ^ 52 * 2 ^ (L - 53)" by (subst L(1)) (simp only: power_add)
  show "(2::nat) ^ L = 2 ^ 53 * 2 ^ (L - 53)" by (subst L(2)) (simp only: power_add)
qed

text \<open>The result is one of the two neighbours.\<close>

lemma round53_cases:
  obtains (exact) "bit_length q \<le> 53" "round53 q s = q"
  | (down) "53 < bit_length q"
      "round53 q s = q div 2 ^ (bit_length q - 53) * 2 ^ (bit_length q - 53)"
  | (up) "53 < bit_length q"
      "round53 q s = (q div 2 ^ (bit_length q - 53) + 1) * 2 ^ (bit_length q - 53)"
      "q mod 2 ^ (bit_length q - 53) \<noteq> 0"
proof (cases "bit_length q \<le> 53")
  case True
  then show ?thesis using exact by (simp add: round53_def)
next
  case False
  then have "(0::nat) < 2 ^ (bit_length q - 53 - 1)" by simp
  with False show ?thesis
    using down up by (fastforce simp: round53_def Let_def split: if_splits)
qed

lemma round53_lower:
  assumes "2 ^ k \<le> q"
  shows "2 ^ k \<le> round53 q s"
proof (cases rule: round53_cases [of q s])
  case exact
  with assms show ?thesis by simp
next
  case down
  let ?d = "bit_length q - 53"
  have pos: "0 < q" using assms by (metis gr0I not_le power_eq_0_iff zero_less_numeral less_irrefl)
  have "2 ^ 52 * 2 ^ ?d \<le> q"
    using bit_length_lower [OF pos] pow_split(1) [OF down(1)] by linarith
  then have "2 ^ 52 \<le> q div 2 ^ ?d" by (simp add: less_eq_div_iff_mult_less_eq)
  then have "2 ^ 52 * 2 ^ ?d \<le> q div 2 ^ ?d * 2 ^ ?d" by (rule mult_right_mono) simp
  then have "2 ^ (bit_length q - 1) \<le> round53 q s"
    unfolding down(2) pow_split(1) [OF down(1)] .
  moreover have "k \<le> bit_length q - 1"
  proof (rule ccontr)
    assume "\<not> k \<le> bit_length q - 1"
    then have "2 ^ bit_length q \<le> (2::nat) ^ k" by (intro power_increasing) auto
    with assms bit_length_upper [of q] show False by simp
  qed
  then have "(2::nat) ^ k \<le> 2 ^ (bit_length q - 1)" by (intro power_increasing) auto
  ultimately show ?thesis by linarith
next
  case up
  have "q mod 2 ^ (bit_length q - 53) < 2 ^ (bit_length q - 53)" by simp
  then have "q < round53 q s"
    unfolding up(2) using div_mult_mod_eq [of q "2 ^ (bit_length q - 53)"]
    by (simp only: distrib_right mult_1)
  with assms show ?thesis by simp
qed

lemma round53_upper:
  assumes "q < 2 ^ k"
  shows "round53 q s \<le> 2 ^ k"
proof (cases rule: round53_cases [of q s])
  case exact
  with assms show ?thesis by simp
next
  case down
  then show ?thesis
    using assms div_times_less_eq_dividend [of q "2 ^ (bit_length q - 53)"] by linarith
next
  case up
  let ?d = "bit_length q - 53"
  have L: "bit_length q \<le> k" using assms by (rule bit_length_less)
  have "q div 2 ^ ?d < 2 ^ 53"
    using bit_length_upper [of q] unfolding pow_split(2) [OF up(1)] by (rule less_mult_imp_div_less)
  then have "round53 q s \<le> 2 ^ 53 * 2 ^ ?d" unfolding up(2) by (intro mult_right_mono) auto
  also have "\<dots> = 2 ^ bit_length q" unfolding pow_split(2) [OF up(1)] ..
  also have "\<dots> \<le> 2 ^ k" using L by (intro power_increasing) auto
  finally show ?thesis .
qed

lemma round53_mono:
  assumes "a \<le> b"
  shows "round53 a False \<le> round53 b False"
proof (cases "bit_length a = bit_length b")
  case True
  let ?d = "bit_length b - 53"
  have le: "a div 2 ^ ?d \<le> b div 2 ^ ?d" using assms by (rule div_le_mono)
  show ?thesis
  proof (cases "a div 2 ^ ?d = b div 2 ^ ?d")
    case same: True
    then have "a mod 2 ^ ?d \<le> b mod 2 ^ ?d"
      using assms by (metis add_le_cancel_left div_mult_mod_eq)
    then show ?thesis using same True assms by (auto simp: round53_def Let_def)
  next
    case False
    then have "a div 2 ^ ?d + 1 \<le> b div 2 ^ ?d" using le by simp
    then have "(a div 2 ^ ?d + 1) * 2 ^ ?d \<le> b div 2 ^ ?d * 2 ^ ?d" by (rule mult_right_mono) simp
    moreover have "round53 a False \<le> (a div 2 ^ ?d + 1) * 2 ^ ?d"
      using True assms by (cases rule: round53_cases [of a False]) auto
    moreover have "b div 2 ^ ?d * 2 ^ ?d \<le> round53 b False"
      by (cases rule: round53_cases [of b False]) auto
    ultimately show ?thesis by linarith
  qed
next
  case False
  then have less: "bit_length a < bit_length b" using bit_length_mono [OF assms] by simp
  have "round53 a False \<le> 2 ^ bit_length a" using bit_length_upper by (rule round53_upper)
  also have "\<dots> \<le> 2 ^ (bit_length b - 1)" using less by (intro power_increasing) auto
  also have "\<dots> \<le> round53 b False"
    using less by (intro round53_lower bit_length_lower) (auto intro: gr0I)
  finally show ?thesis .
qed

subsection \<open>Quotients\<close>

text \<open>A \<open>double\<close> has 53 significant bits, so two of them are never relatively closer than \<open>2 ^ -53\<close>.\<close>

definition is_double :: "nat \<Rightarrow> bool" where
  "is_double v \<longleftrightarrow> (\<exists>m e. v = m * 2 ^ e \<and> m \<le> 2 ^ 53 \<and> (e = 0 \<or> 2 ^ 52 \<le> m))"

lemma round53_is_double: "is_double (round53 q s)"
proof (cases rule: round53_cases [of q s])
  case exact
  have "q < 2 ^ bit_length q" by (rule bit_length_upper)
  also have "\<dots> \<le> 2 ^ 53" using exact(1) by (intro power_increasing) auto
  finally show ?thesis
    unfolding is_double_def exact(2) by (intro exI [of _ q] exI [of _ 0]) simp
next
  case down
  let ?d = "bit_length q - 53"
  have "0 < q" using down(1) by (auto intro: gr0I)
  then have "2 ^ 52 \<le> q div 2 ^ ?d"
    using bit_length_lower [of q] unfolding pow_split(1) [OF down(1)]
    by (simp add: less_eq_div_iff_mult_less_eq)
  moreover have "q div 2 ^ ?d < 2 ^ 53"
    using bit_length_upper [of q] unfolding pow_split(2) [OF down(1)] by (rule less_mult_imp_div_less)
  ultimately show ?thesis
    unfolding is_double_def down(2) by (intro exI [of _ "q div 2 ^ ?d"] exI [of _ ?d]) simp
next
  case up
  let ?d = "bit_length q - 53"
  have "0 < q" using up(1) by (auto intro: gr0I)
  then have "2 ^ 52 \<le> q div 2 ^ ?d"
    using bit_length_lower [of q] unfolding pow_split(1) [OF up(1)]
    by (simp add: less_eq_div_iff_mult_less_eq)
  moreover have "q div 2 ^ ?d < 2 ^ 53"
    using bit_length_upper [of q] unfolding pow_split(2) [OF up(1)] by (rule less_mult_imp_div_less)
  ultimately show ?thesis
    unfolding is_double_def up(2) by (intro exI [of _ "q div 2 ^ ?d + 1"] exI [of _ ?d]) simp
qed

lemma multiple_gap:
  fixes m n k :: nat
  assumes "m * k < n * k"
  shows "m * k + k \<le> n * k"
proof -
  have "Suc m \<le> n" using assms by simp
  then have "Suc m * k \<le> n * k" by (rule mult_le_mono1)
  then show ?thesis by simp
qed

lemma double_gap:
  assumes "is_double a" "is_double b" "a < b"
  shows "b \<le> 2 ^ 53 * (b - a)"
proof -
  obtain m1 e1 where a: "a = m1 * 2 ^ e1" "m1 \<le> 2 ^ 53"
    using assms(1) unfolding is_double_def by blast
  obtain m2 e2 where b: "b = m2 * 2 ^ e2" "m2 \<le> 2 ^ 53" "e2 = 0 \<or> 2 ^ 52 \<le> m2"
    using assms(2) unfolding is_double_def by blast
  have b_le: "b \<le> 2 ^ 53 * 2 ^ e2" unfolding b(1) using b(2) by (rule mult_right_mono) simp
  consider (fine) "e2 \<le> e1" | (next1) "e2 = Suc e1" | (coarse) "Suc e1 < e2" by linarith
  then show ?thesis
  proof cases
    case fine
    then have "a = m1 * 2 ^ (e1 - e2) * 2 ^ e2" unfolding a(1) by (simp add: mult.assoc flip: power_add)
    then have "2 ^ e2 \<le> b - a" using multiple_gap [of "m1 * 2 ^ (e1 - e2)" "2 ^ e2" m2] assms(3) b(1) by simp
    then have "2 ^ 53 * 2 ^ e2 \<le> 2 ^ 53 * (b - a)" by (rule mult_left_mono) simp
    with b_le show ?thesis by linarith
  next
    case next1
    have "a \<le> 2 ^ 53 * 2 ^ e1" unfolding a(1) using a(2) by (rule mult_right_mono) simp
    then have a_le: "a \<le> 2 ^ 52 * 2 ^ e2" using next1 by simp
    have m2: "2 ^ 52 \<le> m2" using b(3) next1 by simp
    show ?thesis
    proof (cases "m2 = 2 ^ 52")
      case True
      have "b = 2 * m2 * 2 ^ e1" unfolding b(1) next1 by simp
      then have "2 ^ e1 \<le> b - a" using multiple_gap [of m1 "2 ^ e1" "2 * m2"] assms(3) a(1) by simp
      then have "2 ^ 53 * 2 ^ e1 \<le> 2 ^ 53 * (b - a)" by (rule mult_left_mono) simp
      moreover have "b = 2 ^ 53 * 2 ^ e1" using True unfolding b(1) next1 by simp
      ultimately show ?thesis by linarith
    next
      case False
      then have "2 ^ 52 * 2 ^ e2 + 2 ^ e2 \<le> b"
        using m2 multiple_gap [of "2 ^ 52" "2 ^ e2" m2] unfolding b(1) by simp
      then have "2 ^ e2 \<le> b - a" using a_le by linarith
      then have "2 ^ 53 * 2 ^ e2 \<le> 2 ^ 53 * (b - a)" by (rule mult_left_mono) simp
      with b_le show ?thesis by linarith
    qed
  next
    case coarse
    then have m2: "2 ^ 52 \<le> m2" using b(3) by auto
    have "a \<le> 2 ^ 53 * 2 ^ e1" unfolding a(1) using a(2) by (rule mult_right_mono) simp
    also have "\<dots> \<le> 2 ^ 53 * 2 ^ (e2 - 2)" using coarse by (intro mult_left_mono power_increasing) auto
    finally have "2 * a \<le> 2 ^ 52 * 2 ^ Suc (Suc (e2 - 2))" by simp
    also have "Suc (Suc (e2 - 2)) = e2" using coarse by simp
    also have "2 ^ 52 * 2 ^ e2 \<le> b" unfolding b(1) using m2 by (rule mult_right_mono) simp
    finally show ?thesis by simp
  qed
qed

lemma double_div_ge_one:
  assumes "0 < b" "b \<le> a"
  shows "double_one \<le> double_div a b"
proof -
  have "b * 2 ^ 117 \<le> a * 2 ^ 117" using assms(2) by (rule mult_right_mono) simp
  then have "2 ^ 117 \<le> a * 2 ^ 117 div b"
    using assms(1) by (simp add: less_eq_div_iff_mult_less_eq mult.commute)
  then show ?thesis unfolding double_div_def double_one_def by (rule round53_lower)
qed

lemma double_div_less_one:
  assumes "is_double a" "is_double b" "a < b"
  shows "double_div a b < double_one"
proof -
  let ?q = "a * 2 ^ 117 div b" and ?s = "a * 2 ^ 117 mod b \<noteq> 0"
  define T :: nat where "T = (2 ^ 53 - 1) * 2 ^ 64"
  have T: "T + 2 ^ 64 = 2 ^ 117" by (simp add: T_def)
  have "b * 2 ^ 64 \<le> 2 ^ 53 * (b - a) * 2 ^ 64"
    using double_gap [OF assms] by (rule mult_right_mono) simp
  also have "\<dots> = b * 2 ^ 117 - a * 2 ^ 117" by (simp add: diff_mult_distrib)
  finally have "a * 2 ^ 117 + b * 2 ^ 64 \<le> b * 2 ^ 117"
    using assms(3) by simp
  also have "b * 2 ^ 117 = b * T + b * 2 ^ 64" unfolding T [symmetric] by (simp add: distrib_left)
  finally have le: "a * 2 ^ 117 \<le> b * T" by simp
  have qT: "?q \<le> T"
    using div_le_mono [OF le, of b] assms(3) by simp
  have exactT: "?q = T \<Longrightarrow> \<not> ?s"
    using le div_mult_mod_eq [of "a * 2 ^ 117" b] by (simp add: mult.commute)
  have "?q < 2 ^ 117" using qT T by simp
  then have L: "bit_length ?q \<le> 117" by (rule bit_length_less)
  show ?thesis
  proof (cases "bit_length ?q = 117")
    case False
    have "round53 ?q ?s \<le> 2 ^ bit_length ?q" using bit_length_upper by (rule round53_upper)
    also have "\<dots> \<le> 2 ^ 116" using False L by (intro power_increasing) auto
    finally show ?thesis by (simp add: double_div_def double_one_def)
  next
    case True
    show ?thesis
    proof (cases "?q = T")
      case eq: True
      have "T mod 2 ^ 64 = 0" "T div 2 ^ 64 = 2 ^ 53 - 1" unfolding T_def by simp_all
      then have "round53 ?q ?s = T"
        using True eq by (simp add: round53_def Let_def T_def)
      then show ?thesis using T by (simp add: double_div_def double_one_def)
    next
      case False
      then have "?q < (2 ^ 53 - 1) * 2 ^ 64" using qT unfolding T_def by simp
      then have m: "?q div 2 ^ 64 < 2 ^ 53 - 1" by (rule less_mult_imp_div_less)
      have "round53 ?q ?s \<le> (?q div 2 ^ 64 + 1) * 2 ^ 64"
        using True by (cases rule: round53_cases [of ?q ?s]) simp_all
      also have "\<dots> \<le> (2 ^ 53 - 1) * 2 ^ 64" using m by (intro mult_right_mono) auto
      finally show ?thesis using T by (simp add: double_div_def double_one_def T_def)
    qed
  qed
qed

subsection \<open>Properties\<close>

lemma u64_to_double_pos: "0 < n \<Longrightarrow> 0 < u64_to_double n"
  using round53_lower [of 0 "unat n" False] by (simp add: u64_to_double_def word_less_nat_alt)

lemma u64_to_double_mono: "a \<le> b \<Longrightarrow> u64_to_double a \<le> u64_to_double b"
  by (simp add: u64_to_double_def word_le_nat_alt round53_mono)

lemma u64_to_double_exact: "unat n < 2 ^ 53 \<Longrightarrow> u64_to_double n = unat n"
  using bit_length_less [of "unat n" 53] by (simp add: u64_to_double_def round53_def Let_def)

lemma reserve_check_exact:
  "holds (verify_reserve_ratio_safety tokens_issued reserve_value) =
     (\<not> (reserve_value < tokens_issued
        \<and> u64_to_double reserve_value = u64_to_double tokens_issued))
    \<and> \<not> holds (verify_reserve_ratio_safety (2 ^ 53 + 1) (2 ^ 53))"
proof -
  have main: "holds (verify_reserve_ratio_safety t r) = (\<not> (r < t \<and> u64_to_double r = u64_to_double t))"
    for t r :: u64
  proof (cases "0 < t")
    case False
    then have "t = 0" by (simp add: word_greater_zero_iff)
    then show ?thesis by (simp add: verify_reserve_ratio_safety_def)
  next
    case True
    note pos = u64_to_double_pos [OF True]
    have dbl: "is_double (u64_to_double n)" for n
      unfolding u64_to_double_def by (rule round53_is_double)
    have ge: "double_one \<le> reserve_ratio r t" if "u64_to_double t \<le> u64_to_double r"
      unfolding reserve_ratio_def using pos that by (rule double_div_ge_one)
    have less: "reserve_ratio r t < double_one" if "u64_to_double r < u64_to_double t"
      unfolding reserve_ratio_def using dbl dbl that by (rule double_div_less_one)
    show ?thesis
    proof (cases "r < t")
      case False
      then have "t \<le> r" by (simp add: not_less)
      then show ?thesis
        using True False ge u64_to_double_mono [of t r] by (simp add: verify_reserve_ratio_safety_def Let_def holds_append)
    next
      case lt: True
      then have "u64_to_double r \<le> u64_to_double t" by (simp add: u64_to_double_mono)
      then consider "u64_to_double r < u64_to_double t" | "u64_to_double r = u64_to_double t" by linarith
      then show ?thesis
        using True lt ge less by cases (auto simp: verify_reserve_ratio_safety_def Let_def holds_append)
    qed
  qed
  have "bit_length (2 ^ 53) = 54" "bit_length (2 ^ 53 + 1) = 54"
    by (simp_all add: bit_length.simps)
  then have "u64_to_double (2 ^ 53) = u64_to_double (2 ^ 53 + 1)"
    by (simp add: u64_to_double_def round53_def Let_def)
  moreover have "(2 ^ 53 :: u64) < 2 ^ 53 + 1" by simp
  ultimately show ?thesis using main by simp
qed

text \<open>
  C36. The reserve check is exact up to the conversions: the harness's assertions hold for all
  amounts except when the reserve is smaller than the tokens and both are the same
  \<open>double\<close>; then the ratio is 1.0 and an under-collateralised reserve is not reported.
  \<open>2 ^ 53\<close> against \<open>2 ^ 53 + 1\<close> is such a pair, so the assertion of the harness is not valid.
\<close>

theorem reserve_ratio_exact:
  "holds (verify_reserve_ratio_safety tokens_issued reserve_value) =
     (\<not> (reserve_value < tokens_issued
        \<and> u64_to_double reserve_value = u64_to_double tokens_issued))
    \<and> \<not> holds (verify_reserve_ratio_safety (2 ^ 53 + 1) (2 ^ 53))"
  by (rule reserve_check_exact)

text \<open>Below \<open>2 ^ 53\<close> the check is exact.\<close>

lemma reserve_ratio_small:
  assumes "unat tokens_issued < 2 ^ 53" "unat reserve_value < 2 ^ 53"
  shows "\<not> (reserve_value < tokens_issued \<and> u64_to_double reserve_value = u64_to_double tokens_issued)"
  using assms by (simp add: u64_to_double_exact word_less_nat_alt)

end
