(* ===== verification/Capacities.thy ===== *)
theory Capacities
  imports Lifecycles Limits
begin

text \<open>
  The remaining harnesses of the compliance modules: counts against the array sizes of
  \<open>verification/cbmc/cbmc_mica_dora.c\<close>, \<open>cbmc_did_vc.c\<close>, \<open>cbmc_disaster_recovery.c\<close>,
  \<open>cbmc_siem_export.c\<close> and \<open>cbmc_confidential_contracts.c\<close>, enum ranges and buffer sums. A
  nondeterministic input is a parameter, and a harness is the list of its checks in order.
\<close>

named_theorems sizes \<open>the constants of the modules\<close>

subsection \<open>Regulatory compliance\<close>

definition MICA_MAX_PROVIDERS :: u64 where [sizes]: "MICA_MAX_PROVIDERS = 64"
definition MICA_MAX_RESERVES :: u64 where [sizes]: "MICA_MAX_RESERVES = 128"
definition MICA_MAX_WHITEPAPERS :: u64 where [sizes]: "MICA_MAX_WHITEPAPERS = 64"
definition MICA_MAX_TX_ALERTS :: u64 where [sizes]: "MICA_MAX_TX_ALERTS = 512"
definition DORA_MAX_INCIDENTS :: u64 where [sizes]: "DORA_MAX_INCIDENTS = 256"
definition DORA_MAX_TESTS :: u64 where [sizes]: "DORA_MAX_TESTS = 128"
definition DORA_MAX_THIRD_PARTIES :: u64 where [sizes]: "DORA_MAX_THIRD_PARTIES = 64"

definition room_for_one :: "u64 \<Rightarrow> u64 \<Rightarrow> harness" where
  "room_for_one count limit = whenever (count < limit) [Assert (count + 1 \<le> limit)]"

definition verify_array_capacity ::
  "u64 \<Rightarrow> u64 \<Rightarrow> u64 \<Rightarrow> u64 \<Rightarrow> u64 \<Rightarrow> u64 \<Rightarrow> u64 \<Rightarrow> harness" where
  "verify_array_capacity provider_count reserve_count wp_count alert_count incident_count
       test_count tp_count =
     [Assume (provider_count \<le> MICA_MAX_PROVIDERS), Assume (reserve_count \<le> MICA_MAX_RESERVES),
      Assume (wp_count \<le> MICA_MAX_WHITEPAPERS), Assume (alert_count \<le> MICA_MAX_TX_ALERTS),
      Assume (incident_count \<le> DORA_MAX_INCIDENTS), Assume (test_count \<le> DORA_MAX_TESTS),
      Assume (tp_count \<le> DORA_MAX_THIRD_PARTIES)] @
     room_for_one provider_count MICA_MAX_PROVIDERS @ room_for_one reserve_count MICA_MAX_RESERVES @
     room_for_one wp_count MICA_MAX_WHITEPAPERS @ room_for_one alert_count MICA_MAX_TX_ALERTS @
     room_for_one incident_count DORA_MAX_INCIDENTS @ room_for_one test_count DORA_MAX_TESTS @
     room_for_one tp_count DORA_MAX_THIRD_PARTIES"

text \<open>A CASP status in C is an unsigned integer; \<open>next\<close> is assigned and checked in each block.\<close>

definition CASP_STATUS_COUNT :: u32 where [sizes]: "CASP_STATUS_COUNT = 4"

fun CaspStatus_value :: "CaspStatus \<Rightarrow> u32" where
  "CaspStatus_value CASP_STATUS_PENDING = 0"
| "CaspStatus_value CASP_STATUS_AUTHORIZED = 1"
| "CaspStatus_value CASP_STATUS_SUSPENDED = 2"
| "CaspStatus_value CASP_STATUS_REVOKED = 3"

definition verify_casp_status_range :: "u32 \<Rightarrow> harness" where
  "verify_casp_status_range status =
     [Assume (status \<ge> 0 \<and> status < CASP_STATUS_COUNT)] @
     whenever (status = CaspStatus_value CASP_STATUS_PENDING)
       (let nxt = CaspStatus_value CASP_STATUS_AUTHORIZED in
        [Assert (nxt \<ge> 0 \<and> nxt < CASP_STATUS_COUNT)]) @
     whenever (status = CaspStatus_value CASP_STATUS_AUTHORIZED)
       (let nxt = CaspStatus_value CASP_STATUS_SUSPENDED in
        [Assert (nxt \<ge> 0 \<and> nxt < CASP_STATUS_COUNT)]) @
     whenever (status = CaspStatus_value CASP_STATUS_AUTHORIZED
         \<or> status = CaspStatus_value CASP_STATUS_SUSPENDED)
       (let nxt = CaspStatus_value CASP_STATUS_REVOKED in
        [Assert (nxt \<ge> 0 \<and> nxt < CASP_STATUS_COUNT)]) @
     whenever (status = CaspStatus_value CASP_STATUS_REVOKED)
       (let nxt = status in [Assert (nxt = CaspStatus_value CASP_STATUS_REVOKED)])"

definition verify_ict_forward_only :: "u32 \<Rightarrow> u32 \<Rightarrow> harness" where
  "verify_ict_forward_only current proposed =
     [Assume (current \<ge> 0 \<and> current < ICT_STATUS_COUNT),
      Assume (proposed \<ge> 0 \<and> proposed < ICT_STATUS_COUNT)] @
     (let accepted = ict_accepted current proposed in
      whenever accepted [Assert (proposed > current \<or> proposed = ICT_STATUS_RESOLVED)])"

subsection \<open>Identity and credentials\<close>

definition DID_MAX_DIDS :: u64 where [sizes]: "DID_MAX_DIDS = 128"
definition DID_MAX_VCS :: u64 where [sizes]: "DID_MAX_VCS = 256"
definition DID_MAX_SERVICES :: u64 where [sizes]: "DID_MAX_SERVICES = 8"
definition DID_MAX_VMS :: u64 where [sizes]: "DID_MAX_VMS = 4"
definition DID_MAX_CLAIMS :: u64 where [sizes]: "DID_MAX_CLAIMS = 16"
definition DID_MAX_VCS_IN_VP :: u64 where [sizes]: "DID_MAX_VCS_IN_VP = 8"
definition DID_CLAIM_KEY_SIZE :: u64 where [sizes]: "DID_CLAIM_KEY_SIZE = 64"
definition DID_CLAIM_VAL_SIZE :: u64 where [sizes]: "DID_CLAIM_VAL_SIZE = 256"
definition DID_SIG_SIZE :: u64 where [sizes]: "DID_SIG_SIZE = 4672"
definition DID_PK_SIZE :: u64 where [sizes]: "DID_PK_SIZE = 2592"
definition DID_STATUS_COUNT :: u32 where [sizes]: "DID_STATUS_COUNT = 2"
definition DID_VM_COUNT :: u32 where [sizes]: "DID_VM_COUNT = 2"
definition DID_REL_COUNT :: u32 where [sizes]: "DID_REL_COUNT = 4"
definition VC_TYPE_COUNT :: u32 where [sizes]: "VC_TYPE_COUNT = 5"

definition harness_claim_bounds :: "u32 \<Rightarrow> harness" where
  "harness_claim_bounds idx =
     (let claim_size = DID_CLAIM_KEY_SIZE + DID_CLAIM_VAL_SIZE in
      [Assert (claim_size = 320), Assert (claim_size < 4096)] @
      (let total_claims = DID_MAX_CLAIMS * claim_size in
       [Assert (total_claims = 5120), Assume (ucast idx < DID_MAX_CLAIMS), Assert (idx < 16)]))"

definition harness_pqc_sig_bounds :: harness where
  "harness_pqc_sig_bounds =
     (let mldsa87_max = 4627; mldsa87_pk = 2592 in
      [Assert (DID_SIG_SIZE \<ge> mldsa87_max), Assert (DID_PK_SIZE \<ge> mldsa87_pk),
       Assert (50 \<le> DID_URI_SIZE)])"

definition harness_vc_status_range :: "u32 \<Rightarrow> u32 \<Rightarrow> u32 \<Rightarrow> u32 \<Rightarrow> u32 \<Rightarrow> harness" where
  "harness_vc_status_range status vc_type did_status vm_type rel =
     [Assume (status < VC_STATUS_COUNT), Assert (status \<le> 3),
      Assume (vc_type < VC_TYPE_COUNT), Assert (vc_type \<le> 4),
      Assume (did_status < DID_STATUS_COUNT), Assert (did_status \<le> 1),
      Assume (vm_type < DID_VM_COUNT), Assert (vm_type \<le> 1),
      Assume (rel < DID_REL_COUNT), Assert (rel \<le> 3)]"

definition did_harness_array_capacity :: "u64 \<Rightarrow> u64 \<Rightarrow> harness" where
  "did_harness_array_capacity did_idx vc_idx =
     [Assert (DID_MAX_DIDS \<le> 128), Assert (DID_MAX_DIDS > 0),
      Assert (DID_MAX_VCS \<le> 256), Assert (DID_MAX_VCS > 0),
      Assert (DID_MAX_SERVICES \<le> 8),
      Assert (DID_MAX_VMS \<le> 4), Assert (DID_MAX_VMS \<ge> 1),
      Assert (DID_MAX_VCS_IN_VP \<le> 8), Assert (DID_MAX_VCS_IN_VP \<ge> 1),
      Assert (DID_MAX_CLAIMS \<le> 16),
      Assume (did_idx < DID_MAX_DIDS), Assert (did_idx < 128),
      Assume (vc_idx < DID_MAX_VCS), Assert (vc_idx < 256)]"

subsection \<open>Disaster recovery\<close>

definition DR_MAX_RETENTION_RULES :: u64 where [sizes]: "DR_MAX_RETENTION_RULES = 8"
definition DR_SNAPSHOT_ID_SIZE :: u64 where [sizes]: "DR_SNAPSHOT_ID_SIZE = 33"
definition DR_REGION_NAME_SIZE :: u64 where [sizes]: "DR_REGION_NAME_SIZE = 64"
definition DR_PATH_SIZE :: u64 where [sizes]: "DR_PATH_SIZE = 256"
definition DR_HASH_SIZE :: u64 where [sizes]: "DR_HASH_SIZE = 32"
definition DR_DESCRIPTION_SIZE :: u64 where [sizes]: "DR_DESCRIPTION_SIZE = 128"
definition DR_SNAP_COUNT :: u32 where [sizes]: "DR_SNAP_COUNT = 3"
definition DR_REGION_COUNT :: u32 where [sizes]: "DR_REGION_COUNT = 3"
definition DR_RETAIN_COUNT :: u32 where [sizes]: "DR_RETAIN_COUNT = 4"

definition harness_snapshot_buffers :: harness where
  "harness_snapshot_buffers =
     [Assert (32 + 1 \<le> DR_SNAPSHOT_ID_SIZE), Assert (DR_DESCRIPTION_SIZE \<ge> 128),
      Assert (DR_REGION_NAME_SIZE \<ge> 64), Assert (DR_PATH_SIZE \<ge> 256), Assert (DR_HASH_SIZE = 32)]"

definition dr_harness_enum_ranges :: "u32 \<Rightarrow> u32 \<Rightarrow> u32 \<Rightarrow> u32 \<Rightarrow> harness" where
  "dr_harness_enum_ranges snap_type status health retain =
     [Assume (snap_type < DR_SNAP_COUNT), Assert (snap_type \<le> 2),
      Assume (status < DR_STATUS_COUNT), Assert (status \<le> 6),
      Assume (health < DR_REGION_COUNT), Assert (health \<le> 2),
      Assume (retain < DR_RETAIN_COUNT), Assert (retain \<le> 3)]"

definition dr_harness_capacity :: "u64 \<Rightarrow> u64 \<Rightarrow> harness" where
  "dr_harness_capacity snap_idx reg_idx =
     [Assert (DR_MAX_SNAPSHOTS = 256), Assert (DR_MAX_SNAPSHOTS > 0),
      Assert (DR_MAX_REGIONS = 8), Assert (DR_MAX_REGIONS \<ge> 2),
      Assert (DR_MAX_RETENTION_RULES = 8), Assert (DR_MAX_RETENTION_RULES > 0),
      Assume (snap_idx < DR_MAX_SNAPSHOTS), Assert (snap_idx < 256),
      Assume (reg_idx < ucast DR_MAX_REGIONS), Assert (reg_idx < 8),
      Assert (DR_MAX_REGIONS \<le> 32)]"

subsection \<open>Event export\<close>

definition SIEM_MAX_EVENTS :: u64 where [sizes]: "SIEM_MAX_EVENTS = 4096"
definition SIEM_MAX_FILTERS :: u64 where [sizes]: "SIEM_MAX_FILTERS = 16"
definition SIEM_EVENT_MSG_SIZE :: u64 where [sizes]: "SIEM_EVENT_MSG_SIZE = 512"
definition SIEM_SOURCE_SIZE :: u64 where [sizes]: "SIEM_SOURCE_SIZE = 64"
definition SIEM_ACTOR_SIZE :: u64 where [sizes]: "SIEM_ACTOR_SIZE = 64"
definition SIEM_DETAIL_SIZE :: u64 where [sizes]: "SIEM_DETAIL_SIZE = 256"
definition SIEM_HASH_SIZE :: u64 where [sizes]: "SIEM_HASH_SIZE = 32"
definition SIEM_ID_SIZE :: u64 where [sizes]: "SIEM_ID_SIZE = 33"
definition SIEM_EXPORT_BUF_SIZE :: u64 where [sizes]: "SIEM_EXPORT_BUF_SIZE = 65536"
definition SIEM_FMT_COUNT :: u32 where [sizes]: "SIEM_FMT_COUNT = 3"

definition harness_event_buffers :: harness where
  "harness_event_buffers =
     [Assert (32 + 1 \<le> SIEM_ID_SIZE), Assert (SIEM_EVENT_MSG_SIZE \<ge> 512),
      Assert (SIEM_SOURCE_SIZE \<ge> 64), Assert (SIEM_ACTOR_SIZE \<ge> 64),
      Assert (SIEM_DETAIL_SIZE \<ge> 256), Assert (SIEM_EXPORT_BUF_SIZE \<ge> 65536)]"

definition harness_hash_chain :: harness where
  "harness_hash_chain =
     [Assert (SIEM_HASH_SIZE = 32)] @
     (let chain_input = SIEM_HASH_SIZE + SIEM_HASH_SIZE in
      [Assert (chain_input = 64)] @
      (let event_input = 8 + 8 + 4 + 4 + SIEM_EVENT_MSG_SIZE + SIEM_SOURCE_SIZE in
       [Assert (event_input \<le> 1024)]))"

definition siem_harness_enum_ranges :: "u32 \<Rightarrow> u32 \<Rightarrow> u32 \<Rightarrow> harness" where
  "siem_harness_enum_ranges sev cat fmt =
     [Assume (sev < SIEM_SEV_COUNT), Assert (sev \<le> 7),
      Assume (cat < SIEM_CAT_COUNT), Assert (cat \<le> 9),
      Assume (fmt < SIEM_FMT_COUNT), Assert (fmt \<le> 2),
      Assert (SIEM_CAT_COUNT \<le> 32)]"

text \<open>The sequence numbers are \<open>uint64_t\<close> initialised from the 32 bit \<open>nondet_uint()\<close>.\<close>

definition siem_harness_capacity :: "u64 \<Rightarrow> u32 \<Rightarrow> u32 \<Rightarrow> harness" where
  "siem_harness_capacity idx n1 n2 =
     [Assert (SIEM_MAX_EVENTS = 4096), Assert (SIEM_MAX_EVENTS > 0),
      Assume (idx < SIEM_MAX_EVENTS), Assert (idx < 4096)] @
     (let seq1 = (ucast n1 :: u64); seq2 = (ucast n2 :: u64) in
      [Assume (seq2 = seq1 + 1), Assert (seq2 > seq1), Assert (SIEM_MAX_FILTERS = 16)])"

subsection \<open>Confidential contracts\<close>

definition CC_MAX_CONTRACTS :: u64 where [sizes]: "CC_MAX_CONTRACTS = 32"
definition CC_MAX_ACCESSORS :: u64 where [sizes]: "CC_MAX_ACCESSORS = 16"
definition CC_MAX_INVOCATIONS :: u64 where [sizes]: "CC_MAX_INVOCATIONS = 256"
definition CC_MAX_EVENTS :: u64 where [sizes]: "CC_MAX_EVENTS = 128"
definition CC_MAX_DISCLOSURES :: u64 where [sizes]: "CC_MAX_DISCLOSURES = 32"
definition CC_MAX_IO_SIZE :: u64 where [sizes]: "CC_MAX_IO_SIZE = 512"
definition CC_MAX_EVENT_DATA :: u64 where [sizes]: "CC_MAX_EVENT_DATA = 256"
definition CC_ACCESS_COUNT :: u32 where [sizes]: "CC_ACCESS_COUNT = 5"
definition CC_MODE_COUNT :: u32 where [sizes]: "CC_MODE_COUNT = 4"

definition harness_access_level_range :: "u32 \<Rightarrow> harness" where
  "harness_access_level_range level =
     [Assume (level < CC_ACCESS_COUNT), Assert (level \<le> 4),
      Assert ((0 :: int) < 1), Assert ((1 :: int) < 2), Assert ((2 :: int) < 3)]"

definition harness_privacy_mode_range :: "u32 \<Rightarrow> u32 \<Rightarrow> u32 \<Rightarrow> harness" where
  "harness_privacy_mode_range mode m1 m2 =
     [Assume (mode < CC_MODE_COUNT), Assert (mode \<le> 3),
      Assume (m1 < CC_MODE_COUNT \<and> m2 < CC_MODE_COUNT), Assume (m1 < m2), Assert (m1 \<noteq> m2)]"

definition cc_harness_array_capacity ::
  "u64 \<Rightarrow> u64 \<Rightarrow> u64 \<Rightarrow> u64 \<Rightarrow> u64 \<Rightarrow> u64 \<Rightarrow> u64 \<Rightarrow> harness" where
  "cc_harness_array_capacity contract_count accessor_count invocation_count event_count
       disclosure_count io_size event_data =
     [Assume (contract_count \<le> CC_MAX_CONTRACTS), Assert (contract_count \<le> 32),
      Assume (accessor_count \<le> CC_MAX_ACCESSORS), Assert (accessor_count \<le> 16),
      Assume (invocation_count \<le> CC_MAX_INVOCATIONS), Assert (invocation_count \<le> 256),
      Assume (event_count \<le> CC_MAX_EVENTS), Assert (event_count \<le> 128),
      Assume (disclosure_count \<le> CC_MAX_DISCLOSURES), Assert (disclosure_count \<le> 32),
      Assume (io_size \<le> CC_MAX_IO_SIZE), Assert (io_size \<le> 512),
      Assume (event_data \<le> CC_MAX_EVENT_DATA), Assert (event_data \<le> 256)]"

subsection \<open>Every harness holds\<close>

lemma below_count: "(n :: u32) < m \<Longrightarrow> 0 < m \<Longrightarrow> n \<le> m - 1"
  by (simp add: word_less_nat_alt word_le_nat_alt unat_minus_one unat_gt_0)

lemma unat_ucast_u64: "unat (ucast (n :: u32) :: u64) = unat n"
proof -
  have "unat n < 2 ^ 32" using unsigned_less [of n] by simp
  then show ?thesis by (simp add: unsigned_ucast_eq take_bit_nat_eq_self)
qed

lemma room_for_one_always: "holds (room_for_one count limit)" "passes (room_for_one count limit)"
  by (simp_all add: room_for_one_def inc_le)

text \<open>
  One status at a time: every block of the CASP harness is a transition of the machine over
  the enum, and the machine has no other.
\<close>

lemma casp_blocks:
  "casp_step s t \<longleftrightarrow>
     (CaspStatus_value s = 0 \<and> CaspStatus_value t = 1)
     \<or> (CaspStatus_value s = 1 \<and> CaspStatus_value t = 2)
     \<or> ((CaspStatus_value s = 1 \<or> CaspStatus_value s = 2) \<and> CaspStatus_value t = 3)
     \<or> (CaspStatus_value s = 3 \<and> CaspStatus_value t = 3)"
  by (cases s; cases t) (auto elim: casp_step_cases intro: casp_step.intros)

lemma compliance_harnesses_hold:
  "holds (verify_array_capacity c1 c2 c3 c4 c5 c6 c7)" "holds (verify_casp_status_range status)"
  "holds (verify_ict_forward_only current proposed)"
  by (simp_all add: verify_array_capacity_def room_for_one_always verify_casp_status_range_def
      verify_ict_forward_only_def ict_accepted_def CASP_STATUS_COUNT_def not_le holds_append)

lemma did_harnesses_hold:
  "holds (harness_claim_bounds idx)" "holds harness_pqc_sig_bounds"
  "holds (harness_vc_status_range s v d m r)" "holds (did_harness_array_capacity i j)"
  using below_count [of s 4] below_count [of v 5] below_count [of d 2] below_count [of m 2]
    below_count [of r 4]
  by (simp_all add: harness_claim_bounds_def harness_pqc_sig_bounds_def harness_vc_status_range_def
      did_harness_array_capacity_def sizes VC_STATUS_COUNT_def DID_URI_SIZE_def word_less_nat_alt
      unat_ucast_u64)

lemma dr_harnesses_hold:
  "holds harness_snapshot_buffers" "holds (dr_harness_enum_ranges t s h r)"
  "holds (dr_harness_capacity i j)"
  using below_count [of t 3] below_count [of s 7] below_count [of h 3] below_count [of r 4]
  by (simp_all add: harness_snapshot_buffers_def dr_harness_enum_ranges_def dr_harness_capacity_def
      sizes DR_STATUS_COUNT_def DR_MAX_SNAPSHOTS_def DR_MAX_REGIONS_def)

lemma contract_harnesses_hold:
  "holds (harness_access_level_range l)" "holds (harness_privacy_mode_range m m1 m2)"
  "holds (cc_harness_array_capacity c1 c2 c3 c4 c5 c6 c7)"
  using below_count [of l 5] below_count [of m 4]
  by (auto simp: harness_access_level_range_def harness_privacy_mode_range_def
      cc_harness_array_capacity_def sizes)

lemma siem_harnesses_hold:
  "holds harness_event_buffers" "holds harness_hash_chain" "holds (siem_harness_enum_ranges s c f)"
  using below_count [of s 8] below_count [of c 10] below_count [of f 3]
  by (simp_all add: harness_event_buffers_def harness_hash_chain_def siem_harness_enum_ranges_def
      sizes SIEM_SEV_COUNT_def SIEM_CAT_COUNT_def)

text \<open>
  The sequence harness holds because its inputs have 32 bits; on the whole width of the
  counter the assertion holds for every value but the last.
\<close>

lemma siem_sequence:
  "holds (siem_harness_capacity idx n1 n2)" "(seq1 + 1 > seq1) = (seq1 \<noteq> (UINT64_MAX :: u64))"
proof -
  show wrap: "(seq1 + 1 > seq1) = (seq1 \<noteq> (UINT64_MAX :: u64))" for seq1
  proof (cases "seq1 = UINT64_MAX")
    case False
    then have "unat seq1 \<noteq> 18446744073709551615" using unat_UINT64_MAX by (metis word_unat_eq_iff)
    moreover have "unat seq1 < 18446744073709551616" using unsigned_less [of seq1] by simp
    ultimately have "unat (seq1 + 1) = unat seq1 + 1" by (simp add: unat_word_ariths)
    with False show ?thesis by (simp add: word_less_nat_alt)
  qed simp
  have "(ucast n1 :: u64) \<noteq> UINT64_MAX"
  proof
    assume "(ucast n1 :: u64) = UINT64_MAX"
    then have "unat n1 = 18446744073709551615" using unat_ucast_u64 [of n1] unat_UINT64_MAX by metis
    moreover have "unat n1 < 2 ^ 32" using unsigned_less [of n1] by simp
    ultimately show False by simp
  qed
  then show "holds (siem_harness_capacity idx n1 n2)"
    using wrap [of "ucast n1"] by (simp add: siem_harness_capacity_def sizes Let_def)
qed

end
