(* ===== verification/EvaHarness.thy ===== *)
theory EvaHarness
  imports Authenticity Utilities WalRecord
begin

text \<open>
  The harness \<open>verification/framac/eva_pqc_migration.c\<close>: the stubs it gives to the analyser for
  libcrypto and for the functions of this repository, its copies of the types of the migration
  engine, and \<open>main\<close> with the engine as a parameter (\<open>pqc_migration.c\<close> is not in the
  repository). Objects the stubs allocate are blocks of the heap of \<open>Runtime\<close>; a pointer
  parameter the stubs write through is the bytes behind it, \<open>None\<close> for NULL. The properties say
  what an analysis under these stubs can and cannot show about the code.
\<close>

subsection \<open>Stubs of libcrypto\<close>

definition eva_memset :: "bytes \<Rightarrow> byte \<Rightarrow> nat \<Rightarrow> bytes option" where
  "eva_memset buf b n = (if n \<le> length buf then Some (put_slice 0 (replicate n b) buf) else None)"

definition eva_free :: "addr option \<Rightarrow> 'k world \<Rightarrow> 'k world option" where
  "eva_free p w = (case p of None \<Rightarrow> Some w | Some a \<Rightarrow> free_block a w)"

definition stub_pkey :: addr where
  "stub_pkey = 0x1000"

definition eva_EVP_MD_CTX_new :: "'k evp \<Rightarrow> 'k world \<Rightarrow> addr option \<times> 'k world" where
  "eva_EVP_MD_CTX_new E w = malloc E 64 w"

definition eva_EVP_MD_CTX_free :: "addr option \<Rightarrow> 'k world \<Rightarrow> 'k world option" where
  "eva_EVP_MD_CTX_free p w = eva_free p w"

definition eva_EVP_sha256 :: addr where
  "eva_EVP_sha256 = 0x2000"

definition eva_EVP_DigestSignInit :: "addr option \<Rightarrow> 'k \<Rightarrow> int" where
  "eva_EVP_DigestSignInit ctx pkey = 1"

definition eva_EVP_DigestSign ::
  "bytes option \<Rightarrow> u64 option \<Rightarrow> bytes \<Rightarrow> (int \<times> bytes option \<times> u64 option) option" where
  "eva_EVP_DigestSign sigret siglen tbs =
     (case (sigret, siglen) of
        (Some buf, Some n) \<Rightarrow>
          if n > 0
          then do {
            buf \<leftarrow> eva_memset buf 0xAA (unat (if n > 72 then 72 else n));
            Some (1, Some buf, Some 72) }
          else Some (1, sigret, Some 72)
      | (None, Some n) \<Rightarrow> Some (1, sigret, Some 72)
      | (_, None) \<Rightarrow> Some (1, sigret, None))"

definition eva_EVP_DigestVerifyInit :: "addr option \<Rightarrow> 'k \<Rightarrow> int" where
  "eva_EVP_DigestVerifyInit ctx pkey = 1"

definition eva_EVP_DigestVerify :: "addr option \<Rightarrow> bytes \<Rightarrow> bytes \<Rightarrow> int" where
  "eva_EVP_DigestVerify ctx sigret tbs = 1"

definition eva_EVP_PKEY_CTX_new_from_name :: "'k evp \<Rightarrow> 'k world \<Rightarrow> addr option \<times> 'k world" where
  "eva_EVP_PKEY_CTX_new_from_name E w = malloc E 64 w"

definition eva_EVP_PKEY_fromdata_init :: "addr option \<Rightarrow> int" where
  "eva_EVP_PKEY_fromdata_init ctx = 1"

text \<open>\<open>*ppkey = stub_pkey\<close>: the result and the assigned pointer.\<close>

definition eva_EVP_PKEY_fromdata :: "addr option \<Rightarrow> int \<times> addr" where
  "eva_EVP_PKEY_fromdata ctx = (1, stub_pkey)"

definition eva_EVP_PKEY_CTX_free :: "addr option \<Rightarrow> 'k world \<Rightarrow> 'k world option" where
  "eva_EVP_PKEY_CTX_free p w = eva_free p w"

definition eva_EVP_PKEY_free :: "addr option \<Rightarrow> 'k world \<Rightarrow> 'k world" where
  "eva_EVP_PKEY_free pkey w = w"

definition eva_EVP_PKEY_get_raw_public_key ::
  "bytes option \<Rightarrow> u64 option \<Rightarrow> (int \<times> bytes option \<times> u64 option) option" where
  "eva_EVP_PKEY_get_raw_public_key pub len =
     (case (pub, len) of
        (Some buf, Some n) \<Rightarrow> do {
          buf \<leftarrow> eva_memset buf 0xBB (unat (if n > 32 then 32 else n));
          Some (1, Some buf, Some 32) }
      | (None, Some n) \<Rightarrow> Some (1, pub, Some 32)
      | (_, None) \<Rightarrow> Some (1, pub, None))"

definition eva_OSSL_PARAM_BLD_new :: "'k evp \<Rightarrow> 'k world \<Rightarrow> addr option \<times> 'k world" where
  "eva_OSSL_PARAM_BLD_new E w = malloc E 64 w"

definition eva_OSSL_PARAM_BLD_free :: "addr option \<Rightarrow> 'k world \<Rightarrow> 'k world option" where
  "eva_OSSL_PARAM_BLD_free p w = eva_free p w"

definition eva_OSSL_PARAM_BLD_push_utf8_string :: "addr option \<Rightarrow> string \<Rightarrow> int" where
  "eva_OSSL_PARAM_BLD_push_utf8_string bld key = 1"

definition eva_OSSL_PARAM_BLD_push_BN :: "addr option \<Rightarrow> string \<Rightarrow> int" where
  "eva_OSSL_PARAM_BLD_push_BN bld key = 1"

definition eva_OSSL_PARAM_BLD_push_octet_string :: "addr option \<Rightarrow> string \<Rightarrow> int" where
  "eva_OSSL_PARAM_BLD_push_octet_string bld key = 1"

definition eva_OSSL_PARAM_BLD_to_param :: "'k evp \<Rightarrow> 'k world \<Rightarrow> addr option \<times> 'k world" where
  "eva_OSSL_PARAM_BLD_to_param E w = malloc E 64 w"

definition eva_OSSL_PARAM_free :: "addr option \<Rightarrow> 'k world \<Rightarrow> 'k world option" where
  "eva_OSSL_PARAM_free p w = eva_free p w"

definition eva_BN_bin2bn :: "'k evp \<Rightarrow> 'k world \<Rightarrow> addr option \<times> 'k world" where
  "eva_BN_bin2bn E w = malloc E 32 w"

definition eva_BN_free :: "addr option \<Rightarrow> 'k world \<Rightarrow> 'k world option" where
  "eva_BN_free p w = eva_free p w"

definition eva_BN_CTX_new :: "'k evp \<Rightarrow> 'k world \<Rightarrow> addr option \<times> 'k world" where
  "eva_BN_CTX_new E w = malloc E 32 w"

definition eva_BN_CTX_free :: "addr option \<Rightarrow> 'k world \<Rightarrow> 'k world option" where
  "eva_BN_CTX_free p w = eva_free p w"

definition eva_EC_GROUP_new_by_curve_name :: "'k evp \<Rightarrow> 'k world \<Rightarrow> addr option \<times> 'k world" where
  "eva_EC_GROUP_new_by_curve_name E w = malloc E 64 w"

definition eva_EC_GROUP_free :: "addr option \<Rightarrow> 'k world \<Rightarrow> 'k world option" where
  "eva_EC_GROUP_free p w = eva_free p w"

definition eva_EC_POINT_new :: "'k evp \<Rightarrow> 'k world \<Rightarrow> addr option \<times> 'k world" where
  "eva_EC_POINT_new E w = malloc E 64 w"

definition eva_EC_POINT_free :: "addr option \<Rightarrow> 'k world \<Rightarrow> 'k world option" where
  "eva_EC_POINT_free p w = eva_free p w"

definition eva_EC_POINT_mul :: "addr option \<Rightarrow> addr option \<Rightarrow> int" where
  "eva_EC_POINT_mul grp r = 1"

definition eva_EC_POINT_point2oct :: "bytes option \<Rightarrow> u64 \<Rightarrow> (u64 \<times> bytes option) option" where
  "eva_EC_POINT_point2oct buf len =
     (case buf of
        Some b \<Rightarrow>
          if len \<ge> 65
          then do { b \<leftarrow> eva_memset b 0xCC 65; Some (65, Some (b[0 := 0x04])) }
          else Some (65, buf)
      | None \<Rightarrow> Some (65, buf))"

definition eva_RAND_bytes :: "bytes option \<Rightarrow> int \<Rightarrow> (int \<times> bytes option) option" where
  "eva_RAND_bytes buf num =
     (case buf of
        Some b \<Rightarrow>
          if num > 0 then do { b \<leftarrow> eva_memset b 0xDD (nat num); Some (1, Some b) } else Some (1, buf)
      | None \<Rightarrow> Some (1, buf))"

definition eva_OPENSSL_cleanse :: "bytes option \<Rightarrow> u64 \<Rightarrow> bytes option option" where
  "eva_OPENSSL_cleanse ptr len =
     (case ptr of
        Some b \<Rightarrow> if len > 0 then map_option Some (eva_memset b 0 (unat len)) else Some ptr
      | None \<Rightarrow> Some ptr)"

definition eva_EVP_PKEY_new_raw_private_key :: "int \<Rightarrow> bytes \<Rightarrow> addr option" where
  "eva_EVP_PKEY_new_raw_private_key type key = Some stub_pkey"

definition eva_EVP_PKEY_keygen_init :: "addr option \<Rightarrow> int" where
  "eva_EVP_PKEY_keygen_init ctx = 1"

definition eva_EVP_PKEY_keygen :: "addr option \<Rightarrow> int \<times> addr" where
  "eva_EVP_PKEY_keygen ctx = (1, stub_pkey)"

definition eva_EVP_PKEY_CTX_new :: "'k evp \<Rightarrow> 'k world \<Rightarrow> addr option \<times> 'k world" where
  "eva_EVP_PKEY_CTX_new E w = malloc E 64 w"

definition eva_d2i_PrivateKey :: "int \<Rightarrow> bytes \<Rightarrow> addr option" where
  "eva_d2i_PrivateKey type der = Some stub_pkey"

definition eva_ERR_get_error :: u64 where
  "eva_ERR_get_error = 0"

subsection \<open>Stubs of the functions of this repository\<close>

datatype EvaHigError =
    EVA_HIG_OK
  | EVA_HIG_ERR_NOMEM
  | EVA_HIG_ERR_INVALID_PARAM
  | EVA_HIG_ERR_IO
  | EVA_HIG_ERR_CRYPTO
  | EVA_HIG_ERR_NETWORK
  | EVA_HIG_ERR_CONSENSUS
  | EVA_HIG_ERR_WAL
  | EVA_HIG_ERR_AUTH
  | EVA_HIG_ERR_SHARD
  | EVA_HIG_ERR_VALIDATION
  | EVA_HIG_ERR_DUPLICATE
  | EVA_HIG_ERR_STORAGE
  | EVA_HIG_ERR_TIMEOUT
  | EVA_HIG_ERR_RATE_LIMITED
  | EVA_HIG_ERR_CIRCUIT_OPEN

fun EvaHigError_value :: "EvaHigError \<Rightarrow> int" where
  "EvaHigError_value EVA_HIG_OK = 0"
| "EvaHigError_value EVA_HIG_ERR_NOMEM = 1"
| "EvaHigError_value EVA_HIG_ERR_INVALID_PARAM = 2"
| "EvaHigError_value EVA_HIG_ERR_IO = 3"
| "EvaHigError_value EVA_HIG_ERR_CRYPTO = 4"
| "EvaHigError_value EVA_HIG_ERR_NETWORK = 5"
| "EvaHigError_value EVA_HIG_ERR_CONSENSUS = 6"
| "EvaHigError_value EVA_HIG_ERR_WAL = 7"
| "EvaHigError_value EVA_HIG_ERR_AUTH = 8"
| "EvaHigError_value EVA_HIG_ERR_SHARD = 9"
| "EvaHigError_value EVA_HIG_ERR_VALIDATION = 10"
| "EvaHigError_value EVA_HIG_ERR_DUPLICATE = 11"
| "EvaHigError_value EVA_HIG_ERR_STORAGE = 12"
| "EvaHigError_value EVA_HIG_ERR_TIMEOUT = 13"
| "EvaHigError_value EVA_HIG_ERR_RATE_LIMITED = 14"
| "EvaHigError_value EVA_HIG_ERR_CIRCUIT_OPEN = 15"

definition eva_HIG_SUCCEEDED :: "EvaHigError \<Rightarrow> bool" where
  "eva_HIG_SUCCEEDED err \<longleftrightarrow> err = EVA_HIG_OK"

definition eva_HIG_FAILED :: "EvaHigError \<Rightarrow> bool" where
  "eva_HIG_FAILED err \<longleftrightarrow> err \<noteq> EVA_HIG_OK"

definition eva_generate_keypair :: "addr option \<Rightarrow> string option \<Rightarrow> 'k world \<Rightarrow> 'k world option" where
  "eva_generate_keypair key alg_name w =
     (case key of None \<Rightarrow> Some w | Some key \<Rightarrow> set_pkey key (Some stub_pkey) w)"

definition eva_pqc_sign ::
  "'k evp \<Rightarrow> addr option option \<Rightarrow> u64 option \<Rightarrow> bytes option \<Rightarrow> u64 \<Rightarrow> addr option \<Rightarrow> bytes option
    \<Rightarrow> 'k world \<Rightarrow> ((addr option option \<times> u64 option) \<times> 'k world) option" where
  "eva_pqc_sign E signature sig_len message msg_len key domain w =
     (if signature \<noteq> None \<and> sig_len \<noteq> None
      then case malloc E 4627 w of
        (None, w) \<Rightarrow> Some ((Some None, Some 4627), w)
      | (Some a, w) \<Rightarrow> do {
          w \<leftarrow> mem_write a 0 (replicate 4627 0xEE) w;
          Some ((Some (Some a), Some 4627), w) }
      else Some ((signature, sig_len), w))"

definition eva_pqc_verify ::
  "bytes option \<Rightarrow> u64 \<Rightarrow> bytes option \<Rightarrow> u64 \<Rightarrow> addr option \<Rightarrow> bytes option \<Rightarrow> bool" where
  "eva_pqc_verify message msg_len signature sig_len key domain = True"

definition eva_higgaion_key_free :: "addr option \<Rightarrow> 'k world \<Rightarrow> 'k world option" where
  "eva_higgaion_key_free key w = (case key of None \<Rightarrow> Some w | Some key \<Rightarrow> set_pkey key None w)"

definition eva_secure_zero :: "bytes option \<Rightarrow> u64 \<Rightarrow> bytes option option" where
  "eva_secure_zero ptr len =
     (case ptr of
        Some b \<Rightarrow> if len > 0 then map_option Some (eva_memset b 0 (unat len)) else Some ptr
      | None \<Rightarrow> Some ptr)"

definition eva_log_message :: "string \<Rightarrow> string \<Rightarrow> string \<Rightarrow> 'k world \<Rightarrow> 'k world" where
  "eva_log_message level module fmt w = w"

definition aeg_error_str :: "EvaHigError \<Rightarrow> string" where
  "aeg_error_str err = ''stub''"

definition eva_sha3_256 :: "bytes option \<Rightarrow> bytes \<Rightarrow> bytes option option" where
  "eva_sha3_256 output input =
     (case output of Some b \<Rightarrow> map_option Some (eva_memset b 0xFF 32) | None \<Rightarrow> Some output)"

definition eva_mlock :: "addr option \<Rightarrow> u64 \<Rightarrow> int" where
  "eva_mlock a len = 0"

definition eva_munlock :: "addr option \<Rightarrow> u64 \<Rightarrow> int" where
  "eva_munlock a len = 0"

subsection \<open>Types of the migration engine\<close>

datatype SourceChainType =
  CHAIN_UNKNOWN | CHAIN_BITCOIN | CHAIN_ETHEREUM | CHAIN_ECDSA_P256 | CHAIN_ECDSA_P384 | CHAIN_ED25519

record EvaMigrationRecord =
  eva_key_id :: bytes
  eva_state :: int
  eva_source_chain :: SourceChainType
  eva_source_addr :: bytes
  eva_classical_key :: "addr option"
  eva_classical_pubkey_hash :: bytes
  eva_pqc_signing_key :: "addr option"
  eva_pqc_kem_key :: "addr option"
  eva_import_time :: int
  eva_migration_time :: int

record EvaMigrationStats =
  eva_total_keys :: u64
  eva_classical_count :: u64
  eva_hybrid_count :: u64
  eva_pqc_only_count :: u64
  eva_finalizing_count :: u64

record EvaWALRecord =
  eva_magic :: u64
  eva_version :: byte
  eva_operation :: byte
  eva_wal_key_id :: bytes
  eva_new_state :: byte
  eva_seq :: u64
  eva_crc32 :: u32

text \<open>The packed struct in memory.\<close>

definition eva_wal_fields :: "EvaWALRecord \<Rightarrow> (string \<times> bytes) list" where
  "eva_wal_fields r =
     [(''magic'', le_bytes 8 (eva_magic r)),
      (''version'', [eva_version r]),
      (''operation'', [eva_operation r]),
      (''key_id'', eva_wal_key_id r),
      (''new_state'', [eva_new_state r]),
      (''seq'', le_bytes 8 (eva_seq r)),
      (''crc32'', le_bytes 4 (eva_crc32 r))]"

definition eva_wal_bytes :: "EvaWALRecord \<Rightarrow> bytes" where
  "eva_wal_bytes r = concat (map snd (eva_wal_fields r))"

subsection \<open>The entry point\<close>

text \<open>
  The engine as the harness uses it: operations on an engine state \<open>'e\<close>, each of which may be
  undefined. \<open>migration_get_stats\<close>, \<open>migration_lookup_safe\<close>, \<open>migration_status_report\<close> and
  \<open>migration_set_callback\<close> are called without a declaration in the file.
\<close>

record 'e eva_engine =
  migration_engine_init :: "'e \<Rightarrow> string \<Rightarrow> (int \<times> 'e) option"
  migration_import_bitcoin :: "'e \<Rightarrow> bytes \<Rightarrow> u64 \<Rightarrow> (int \<times> 'e) option"
  migration_import_ethereum :: "'e \<Rightarrow> bytes \<Rightarrow> u64 \<Rightarrow> (int \<times> 'e) option"
  migration_import_ed25519 :: "'e \<Rightarrow> bytes \<Rightarrow> u64 \<Rightarrow> (int \<times> 'e) option"
  migration_get_stats :: "'e \<Rightarrow> EvaMigrationStats option"
  migration_lookup_safe :: "'e \<Rightarrow> bytes \<Rightarrow> (int \<times> EvaMigrationRecord option) option"
  migration_status_report :: "'e \<Rightarrow> nat \<Rightarrow> bytes option"
  migration_set_callback :: "'e \<Rightarrow> 'e option"
  migration_engine_free :: "'e \<Rightarrow> 'e option"

definition btc_hex :: bytes where
  "btc_hex = bytes_of ''0123456789abcdef0123456789abcdef0123456789abcdef0123456789abcdef'' @ [0]"

definition eth_hex :: bytes where
  "eth_hex = bytes_of ''abcdef0123456789abcdef0123456789abcdef0123456789abcdef01234567'' @ [0]"

definition eva_main_with :: "'e eva_engine \<Rightarrow> bytes \<Rightarrow> 'e \<Rightarrow> (int \<times> 'e) option" where
  "eva_main_with M eth engine = do {
     (err, engine) \<leftarrow> migration_engine_init M engine ''/tmp/eva_test.wal'';
     if err \<noteq> EvaHigError_value EVA_HIG_OK then Some (1, engine)
     else do {
       (r, engine) \<leftarrow> migration_import_bitcoin M engine btc_hex 64;
       (r, engine) \<leftarrow> migration_import_ethereum M engine eth 64;
       (r, engine) \<leftarrow> migration_import_ed25519 M engine (replicate 32 0x42) 32;
       stats \<leftarrow> migration_get_stats M engine;
       out \<leftarrow> migration_lookup_safe M engine (bytes_of ''nonexistent_key_id'' @ [0]);
       report \<leftarrow> migration_status_report M engine 4096;
       engine \<leftarrow> migration_set_callback M engine;
       engine \<leftarrow> migration_engine_free M engine;
       Some (0, engine) } }"

definition eva_main :: "'e eva_engine \<Rightarrow> 'e \<Rightarrow> (int \<times> 'e) option" where
  "eva_main M engine = eva_main_with M eth_hex engine"

subsection \<open>The log records do not agree\<close>

text \<open>
  \<open>wp_pqc_migration.c\<close> declares the same packed struct; its \<open>wal_crc_data_len\<close> is the offset
  of the checksum there.
\<close>

definition eva_wal_zero :: EvaWALRecord where
  "eva_wal_zero = \<lparr>eva_magic = 0, eva_version = 0, eva_operation = 0,
     eva_wal_key_id = replicate MIGRATION_KEY_ID_LEN 0, eva_new_state = 0, eva_seq = 0, eva_crc32 = 0\<rparr>"

definition wp_wal_crc_data_len :: nat where
  "wp_wal_crc_data_len = offset_in ''crc32'' (eva_wal_fields eva_wal_zero)"

lemma eva_wal_length:
  "length (eva_wal_key_id r) = MIGRATION_KEY_ID_LEN \<Longrightarrow> length (eva_wal_bytes r) = 88"
  by (simp add: eva_wal_bytes_def eva_wal_fields_def MIGRATION_KEY_ID_LEN_def)

lemma get_wal_short: "length bs < 101 \<Longrightarrow> get_wal bs = None"
  by (cases "get_wal bs")
    (auto simp: get_wal_def get_le_def get_bytes_def MIGRATION_KEY_ID_LEN_def bind_eq_Some_conv
      elim!: get_byte.elims dest!: arg_cong [where f = length] split: if_splits)

text \<open>What a reader of the 101 byte record makes of two 88 byte records in a row.\<close>

lemma eva_wal_prefix:
  assumes "length (eva_wal_key_id r) = MIGRATION_KEY_ID_LEN"
  shows "take 84 (eva_wal_bytes r) = take 84 (wal_bytes
    \<lparr>magic = eva_magic r, version = eva_version r, operation = eva_operation r,
     key_id = eva_wal_key_id r, new_state = eva_new_state r, seq = eva_seq r,
     peer_state = ps, peer_shard_id = pid, peer_updated_at = pu, crc32 = c\<rparr>)"
  using assms
  by (simp add: eva_wal_bytes_def eva_wal_fields_def wal_bytes_def wal_fields_def
      MIGRATION_KEY_ID_LEN_def)

text \<open>
  Two log formats are verified: the record of the Eva harness, which is also that of
  \<open>wp_pqc_migration.c\<close>, is 88 bytes with its checksum at offset 84, the record of
  \<open>cbmc_pqc_migration_actual.c\<close> and \<open>wp_pqc_wal.c\<close> 101 bytes with its checksum at offset 97.
  The first 84 bytes agree, and a log of one Eva record is never read as a record of the
  other format.
\<close>

lemma eva_wal_format_differs:
  assumes "length (eva_wal_key_id r) = MIGRATION_KEY_ID_LEN"
  shows "length (eva_wal_bytes r) = 88 \<and> offset_in ''crc32'' (eva_wal_fields r) = 84
    \<and> wp_wal_crc_data_len = 84 \<and> wal_record_size = 101 \<and> wal_crc_data_length = 97
    \<and> get_wal (eva_wal_bytes r) = None
    \<and> (\<exists>q. take 84 (eva_wal_bytes r) = take 84 (wal_bytes q) \<and> key_id q = eva_wal_key_id r
         \<and> seq q = eva_seq r \<and> magic q = eva_magic r)"
proof -
  have "offset_in ''crc32'' (eva_wal_fields r) = 84"
    using assms by (simp add: eva_wal_fields_def MIGRATION_KEY_ID_LEN_def)
  moreover have "wp_wal_crc_data_len = 84"
    by (simp add: wp_wal_crc_data_len_def eva_wal_zero_def eva_wal_fields_def MIGRATION_KEY_ID_LEN_def)
  moreover have "get_wal (eva_wal_bytes r) = None"
    using eva_wal_length [OF assms] by (intro get_wal_short) simp
  ultimately show ?thesis
    using eva_wal_length [OF assms] wal_layout eva_wal_prefix [OF assms] wal_crc_data_length_def
    by (metis MigrationWALRecord.select_convs(1,4,6))
qed

definition eva_test_record :: EvaWALRecord where
  "eva_test_record = \<lparr>eva_magic = MIGRATION_WAL_MAGIC, eva_version = MIGRATION_WAL_VERSION,
     eva_operation = 1, eva_wal_key_id = replicate 65 0, eva_new_state = 1, eva_seq = 42,
     eva_crc32 = 0\<rparr>"

lemma eva_wal_format_differs_witness: "get_wal (eva_wal_bytes eva_test_record) = None"
  using eva_wal_format_differs [of eva_test_record]
  by (simp add: eva_test_record_def MIGRATION_KEY_ID_LEN_def)

subsection \<open>The two sets of error codes\<close>

text \<open>The member of the harness's enum with the name of a code of \<open>pqc_types.h\<close>.\<close>

fun eva_namesake :: "HigError \<Rightarrow> EvaHigError option" where
  "eva_namesake HIG_OK = Some EVA_HIG_OK"
| "eva_namesake HIG_ERR_NOMEM = Some EVA_HIG_ERR_NOMEM"
| "eva_namesake HIG_ERR_INVALID_PARAM = Some EVA_HIG_ERR_INVALID_PARAM"
| "eva_namesake HIG_ERR_IO = Some EVA_HIG_ERR_IO"
| "eva_namesake HIG_ERR_CRYPTO = Some EVA_HIG_ERR_CRYPTO"
| "eva_namesake HIG_ERR_AUTH = Some EVA_HIG_ERR_AUTH"
| "eva_namesake HIG_ERR_VALIDATION = Some EVA_HIG_ERR_VALIDATION"
| "eva_namesake HIG_ERR_TIMEOUT = Some EVA_HIG_ERR_TIMEOUT"
| "eva_namesake HIG_ERR_RATE_LIMITED = Some EVA_HIG_ERR_RATE_LIMITED"
| "eva_namesake HIG_ERR_ALGORITHM_REJECTED = None"

text \<open>The codes up to \<open>HIG_ERR_CRYPTO\<close> have the same values, no later one has.\<close>

lemma eva_error_values:
  "(map_option EvaHigError_value (eva_namesake e) = Some (HigError_value e)) = (e \<le> HIG_ERR_CRYPTO)"
  "hig_error_str (EvaHigError_value EVA_HIG_ERR_NETWORK) = hig_error_str (HigError_value HIG_ERR_AUTH)"
  by (cases e; simp add: less_eq_HigError_def) (simp add: hig_error_str_def)

subsection \<open>What the stubs let an analysis see\<close>

text \<open>
  The stubs as a library for the code of this repository: what they answer, and the fields they do
  not define taken from \<open>B\<close>.
\<close>

definition eva_evp :: "addr evp \<Rightarrow> addr evp" where
  "eva_evp B = B
     \<lparr>err_pushed := \<lambda>c. [],
      ctx_new_from_name := \<lambda>c alg. malloc_ok B c 64,
      keygen_init := \<lambda>c alg. eva_EVP_PKEY_keygen_init None,
      keygen := \<lambda>c alg. apsnd Some (eva_EVP_PKEY_keygen None),
      md_ctx_ok := \<lambda>c. malloc_ok B c 64,
      sign_init := \<lambda>c k. eva_EVP_DigestSignInit None k,
      sign_size := \<lambda>c k msg. (case eva_EVP_DigestSign None (Some 0) msg of
        Some (rc, _, Some n) \<Rightarrow> (rc, n) | _ \<Rightarrow> (0, 0)),
      sign_exec := \<lambda>c k msg n. (case eva_EVP_DigestSign (Some (replicate (unat n) 0)) (Some n) msg of
        Some (rc, Some buf, Some n') \<Rightarrow> (rc, buf, n') | _ \<Rightarrow> (0, [], 0)),
      verify_init := \<lambda>c k. eva_EVP_DigestVerifyInit None k,
      verify_exec := \<lambda>c k s msg. eva_EVP_DigestVerify None s msg\<rparr>"

lemma eva_evp_sel [simp]:
  "malloc_ok (eva_evp B) = malloc_ok B" "md_ctx_ok (eva_evp B) = (\<lambda>c. malloc_ok B c 64)"
  "verify_init (eva_evp B) = (\<lambda>c k. 1)" "verify_exec (eva_evp B) = (\<lambda>c k s msg. 1)"
  by (simp_all add: eva_evp_def eva_EVP_DigestVerifyInit_def eva_EVP_DigestVerify_def)

text \<open>
  The signing stub keeps the calling protocol of \<open>EVP_DigestSign\<close> when the caller asks for the
  size first: 72 bytes are announced and written. In a smaller buffer it fills what is there
  and still reports 72.
\<close>

lemma eva_sign_protocol:
  "eva_EVP_DigestSign None (Some n) tbs = Some (1, None, Some 72)"
  "length buf = 72 \<Longrightarrow> eva_EVP_DigestSign (Some buf) (Some 72) tbs = Some (1, Some (replicate 72 0xAA), Some 72)"
  by (simp_all add: eva_EVP_DigestSign_def eva_memset_def put_slice_def)

lemma eva_sign_overstates:
  assumes "0 < n" "n < 72" "length buf = unat n"
  shows "eva_EVP_DigestSign (Some buf) (Some n) tbs = Some (1, Some (replicate (unat n) 0xAA), Some 72)
    \<and> unat n < unat (72 :: u64)"
  using assms by (simp add: eva_EVP_DigestSign_def eva_memset_def put_slice_def word_less_nat_alt)

text \<open>
  Under the stubs verification does not depend on the signature: \<open>pqc_verify\<close> answers
  true for every key, signature and message whose sizes are accepted unless an allocation fails,
  as the harness's own \<open>pqc_verify\<close> always does; and a run with the stub library counts as forged
  (\<open>unforged\<close>) as soon as it checks a string the key has not signed. The analysis never takes
  the branch that rejects a signature.
\<close>

lemma eva_verification_unconditional:
  assumes "key_safe w" "ds_readable message msg_len domain"
    and "structs w a = Some (Some obj)" "unat sig_len \<le> length s" "sig_len \<noteq> 0"
  shows "(\<exists>w'. pqc_verify (eva_evp B) message msg_len (Some s) sig_len domain (Some a) w =
      Some (ds_accepts message msg_len domain
        \<and> malloc_ok B (clock w) (ds_length domain msg_len) \<and> malloc_ok B (clock w + 1) 64, w'))
    \<and> eva_pqc_verify message msg_len (Some s) sig_len (Some a) domain
    \<and> (unforged k M [DigestVerify k sig msg (verify_exec (eva_evp B) c k sig msg)] \<longleftrightarrow> msg \<in> M)"
proof -
  obtain k' cnt where k: "pkeys w obj = Some (k', cnt)" using key_safe_held [OF assms(1,3)] by blast
  show ?thesis
    using pqc_verify_effect [OF assms(1-3) k assms(4,5), of "eva_evp B"]
    by (auto simp: verify_result_def eva_pqc_verify_def)
qed

lemma eva_verification_unconditional_witness:
  "\<exists>w'. pqc_verify (eva_evp ideal_evp) (Some abc) 3 (Some [1, 2]) 2 (Some domain_A) (Some 10)
      signing_world = Some (True, w')"
  using eva_verification_unconditional [OF signing_world_safe abc_inputs(1), of 10 1 2 "[1, 2]" ideal_evp]
  by (simp add: abc_inputs)

text \<open>
  The signing stub never shows the outcome of a refused call, an empty signature of length
  0: it reports 4627 bytes even when it could not allocate them.
\<close>

lemma eva_sign_always_4627:
  "\<exists>r w'. eva_pqc_sign E (Some s) (Some n) message msg_len key domain w = Some ((Some r, Some 4627), w')"
  by (auto simp: eva_pqc_sign_def malloc_def mem_write_def Let_def)

lemma eva_sign_misses_refusal:
  assumes "key_safe w" "sign_fits E" "ds_readable message msg_len domain"
    and "structs w a = Some (Some obj)" "\<not> ds_accepts message msg_len domain"
  shows "\<exists>w'. pqc_sign E (Some s) (Some n) message msg_len domain (Some a) w =
    Some ((Some None, Some 0), w')"
proof -
  obtain k cnt where k: "pkeys w obj = Some (k, cnt)" using key_safe_held [OF assms(1,4)] by blast
  show ?thesis using pqc_sign_effect [OF assms(1-4) k, of s n] assms(5) by auto
qed

subsection \<open>The entry point\<close>

text \<open>
  The Ethereum literal has 62 digits and its NUL; \<open>main\<close> passes it with length 64.
\<close>

lemma literal_lengths: "length btc_hex = 65" "length eth_hex = 63"
  by (simp_all add: btc_hex_def eth_hex_def)

text \<open>
  An engine that is defined on buffers as long as the length it is given, and one whose
  Ethereum import reads all the bytes it is promised.
\<close>

definition engine_defined :: "'e eva_engine \<Rightarrow> bool" where
  "engine_defined M \<longleftrightarrow>
     (\<forall>e buf n. unat n \<le> length buf \<longrightarrow> migration_import_bitcoin M e buf n \<noteq> None
        \<and> migration_import_ethereum M e buf n \<noteq> None \<and> migration_import_ed25519 M e buf n \<noteq> None)
     \<and> (\<forall>e. migration_get_stats M e \<noteq> None \<and> migration_set_callback M e \<noteq> None
        \<and> migration_engine_free M e \<noteq> None)
     \<and> (\<forall>e key. migration_lookup_safe M e key \<noteq> None) \<and> (\<forall>e n. migration_status_report M e n \<noteq> None)"

definition reads_whole_key :: "'e eva_engine \<Rightarrow> bool" where
  "reads_whole_key M \<longleftrightarrow>
     (\<forall>e buf n. length buf < unat n \<longrightarrow> migration_import_ethereum M e buf n = None)"

text \<open>
  The entry point reads out of bounds: on every engine that starts and that reads the
  64 characters it is promised, \<open>main\<close> is undefined, because the Ethereum literal
  has 63 bytes; with any literal of 64 characters \<open>main\<close> runs to its end and returns 0.
\<close>

lemma eva_main_overreads:
  assumes "engine_defined M" "reads_whole_key M"
    and "migration_engine_init M e0 ''/tmp/eva_test.wal'' = Some (0, e1)" "64 \<le> length eth"
  shows "eva_main M e0 = None \<and> (\<exists>e. eva_main_with M eth e0 = Some (0, e))"
proof -
  have "migration_import_ethereum M e eth_hex 64 = None" for e
    using assms(2) literal_lengths by (simp add: reads_whole_key_def)
  then have "eva_main M e0 = None"
    using assms(3) by (simp add: eva_main_def eva_main_with_def bind_eq_None_conv case_prod_beta)
  moreover obtain r1 e2 where "migration_import_bitcoin M e1 btc_hex 64 = Some (r1, e2)"
    using assms(1) literal_lengths by (fastforce simp: engine_defined_def)
  moreover obtain r2 e3 where "migration_import_ethereum M e2 eth 64 = Some (r2, e3)"
    using assms(1,4) by (fastforce simp: engine_defined_def)
  moreover obtain r3 e4 where "migration_import_ed25519 M e3 (replicate 32 0x42) 32 = Some (r3, e4)"
    using assms(1) by (fastforce simp: engine_defined_def)
  moreover obtain st out bs e5 e6 where "migration_get_stats M e4 = Some st"
    "migration_lookup_safe M e4 (bytes_of ''nonexistent_key_id'' @ [0]) = Some out"
    "migration_status_report M e4 4096 = Some bs" "migration_set_callback M e4 = Some e5"
    "migration_engine_free M e5 = Some e6"
    using assms(1) unfolding engine_defined_def by (metis not_None_eq)
  ultimately show ?thesis
    using assms(3) by (simp add: eva_main_with_def)
qed

text \<open>An engine that keeps the keys it was given, reading every byte of them.\<close>

definition key_store :: "bytes list eva_engine" where
  "key_store =
     (let import_key = (\<lambda>e buf n. map_option (\<lambda>k. (0, k # e)) (read_bytes (Some buf) (unat n))) in
      \<lparr>migration_engine_init = (\<lambda>e path. Some (0, [])),
       migration_import_bitcoin = import_key, migration_import_ethereum = import_key,
       migration_import_ed25519 = import_key,
       migration_get_stats = (\<lambda>e. Some \<lparr>eva_total_keys = of_nat (length e),
         eva_classical_count = of_nat (length e), eva_hybrid_count = 0, eva_pqc_only_count = 0,
         eva_finalizing_count = 0\<rparr>),
       migration_lookup_safe = (\<lambda>e key. Some (1, None)),
       migration_status_report = (\<lambda>e n. Some []), migration_set_callback = Some,
       migration_engine_free = (\<lambda>e. Some [])\<rparr>)"

lemma eva_main_overreads_witness:
  "eva_main key_store [] = None \<and> (\<exists>e. eva_main_with key_store btc_hex [] = Some (0, e))"
  by (rule eva_main_overreads)
    (simp_all add: engine_defined_def reads_whole_key_def key_store_def read_bytes_def
      literal_lengths Let_def)

end
