(* ===== verification/CbmcStubs.thy ===== *)
theory CbmcStubs
  imports EvaHarness
begin

text \<open>
  The stubs of \<open>verification/cbmc/cbmc_pqc_migration_actual.c\<close> for libcrypto, the functions of
  this repository, threads and files. Its harnesses (theories \<open>WalRecord\<close> and \<open>Migration\<close>) call none
  of them; the lemmas compare them with the functions they stand for and with the stubs of the
  Eva harness.
\<close>

subsection \<open>libcrypto\<close>

definition cbmc_EVP_PKEY_free :: "addr option \<Rightarrow> 'k world \<Rightarrow> 'k world" where
  "cbmc_EVP_PKEY_free k w = w"

definition cbmc_i2d_PUBKEY :: "addr option \<Rightarrow> int" where
  "cbmc_i2d_PUBKEY k = 0"

definition cbmc_i2d_PrivateKey :: "addr option \<Rightarrow> int" where
  "cbmc_i2d_PrivateKey k = 0"

text \<open>The length is reported, the buffer not written.\<close>

definition cbmc_EVP_PKEY_get_raw_public_key :: "bytes \<Rightarrow> int \<times> bytes \<times> u64" where
  "cbmc_EVP_PKEY_get_raw_public_key b = (1, b, 32)"

definition cbmc_OPENSSL_cleanse :: "bytes \<Rightarrow> u64 \<Rightarrow> bytes option" where
  "cbmc_OPENSSL_cleanse p l = eva_memset p 0 (unat l)"

definition cbmc_OPENSSL_free :: "addr option \<Rightarrow> 'k world \<Rightarrow> 'k world option" where
  "cbmc_OPENSSL_free p w = eva_free p w"

text \<open>An \<open>int\<close> is cast to \<open>size_t\<close>: a negative one becomes a huge length.\<close>

definition cbmc_RAND_bytes :: "bytes \<Rightarrow> 32 word \<Rightarrow> (int \<times> bytes) option" where
  "cbmc_RAND_bytes b n = map_option (Pair 1) (eva_memset b 0x42 (unat (scast n :: u64)))"

definition cbmc_EVP_Digest :: "bytes \<Rightarrow> bytes \<Rightarrow> u32 option \<Rightarrow> (int \<times> bytes \<times> u32 option) option" where
  "cbmc_EVP_Digest d md s = do {
     md \<leftarrow> eva_memset md 0xAB 32;
     Some (1, md, map_option (\<lambda>_. 32) s) }"

definition cbmc_EVP_sha256 :: "addr option" where
  "cbmc_EVP_sha256 = None"

definition cbmc_EVP_sha3_256 :: "addr option" where
  "cbmc_EVP_sha3_256 = None"

definition cbmc_EVP_aes_256_gcm :: "addr option" where
  "cbmc_EVP_aes_256_gcm = None"

definition cbmc_PKCS5_PBKDF2_HMAC :: "bytes \<Rightarrow> bytes \<Rightarrow> int \<Rightarrow> 32 word \<Rightarrow> bytes \<Rightarrow> (int \<times> bytes) option" where
  "cbmc_PKCS5_PBKDF2_HMAC p salt i kl out = map_option (Pair 1) (eva_memset out 0x55 (unat (scast kl :: u64)))"

subsection \<open>Functions of this repository\<close>

record PQCKey =
  pqc_pkey :: "addr option"
  fingerprint :: bytes

definition CBMC_HIG_OK :: "int" where
  "CBMC_HIG_OK = 0"

definition CBMC_HIG_ERR_NOMEM :: "int" where
  "CBMC_HIG_ERR_NOMEM = - 1"

definition CBMC_HIG_ERR_INVALID_PARAM :: "int" where
  "CBMC_HIG_ERR_INVALID_PARAM = - 2"

definition CBMC_HIG_ERR_IO :: "int" where
  "CBMC_HIG_ERR_IO = - 3"

definition CBMC_HIG_ERR_CRYPTO :: "int" where
  "CBMC_HIG_ERR_CRYPTO = - 4"

definition CBMC_HIG_ERR_VALIDATION :: "int" where
  "CBMC_HIG_ERR_VALIDATION = - 6"

definition CBMC_HIG_ERR_DUPLICATE :: "int" where
  "CBMC_HIG_ERR_DUPLICATE = - 10"

definition CBMC_HIG_ERR_WAL :: "int" where
  "CBMC_HIG_ERR_WAL = - 7"

definition cbmc_hash :: "bytes \<Rightarrow> bytes \<Rightarrow> bytes option" where
  "cbmc_hash out data = eva_memset out 0xCD 32"

definition cbmc_keccak_256 :: "bytes \<Rightarrow> bytes \<Rightarrow> bytes option" where
  "cbmc_keccak_256 out data = eva_memset out 0xEF 32"

definition cbmc_secure_zero :: "bytes \<Rightarrow> u64 \<Rightarrow> bytes option" where
  "cbmc_secure_zero p n = eva_memset p 0 (unat n)"

definition cbmc_generate_keypair :: "PQCKey \<Rightarrow> string \<Rightarrow> int" where
  "cbmc_generate_keypair key alg = CBMC_HIG_OK"

definition cbmc_pqc_sign ::
  "'k evp \<Rightarrow> bytes \<Rightarrow> bytes \<Rightarrow> PQCKey \<Rightarrow> 'k world \<Rightarrow> (int \<times> addr option \<times> u64) \<times> 'k world" where
  "cbmc_pqc_sign E msg domain key w =
     (let (sig, w) = malloc E 64 w in
      ((if sig \<noteq> None then CBMC_HIG_OK else CBMC_HIG_ERR_NOMEM, sig, 64), w))"

definition cbmc_pqc_verify :: "bytes \<Rightarrow> bytes \<Rightarrow> bytes \<Rightarrow> PQCKey \<Rightarrow> bool" where
  "cbmc_pqc_verify msg sig domain key = True"

subsection \<open>Threads and files\<close>

definition cbmc_pthread_mutex_lock :: "int \<Rightarrow> int" where
  "cbmc_pthread_mutex_lock m = 0"

definition cbmc_pthread_mutex_unlock :: "int \<Rightarrow> int" where
  "cbmc_pthread_mutex_unlock m = 0"

definition cbmc_pthread_mutex_init :: "int \<Rightarrow> int" where
  "cbmc_pthread_mutex_init m = 0"

definition cbmc_pthread_mutex_destroy :: "int \<Rightarrow> int" where
  "cbmc_pthread_mutex_destroy m = 0"

definition stub_fd :: "int" where
  "stub_fd = 3"

definition cbmc_open :: "string \<Rightarrow> int \<Rightarrow> int" where
  "cbmc_open p f = stub_fd"

definition cbmc_write :: "int \<Rightarrow> bytes \<Rightarrow> u64 \<Rightarrow> int" where
  "cbmc_write fd b n = sint n"

text \<open>The count is reported, the buffer not written.\<close>

definition cbmc_read :: "int \<Rightarrow> bytes \<Rightarrow> u64 \<Rightarrow> int \<times> bytes" where
  "cbmc_read fd b n = (sint n, b)"

definition cbmc_close :: "int \<Rightarrow> int" where
  "cbmc_close fd = 0"

definition cbmc_fsync :: "int \<Rightarrow> int" where
  "cbmc_fsync fd = 0"

definition cbmc_ftruncate :: "int \<Rightarrow> int \<Rightarrow> int" where
  "cbmc_ftruncate fd l = 0"

definition cbmc_lseek :: "int \<Rightarrow> int \<Rightarrow> int \<Rightarrow> int" where
  "cbmc_lseek fd off w = 0"

subsection \<open>Against the functions and against the other stubs\<close>

text \<open>
  No error code of the harness but \<open>HIG_OK\<close> is a code of \<open>pqc_types.h\<close>, or of the Eva
  harness: both count upwards from 0.
\<close>

lemma cbmc_error_codes_foreign:
  "c \<in> {CBMC_HIG_ERR_NOMEM, CBMC_HIG_ERR_INVALID_PARAM, CBMC_HIG_ERR_IO, CBMC_HIG_ERR_CRYPTO,
       CBMC_HIG_ERR_VALIDATION, CBMC_HIG_ERR_DUPLICATE, CBMC_HIG_ERR_WAL} \<Longrightarrow>
     HigError_value e \<noteq> c \<and> EvaHigError_value f \<noteq> c \<and> hig_error_str c = ''unknown error''"
proof -
  assume "c \<in> {CBMC_HIG_ERR_NOMEM, CBMC_HIG_ERR_INVALID_PARAM, CBMC_HIG_ERR_IO, CBMC_HIG_ERR_CRYPTO,
       CBMC_HIG_ERR_VALIDATION, CBMC_HIG_ERR_DUPLICATE, CBMC_HIG_ERR_WAL}"
  then have "c < 0"
    by (auto simp: CBMC_HIG_ERR_NOMEM_def CBMC_HIG_ERR_INVALID_PARAM_def CBMC_HIG_ERR_IO_def
      CBMC_HIG_ERR_CRYPTO_def CBMC_HIG_ERR_VALIDATION_def CBMC_HIG_ERR_DUPLICATE_def
      CBMC_HIG_ERR_WAL_def)
  moreover have pos: "0 \<le> HigError_value e" "0 \<le> EvaHigError_value f" for e f
    by (cases e; simp) (cases f; simp)
  ultimately have ne: "HigError_value e \<noteq> c" "EvaHigError_value f \<noteq> c" for e f
    by (metis not_le)+
  then have "hig_error_str c = ''unknown error''" using hig_error_str_distinct by blast
  with ne show ?thesis by blast
qed

text \<open>
  A negative count is an out-of-bounds write here, and nothing in the Eva stub and in the
  documented \<open>RAND_bytes\<close>.
\<close>

lemma cbmc_rand_negative:
  assumes "n <s 0" "length b < 2 ^ 31"
  shows "cbmc_RAND_bytes b n = None" "eva_RAND_bytes (Some b) (sint n) = Some (1, Some b)"
proof -
  have neg: "sint n < 0" using assms(1) by (simp add: word_sless_alt)
  have "uint (scast n :: u64) = sint n + 2 ^ 64"
  proof -
    have "- (2 ^ 31) \<le> sint n" using sint_ge [of n] by simp
    then have "(sint n + 2 ^ 64) mod 2 ^ 64 = sint n + 2 ^ 64"
      using neg by (intro mod_pos_pos_trivial) simp_all
    moreover have "uint (scast n :: u64) = sint n mod 2 ^ 64"
      by (simp only: scast_eq uint_word_of_int_eq take_bit_eq_mod) simp
    ultimately show ?thesis by simp
  qed
  moreover have "- (2 ^ 31) \<le> sint n" using sint_ge [of n] by simp
  ultimately have "2 ^ 31 \<le> uint (scast n :: u64)" by simp
  moreover have "int (length b) < 2 ^ 31" using assms(2) by simp
  ultimately have "int (length b) < uint (scast n :: u64)" by linarith
  then have "length b < unat (scast n :: u64)"
    unfolding unat_eq_nat_uint zless_nat_eq_int_zless .
  then show "cbmc_RAND_bytes b n = None" by (simp add: cbmc_RAND_bytes_def eva_memset_def)
  show "eva_RAND_bytes (Some b) (sint n) = Some (1, Some b)"
    using neg by (simp add: eva_RAND_bytes_def)
qed

text \<open>A signature of the stub is shorter than any ML-DSA-87 signature, and both harnesses' stubs verify it.\<close>

lemma cbmc_signature_short:
  "snd (snd (fst (cbmc_pqc_sign E msg domain key w))) = 64" "unat (64 :: u64) < DSA_SIG_SIZE"
  "cbmc_pqc_verify msg sig domain key"
  by (simp_all add: cbmc_pqc_sign_def case_prod_beta Let_def DSA_SIG_SIZE_def cbmc_pqc_verify_def)

end
