(* ===== verification/Acsl.thy ===== *)
theory Acsl
  imports Prelude
begin

text \<open>
  Function contracts of ACSL, the specification language of the files under
  \<open>verification/framac\<close>, as values: a contract has a precondition, a default behaviour and
  named behaviours, each with its condition (\<open>assumes\<close>), the locations it may change
  (\<open>assigns\<close>, a relation between the states before and after) and its postcondition
  (\<open>ensures\<close>), and the clauses \<open>complete behaviors\<close> and \<open>disjoint behaviors\<close>. A function
  takes its arguments \<open>i\<close> and a state \<open>s\<close>; \<open>None\<close> is undefined behaviour. ACSL computes over
  mathematical integers, so contracts speak of \<open>uint\<close> where the code computes with words.
\<close>

subsection \<open>Words as integers\<close>

lemma uint_sub_fits:
  fixes a b :: "'a::len word"
  shows "uint b \<le> uint a \<Longrightarrow> uint (a - b) = uint a - uint b"
  by (simp add: uint_minus_simple_alt [symmetric] word_le_def)

lemma uint_nat_le: "uint (a :: 'a::len word) \<le> uint (b :: 'a word) \<longleftrightarrow> unat a \<le> unat b"
  by (simp add: word_le_def [symmetric] word_le_nat_alt)

lemma uint_less_mod:
  fixes a b :: "'a::len word"
  shows "b \<noteq> 0 \<Longrightarrow> uint (a mod b) < uint b"
  by (metis order_le_less pos_mod_bound uint_0_iff uint_mod unsigned_greater_eq)

subsection \<open>Contracts\<close>

record ('i, 's, 'r) behavior =
  assumes_of :: "'i \<Rightarrow> 's \<Rightarrow> bool"
  assigns_of :: "'i \<Rightarrow> 's \<Rightarrow> 's \<Rightarrow> bool"
  ensures_of :: "'i \<Rightarrow> 's \<Rightarrow> 'r \<Rightarrow> 's \<Rightarrow> bool"

record ('i, 's, 'r) contract =
  requires_of :: "'i \<Rightarrow> 's \<Rightarrow> bool"
  default_of :: "('i, 's, 'r) behavior"
  behaviors_of :: "('i, 's, 'r) behavior list"
  complete_clause :: bool
  disjoint_clause :: bool

type_synonym ('i, 's, 'r) c_function = "'i \<Rightarrow> 's \<Rightarrow> ('r \<times> 's) option"

text \<open>\<open>assigns \nothing\<close>, and no clause at all.\<close>

definition assigns_nothing :: "'i \<Rightarrow> 's \<Rightarrow> 's \<Rightarrow> bool" where
  "assigns_nothing i s s' \<longleftrightarrow> s' = s"

definition assigns_anything :: "'i \<Rightarrow> 's \<Rightarrow> 's \<Rightarrow> bool" where
  "assigns_anything i s s' \<longleftrightarrow> True"

definition always :: "'i \<Rightarrow> 's \<Rightarrow> bool" where
  "always i s \<longleftrightarrow> True"

definition no_default :: "('i, 's, 'r) behavior" where
  "no_default = \<lparr>assumes_of = always, assigns_of = assigns_anything, ensures_of = (\<lambda>i s r s'. True)\<rparr>"

text \<open>A pure function has no state and is always defined.\<close>

definition pure :: "('i \<Rightarrow> 'r) \<Rightarrow> ('i, unit, 'r) c_function" where
  "pure f i s = Some (f i, s)"

text \<open>The contract of a pure function: \<open>assigns \nothing\<close> and cases on the arguments.\<close>

definition pure_behavior :: "('i \<Rightarrow> bool) \<Rightarrow> ('i \<Rightarrow> 'r \<Rightarrow> bool) \<Rightarrow> ('i, unit, 'r) behavior" where
  "pure_behavior a e =
     \<lparr>assumes_of = (\<lambda>i s. a i), assigns_of = assigns_nothing, ensures_of = (\<lambda>i s r s'. e i r)\<rparr>"

definition pure_contract ::
  "('i \<Rightarrow> bool) \<Rightarrow> ('i \<Rightarrow> 'r \<Rightarrow> bool) \<Rightarrow> (('i \<Rightarrow> bool) \<times> ('i \<Rightarrow> 'r \<Rightarrow> bool)) list \<Rightarrow> bool \<Rightarrow>
     ('i, unit, 'r) contract" where
  "pure_contract req ens bs clauses =
     \<lparr>requires_of = (\<lambda>i s. req i), default_of = pure_behavior (\<lambda>i. True) ens,
      behaviors_of = map (\<lambda>(a, e). pure_behavior a e) bs,
      complete_clause = clauses, disjoint_clause = clauses\<rparr>"

subsection \<open>What a proof of a contract shows\<close>

definition obeys ::
  "('i, 's, 'r) behavior \<Rightarrow> 'i \<Rightarrow> 's \<Rightarrow> 'r \<Rightarrow> 's \<Rightarrow> bool" where
  "obeys b i s r s' \<longleftrightarrow> (assumes_of b i s \<longrightarrow> assigns_of b i s s' \<and> ensures_of b i s r s')"

definition meets_at :: "('i, 's, 'r) contract \<Rightarrow> ('i, 's, 'r) c_function \<Rightarrow> 'i \<Rightarrow> 's \<Rightarrow> bool" where
  "meets_at C f i s \<longleftrightarrow>
     (case f i s of
        None \<Rightarrow> False
      | Some (r, s') \<Rightarrow> list_all (\<lambda>b. obeys b i s r s') (default_of C # behaviors_of C))"

definition covers :: "('i, 's, 'r) contract \<Rightarrow> 'i \<Rightarrow> 's \<Rightarrow> bool" where
  "covers C i s \<longleftrightarrow> list_ex (\<lambda>b. assumes_of b i s) (behaviors_of C)"

definition separates :: "('i, 's, 'r) contract \<Rightarrow> 'i \<Rightarrow> 's \<Rightarrow> bool" where
  "separates C i s \<longleftrightarrow> sorted_wrt (\<lambda>b c. \<not> (assumes_of b i s \<and> assumes_of c i s)) (behaviors_of C)"

text \<open>
  The function is defined wherever the precondition holds, obeys every behaviour, and the
  clauses on the behaviours are true.
\<close>

definition proves :: "('i, 's, 'r) contract \<Rightarrow> ('i, 's, 'r) c_function \<Rightarrow> bool" where
  "proves C f \<longleftrightarrow> (\<forall>i s. requires_of C i s \<longrightarrow>
     meets_at C f i s
     \<and> (complete_clause C \<longrightarrow> covers C i s)
     \<and> (disjoint_clause C \<longrightarrow> separates C i s))"

named_theorems acsl \<open>contracts unfolded\<close>

lemmas acsl_sem [acsl] = meets_at_def covers_def separates_def obeys_def assigns_nothing_def
  assigns_anything_def always_def no_default_def pure_def pure_behavior_def pure_contract_def

lemma provesI:
  assumes "\<And>i s. requires_of C i s \<Longrightarrow> meets_at C f i s"
    and "\<And>i s. requires_of C i s \<Longrightarrow> complete_clause C \<Longrightarrow> covers C i s"
    and "\<And>i s. requires_of C i s \<Longrightarrow> disjoint_clause C \<Longrightarrow> separates C i s"
  shows "proves C f"
  using assms by (simp add: proves_def)

lemma proves_pureI:
  assumes "\<And>i. req i \<Longrightarrow> ens i (f i) \<and> list_all (\<lambda>b. fst b i \<longrightarrow> snd b i (f i)) bs"
    and "\<And>i. req i \<Longrightarrow> c \<Longrightarrow> list_ex (\<lambda>b. fst b i) bs \<and> sorted_wrt (\<lambda>b d. \<not> (fst b i \<and> fst d i)) bs"
  shows "proves (pure_contract req ens bs c) (pure f)"
proof (rule provesI)
  fix i and s :: unit
  assume "requires_of (pure_contract req ens bs c) i s"
  then have req: "req i" by (simp add: pure_contract_def)
  show "meets_at (pure_contract req ens bs c) (pure f) i s"
    using assms(1) [OF req] by (simp add: acsl list_all_iff case_prod_beta)
  assume "complete_clause (pure_contract req ens bs c)"
  then show "covers (pure_contract req ens bs c) i s"
    using assms(2) [OF req] by (simp add: acsl list_ex_iff case_prod_beta)
next
  fix i and s :: unit
  assume "requires_of (pure_contract req ens bs c) i s" "disjoint_clause (pure_contract req ens bs c)"
  then show "separates (pure_contract req ens bs c) i s"
    using assms(2) [of i] by (simp add: acsl sorted_wrt_map case_prod_beta)
qed

subsection \<open>Using a contract\<close>

text \<open>
  A caller knows nothing of a function but its contract: that is the locale. A function that
  is verified inside it is verified for every implementation of its callee.
\<close>

locale acsl_function =
  fixes C :: "('i, 's, 'r) contract"
    and f :: "('i, 's, 'r) c_function"
  assumes proved: "proves C f"
begin

lemma returns:
  assumes "requires_of C i s"
  obtains r s' where "f i s = Some (r, s')" "obeys (default_of C) i s r s'"
    "\<forall>b \<in> set (behaviors_of C). obeys b i s r s'"
proof -
  have "meets_at C f i s" using proved assms by (simp add: proves_def)
  then show ?thesis
    using that by (auto simp: meets_at_def list_all_iff split: option.splits)
qed

lemma behaves:
  assumes "requires_of C i s" "b \<in> set (behaviors_of C)" "assumes_of b i s"
  obtains r s' where "f i s = Some (r, s')" "assigns_of b i s s'" "ensures_of b i s r s'"
    "obeys (default_of C) i s r s'"
  using returns [OF assms(1)] assms(2,3) by (metis obeys_def)

lemma some_behavior:
  assumes "requires_of C i s" "complete_clause C"
  obtains b where "b \<in> set (behaviors_of C)" "assumes_of b i s"
proof -
  have "covers C i s" using proved assms by (simp add: proves_def)
  then show ?thesis using that by (auto simp: covers_def list_ex_iff)
qed

end

text \<open>A contract with a weaker precondition and stronger behaviours gives the other.\<close>

lemma proves_strengthen_requires:
  assumes "proves C f" "\<And>i s. P i s \<Longrightarrow> requires_of C i s"
  shows "proves (C\<lparr>requires_of := P\<rparr>) f"
proof -
  have "meets_at (C\<lparr>requires_of := P\<rparr>) f i s = meets_at C f i s"
    "covers (C\<lparr>requires_of := P\<rparr>) i s = covers C i s"
    "separates (C\<lparr>requires_of := P\<rparr>) i s = separates C i s" for i s
    by (simp_all add: meets_at_def covers_def separates_def split: option.split)
  then show ?thesis using assms by (simp add: proves_def)
qed

end
