(* ===== verification/WpLedger.thy ===== *)
theory WpLedger
  imports Acsl Ledger Governance Utxo
begin

text \<open>
  The contracts of \<open>verification/framac/wp_token_ledger.c\<close>, \<open>wp_governance.c\<close> and \<open>wp_utxo.c\<close>,
  translated clause by clause, and the proofs that the functions meet them. Functions that call
  others are verified from the contracts of their callees.
\<close>

subsection \<open>Checked arithmetic of the ledger\<close>

text \<open>Here the result goes through \<open>out\<close>, into memory.\<close>

definition wp_safe_add_u64 :: "(u64 \<times> u64 \<times> addr option, balances, bool) c_function" where
  "wp_safe_add_u64 = (\<lambda>(a, b, out) m.
     if a > UINT64_MAX - b then Some (False, m)
     else do {
       p \<leftarrow> out;
       old \<leftarrow> m p;
       Some (True, m(p \<mapsto> a + b)) })"

definition wp_safe_sub_u64 :: "(u64 \<times> u64 \<times> addr option, balances, bool) c_function" where
  "wp_safe_sub_u64 = (\<lambda>(a, b, out) m.
     if a < b then Some (False, m)
     else do {
       p \<leftarrow> out;
       old \<leftarrow> m p;
       Some (True, m(p \<mapsto> a - b)) })"

definition wp_saturating_mul_u64 :: "u64 \<times> u64 \<Rightarrow> u64" where
  "wp_saturating_mul_u64 = (\<lambda>(a, b).
     if a = 0 \<or> b = 0 then 0
     else if a > UINT64_MAX div b then UINT64_MAX
     else a * b)"

definition valid :: "addr option \<Rightarrow> balances \<Rightarrow> bool" where
  "valid p m \<longleftrightarrow> (\<exists>a \<in> set_option p. m a \<noteq> None)"

definition assigns_at :: "addr option \<Rightarrow> balances \<Rightarrow> balances \<Rightarrow> bool" where
  "assigns_at p m m' \<longleftrightarrow> (\<forall>q. Some q \<noteq> p \<longrightarrow> m' q = m q)"

definition stored :: "addr option \<Rightarrow> balances \<Rightarrow> int \<Rightarrow> bool" where
  "stored p m v \<longleftrightarrow> (\<exists>a \<in> set_option p. map_option uint (m a) = Some v)"

definition safe_add_u64_contract :: "(u64 \<times> u64 \<times> addr option, balances, bool) contract" where
  "safe_add_u64_contract =
     \<lparr>requires_of = (\<lambda>(a, b, out) m. valid out m),
      default_of = no_default,
      behaviors_of =
        [\<lparr>assumes_of = (\<lambda>(a, b, out) m. uint a > uint UINT64_MAX - uint b),
          assigns_of = assigns_nothing,
          ensures_of = (\<lambda>(a, b, out) m r m'. r = False)\<rparr>,
         \<lparr>assumes_of = (\<lambda>(a, b, out) m. uint a \<le> uint UINT64_MAX - uint b),
          assigns_of = (\<lambda>(a, b, out). assigns_at out),
          ensures_of = (\<lambda>(a, b, out) m r m'. r = True \<and> stored out m' (uint a + uint b))\<rparr>],
      complete_clause = True, disjoint_clause = True\<rparr>"

definition safe_sub_u64_contract :: "(u64 \<times> u64 \<times> addr option, balances, bool) contract" where
  "safe_sub_u64_contract =
     \<lparr>requires_of = (\<lambda>(a, b, out) m. valid out m),
      default_of = no_default,
      behaviors_of =
        [\<lparr>assumes_of = (\<lambda>(a, b, out) m. uint a < uint b),
          assigns_of = assigns_nothing,
          ensures_of = (\<lambda>(a, b, out) m r m'. r = False)\<rparr>,
         \<lparr>assumes_of = (\<lambda>(a, b, out) m. uint a \<ge> uint b),
          assigns_of = (\<lambda>(a, b, out). assigns_at out),
          ensures_of = (\<lambda>(a, b, out) m r m'. r = True \<and> stored out m' (uint a - uint b))\<rparr>],
      complete_clause = True, disjoint_clause = True\<rparr>"

definition saturating_mul_u64_contract :: "(u64 \<times> u64, unit, u64) contract" where
  "saturating_mul_u64_contract =
     pure_contract (\<lambda>_. True) (\<lambda>_ _. True)
       [(\<lambda>(a, b). uint a = 0 \<or> uint b = 0, \<lambda>(a, b) r. uint r = 0),
        (\<lambda>(a, b). uint a \<noteq> 0 \<and> uint b \<noteq> 0 \<and> uint a > uint UINT64_MAX div uint b,
         \<lambda>(a, b) r. uint r = uint UINT64_MAX),
        (\<lambda>(a, b). uint a \<noteq> 0 \<and> uint b \<noteq> 0 \<and> uint a \<le> uint UINT64_MAX div uint b,
         \<lambda>(a, b) r. uint r \<le> uint UINT64_MAX)] True"

text \<open>The comparisons of the code are the comparisons of the contract.\<close>

lemma uint_UINT64_MAX: "uint UINT64_MAX = 18446744073709551615"
  by (simp add: unsigned_minus_1_eq_mask mask_eq_exp_minus_1)

lemma uint_room:
  fixes a b :: u64
  shows "a > UINT64_MAX - b \<longleftrightarrow> uint a > uint UINT64_MAX - uint b"
proof -
  have "uint (UINT64_MAX - b) = uint UINT64_MAX - uint b"
    by (simp add: uint_minus_simple_iff [symmetric] max_word_max)
  then show ?thesis by (simp add: word_less_def)
qed

lemma uint_add_fits:
  fixes a b :: u64
  shows "uint a \<le> uint UINT64_MAX - uint b \<Longrightarrow> uint (a + b) = uint a + uint b"
  using unsigned_greater_eq [of a, where 'a = int] unsigned_greater_eq [of b, where 'a = int]
  by (simp add: uint_word_ariths uint_UINT64_MAX)

lemma wp_safe_add_correct: "proves safe_add_u64_contract wp_safe_add_u64"
  by (rule provesI)
    (auto simp: safe_add_u64_contract_def wp_safe_add_u64_def acsl uint_room valid_def assigns_at_def
      stored_def uint_add_fits not_less bind_eq_Some_conv)

lemma wp_safe_sub_correct: "proves safe_sub_u64_contract wp_safe_sub_u64"
  by (rule provesI)
    (auto simp: safe_sub_u64_contract_def wp_safe_sub_u64_def acsl word_less_def valid_def
      assigns_at_def stored_def uint_sub_fits not_less bind_eq_Some_conv)

lemma wp_saturating_mul_correct: "proves saturating_mul_u64_contract (pure wp_saturating_mul_u64)"
  unfolding saturating_mul_u64_contract_def
proof (rule proves_pureI)
  fix i :: "u64 \<times> u64"
  obtain a b where i: "i = (a, b)" by (cases i)
  have "(a > UINT64_MAX div b) = (uint a > uint UINT64_MAX div uint b)"
    by (simp add: word_less_def uint_div)
  moreover have "uint r \<le> uint UINT64_MAX" for r :: u64
    using word_n1_ge [of r] by (simp add: word_le_def)
  ultimately show "True \<and> list_all (\<lambda>b. fst b i \<longrightarrow> snd b i (wp_saturating_mul_u64 i))
     [(\<lambda>(a, b). uint a = 0 \<or> uint b = 0, \<lambda>(a, b) r. uint r = 0),
        (\<lambda>(a, b). uint a \<noteq> 0 \<and> uint b \<noteq> 0 \<and> uint a > uint UINT64_MAX div uint b,
         \<lambda>(a, b) r. uint r = uint UINT64_MAX),
        (\<lambda>(a, b). uint a \<noteq> 0 \<and> uint b \<noteq> 0 \<and> uint a \<le> uint UINT64_MAX div uint b,
         \<lambda>(a, b) r. uint r \<le> uint UINT64_MAX)]"
    by (auto simp: i wp_saturating_mul_u64_def uint_0_iff dest: uint_0_iff [THEN iffD1])
qed auto

text \<open>The versions with and without a pointer agree, also with \<open>cbmc_overflow.c\<close>.\<close>

lemma checked_versions_agree:
  assumes "m p \<noteq> None"
  shows "wp_safe_add_u64 (a, b, Some p) m =
      Some (case safe_add_u64 a b of None \<Rightarrow> (False, m) | Some c \<Rightarrow> (True, m(p \<mapsto> c)))"
    and "wp_safe_sub_u64 (a, b, Some p) m =
      Some (case safe_sub_u64 a b of None \<Rightarrow> (False, m) | Some c \<Rightarrow> (True, m(p \<mapsto> c)))"
    and "wp_saturating_mul_u64 (a, b) = saturating_mul_u64 a b"
  using assms
  by (auto simp: wp_safe_add_u64_def wp_safe_sub_u64_def safe_add_u64_def safe_sub_u64_def
      wp_saturating_mul_u64_def saturating_mul_u64_def)

subsection \<open>Ledger entries\<close>

definition same_but_balance :: "BalanceEntry \<Rightarrow> BalanceEntry \<Rightarrow> bool" where
  "same_but_balance e e' \<longleftrightarrow> e' = e\<lparr>balance := balance e', utxo_count := utxo_count e'\<rparr>"

definition ledger_credit_contract :: "(u64, BalanceEntry, ModelError) contract" where
  "ledger_credit_contract =
     \<lparr>requires_of = (\<lambda>amt e. occupied e \<and> uint amt > 0
        \<and> uint (utxo_count e) < uint UINT32_MAX),
      default_of = no_default,
      behaviors_of =
        [\<lparr>assumes_of = (\<lambda>amt e. uint (balance e) > uint UINT64_MAX - uint amt),
          assigns_of = assigns_nothing,
          ensures_of = (\<lambda>amt e r e'. r = MODEL_ERR_VALIDATION \<and> balance e' = balance e)\<rparr>,
         \<lparr>assumes_of = (\<lambda>amt e. uint (balance e) \<le> uint UINT64_MAX - uint amt),
          assigns_of = (\<lambda>amt. same_but_balance),
          ensures_of = (\<lambda>amt e r e'. r = MODEL_OK
            \<and> uint (balance e') = uint (balance e) + uint amt
            \<and> uint (utxo_count e') = (uint (utxo_count e) + 1) mod 2 ^ 32)\<rparr>],
      complete_clause = True, disjoint_clause = True\<rparr>"

definition ledger_debit_contract :: "(u64, BalanceEntry, ModelError) contract" where
  "ledger_debit_contract =
     \<lparr>requires_of = (\<lambda>amt e. occupied e \<and> uint amt > 0),
      default_of = no_default,
      behaviors_of =
        [\<lparr>assumes_of = (\<lambda>amt e. uint (balance e) < uint amt),
          assigns_of = assigns_nothing,
          ensures_of = (\<lambda>amt e r e'. r = MODEL_ERR_VALIDATION \<and> balance e' = balance e)\<rparr>,
         \<lparr>assumes_of = (\<lambda>amt e. uint (balance e) \<ge> uint amt),
          assigns_of = (\<lambda>amt. same_but_balance),
          ensures_of = (\<lambda>amt e r e'. r = MODEL_OK
            \<and> uint (balance e') = uint (balance e) - uint amt)\<rparr>],
      complete_clause = True, disjoint_clause = True\<rparr>"

definition credit_function :: "(u64, BalanceEntry, ModelError) c_function" where
  "credit_function amt e = Some (ledger_credit_model e amt)"

definition debit_function :: "(u64, BalanceEntry, ModelError) c_function" where
  "debit_function amt e = Some (ledger_debit_model e amt)"

lemma credit_correct: "proves ledger_credit_contract credit_function"
  by (rule provesI)
    (auto simp: ledger_credit_contract_def credit_function_def ledger_credit_model_def acsl uint_room
      same_but_balance_def uint_add_fits uint_word_ariths not_less)

lemma debit_correct: "proves ledger_debit_contract debit_function"
  by (rule provesI)
    (auto simp: ledger_debit_contract_def debit_function_def ledger_debit_model_def acsl word_less_def
      same_but_balance_def uint_sub_fits Let_def not_less)

text \<open>
  \<open>conservation_law\<close> over any two functions it may call; the answer is its list of assertions,
  which are about integers.
\<close>

definition conservation_with ::
  "(u64, BalanceEntry, ModelError) c_function \<Rightarrow> (u64, BalanceEntry, ModelError) c_function \<Rightarrow>
     (u64, BalanceEntry, bool list) c_function" where
  "conservation_with credit debit amt e = do {
     let old_balance = balance e;
     (r1, e1) \<leftarrow> credit amt e;
     (r2, e2) \<leftarrow> debit amt e1;
     Some ([r1 = MODEL_OK, uint (balance e1) = uint old_balance + uint amt,
            r2 = MODEL_OK, uint (balance e2) = uint old_balance], e2) }"

definition conservation_contract :: "(u64, BalanceEntry, bool list) contract" where
  "conservation_contract =
     \<lparr>requires_of = (\<lambda>amt e. occupied e \<and> uint amt > 0
        \<and> uint (balance e) \<le> uint UINT64_MAX - uint amt
        \<and> uint (utxo_count e) < uint UINT32_MAX),
      default_of =
        \<lparr>assumes_of = always, assigns_of = (\<lambda>amt. same_but_balance),
         ensures_of = (\<lambda>amt e asserts e'. list_all id asserts \<and> balance e' = balance e)\<rparr>,
      behaviors_of = [], complete_clause = False, disjoint_clause = False\<rparr>"

locale ledger_operations =
  credit: acsl_function ledger_credit_contract credit + debit: acsl_function ledger_debit_contract debit
  for credit debit :: "(u64, BalanceEntry, ModelError) c_function"
begin

lemma credit_fits:
  assumes "occupied e" "0 < uint amt" "uint (utxo_count e) < uint UINT32_MAX"
    and "uint (balance e) \<le> uint UINT64_MAX - uint amt"
  obtains e1 where "credit amt e = Some (MODEL_OK, e1)" "same_but_balance e e1"
    "uint (balance e1) = uint (balance e) + uint amt"
  using credit.behaves [of amt e "behaviors_of ledger_credit_contract ! 1"] assms
  by (auto simp: ledger_credit_contract_def)

lemma debit_fits:
  assumes "occupied e" "0 < uint amt" "uint (balance e) \<ge> uint amt"
  obtains e1 where "debit amt e = Some (MODEL_OK, e1)" "same_but_balance e e1"
    "uint (balance e1) = uint (balance e) - uint amt"
  using debit.behaves [of amt e "behaviors_of ledger_debit_contract ! 1"] assms
  by (auto simp: ledger_debit_contract_def)

lemma conservation: "proves conservation_contract (conservation_with credit debit)"
proof (rule provesI)
  fix amt :: u64 and e
  assume "requires_of conservation_contract amt e"
  then have req: "occupied e" "0 < uint amt" "uint (utxo_count e) < uint UINT32_MAX"
    "uint (balance e) \<le> uint UINT64_MAX - uint amt"
    by (simp_all add: conservation_contract_def)
  obtain e1 where e1: "credit amt e = Some (MODEL_OK, e1)" "same_but_balance e e1"
    "uint (balance e1) = uint (balance e) + uint amt"
    using credit_fits [OF req] .
  have "occupied e1" using e1(2) req(1) by (metis BalanceEntry.select_convs(3) BalanceEntry.surjective
        BalanceEntry.update_convs(1,2) same_but_balance_def)
  moreover have "uint amt \<le> uint (balance e1)" using e1(3) by simp
  ultimately obtain e2 where e2: "debit amt e1 = Some (MODEL_OK, e2)" "same_but_balance e1 e2"
    "uint (balance e2) = uint (balance e1) - uint amt"
    using debit_fits [of e1 amt] req(2) by blast
  have "same_but_balance e e2"
    using e1(2) e2(2) unfolding same_but_balance_def by (cases e; cases e1; cases e2) simp
  then show "meets_at conservation_contract (conservation_with credit debit) amt e"
    using e1 e2 by (simp add: conservation_contract_def conservation_with_def acsl word_uint_eq_iff)
qed (simp_all add: conservation_contract_def)

end

interpretation ledger_calls: ledger_operations credit_function debit_function
  by unfold_locales (rule credit_correct debit_correct)+

subsection \<open>Votes\<close>

definition pk_equal_function :: "(bytes \<times> bytes, unit, bool) c_function" where
  "pk_equal_function = (\<lambda>(a, b) s. map_option (\<lambda>r. (r, s)) (pk_equal a b))"

definition pk_equal_contract :: "(bytes \<times> bytes, unit, bool) contract" where
  "pk_equal_contract =
     pure_contract
       (\<lambda>(a, b). GOV_PK_HASH_SIZE \<le> length a \<and> GOV_PK_HASH_SIZE \<le> length b)
       (\<lambda>_ _. True)
       [(\<lambda>(a, b). \<forall>k < GOV_PK_HASH_SIZE. a ! k = b ! k, \<lambda>(a, b) r. r = True),
        (\<lambda>(a, b). \<exists>k < GOV_PK_HASH_SIZE. a ! k \<noteq> b ! k, \<lambda>(a, b) r. r = False)] True"

text \<open>\<open>has_voted\<close> over the function it compares keys with; a vote holds the 32 bytes of its key.\<close>

fun has_voted_loop_with ::
  "(bytes \<times> bytes, unit, bool) c_function \<Rightarrow> nat list \<Rightarrow> GovProposal \<Rightarrow> bytes \<Rightarrow> bool option" where
  "has_voted_loop_with eq [] p pk_hash = Some False"
| "has_voted_loop_with eq (i # is) p pk_hash = do {
     v \<leftarrow> nth_opt (votes p) i;
     (same, s) \<leftarrow> eq (voter_pk_hash v, pk_hash) ();
     (if same then Some True else has_voted_loop_with eq is p pk_hash) }"

definition has_voted_with ::
  "(bytes \<times> bytes, unit, bool) c_function \<Rightarrow> (GovProposal \<times> bytes, unit, bool) c_function" where
  "has_voted_with eq = (\<lambda>(p, pk_hash) s.
     map_option (\<lambda>r. (r, s)) (has_voted_loop_with eq [0..<vote_count p] p pk_hash))"

definition has_voted_contract :: "(GovProposal \<times> bytes, unit, bool) contract" where
  "has_voted_contract =
     pure_contract
       (\<lambda>(p, pk_hash). proposal_readable p \<and> vote_count p \<le> vote_capacity p \<and> vote_count p > 0
          \<and> GOV_PK_HASH_SIZE \<le> length pk_hash)
       (\<lambda>_ _. True)
       [(\<lambda>(p, pk_hash). \<exists>i < vote_count p. \<forall>k < GOV_PK_HASH_SIZE.
           voter_pk_hash (votes p ! i) ! k = pk_hash ! k, \<lambda>_ r. r = True),
        (\<lambda>(p, pk_hash). \<forall>i < vote_count p. \<exists>k < GOV_PK_HASH_SIZE.
           voter_pk_hash (votes p ! i) ! k \<noteq> pk_hash ! k, \<lambda>_ r. r = False)] True"

lemma pk_equal_correct: "proves pk_equal_contract pk_equal_function"
  by (rule provesI)
    (auto simp: pk_equal_contract_def pk_equal_function_def acsl pk_equal_eq list_eq_iff_nth_eq)

locale key_comparison = acsl_function pk_equal_contract eq
  for eq :: "(bytes \<times> bytes, unit, bool) c_function"
begin

lemma compares:
  assumes "GOV_PK_HASH_SIZE \<le> length a" "GOV_PK_HASH_SIZE \<le> length b"
  shows "eq (a, b) () = Some (\<forall>k < GOV_PK_HASH_SIZE. a ! k = b ! k, ())"
proof -
  have req: "requires_of pk_equal_contract (a, b) ()"
    using assms by (simp add: pk_equal_contract_def pure_contract_def)
  obtain r where r: "eq (a, b) () = Some (r, ())" "\<forall>c \<in> set (behaviors_of pk_equal_contract).
      obeys c (a, b) () r ()"
    by (rule returns [OF req]) simp
  have "r = (\<forall>k < GOV_PK_HASH_SIZE. a ! k = b ! k)"
    using r(2) by (simp add: pk_equal_contract_def pure_contract_def pure_behavior_def obeys_def) metis
  then show ?thesis using r(1) by simp
qed

lemma has_voted_loop_with_eq:
  assumes "GOV_PK_HASH_SIZE \<le> length pk"
    and "\<forall>i \<in> set is. i < length (votes p) \<and> GOV_PK_HASH_SIZE \<le> length (voter_pk_hash (votes p ! i))"
  shows "has_voted_loop_with eq is p pk = Some (\<exists>i \<in> set is. \<forall>k < GOV_PK_HASH_SIZE.
      voter_pk_hash (votes p ! i) ! k = pk ! k)"
  using assms(2) by (induction "is") (auto simp: compares [OF _ assms(1)])

lemma has_voted_contract_met: "proves has_voted_contract (has_voted_with eq)"
proof (rule provesI)
  fix i :: "GovProposal \<times> bytes" and s :: unit
  assume "requires_of has_voted_contract i s"
  then obtain p pk where i: "i = (p, pk)" "proposal_readable p" "GOV_PK_HASH_SIZE \<le> length pk"
    by (auto simp: has_voted_contract_def pure_contract_def)
  have "\<forall>j \<in> set [0..<vote_count p].
      j < length (votes p) \<and> GOV_PK_HASH_SIZE \<le> length (voter_pk_hash (votes p ! j))"
    using i(2) nth_mem [of _ "take (vote_count p) (votes p)"] by (simp add: proposal_readable_def)
  from has_voted_loop_with_eq [OF i(3) this]
  show "meets_at has_voted_contract (has_voted_with eq) i s"
    by (auto simp: i(1) has_voted_contract_def has_voted_with_def acsl)
qed (auto simp: has_voted_contract_def acsl)

end

interpretation gov_keys: key_comparison pk_equal_function
  by unfold_locales (rule pk_equal_correct)

lemma has_voted_with_pk_equal:
  "has_voted_with pk_equal_function (p, pk) () = map_option (\<lambda>r. (r, ())) (has_voted p pk)"
proof -
  have "has_voted_loop_with pk_equal_function is p pk = has_voted_loop is p pk" for "is"
    by (induction "is" p pk rule: has_voted_loop.induct)
      (auto simp: pk_equal_function_def intro!: bind_option_cong split: Option.bind_splits)
  then show ?thesis by (simp add: has_voted_with_def has_voted_def)
qed

text \<open>The assertion at the start of the body: no answer where it fails.\<close>

definition accumulate_function :: "(int \<times> u64, GovProposal, unit) c_function" where
  "accumulate_function = (\<lambda>(choice, weight) p.
     if choice = 0 \<or> choice = 1 \<or> choice = 2 then Some ((), accumulate_vote choice weight p) else None)"

definition accumulate_contract :: "(int \<times> u64, GovProposal, unit) contract" where
  "accumulate_contract =
     \<lparr>requires_of = (\<lambda>(choice, weight) p. choice \<in> {GOV_VOTE_FOR, GOV_VOTE_AGAINST, GOV_VOTE_ABSTAIN}
        \<and> uint weight > 0),
      default_of = no_default,
      behaviors_of =
        [\<lparr>assumes_of = (\<lambda>(choice, weight) p. choice = GOV_VOTE_FOR
            \<and> uint (votes_for p) \<le> uint UINT64_MAX - uint weight),
          assigns_of = (\<lambda>_ p p'. p' = p\<lparr>votes_for := votes_for p'\<rparr>),
          ensures_of = (\<lambda>(choice, weight) p _ p'. uint (votes_for p') = uint (votes_for p) + uint weight
            \<and> votes_against p' = votes_against p \<and> votes_abstain p' = votes_abstain p)\<rparr>,
         \<lparr>assumes_of = (\<lambda>(choice, weight) p. choice = GOV_VOTE_AGAINST
            \<and> uint (votes_against p) \<le> uint UINT64_MAX - uint weight),
          assigns_of = (\<lambda>_ p p'. p' = p\<lparr>votes_against := votes_against p'\<rparr>),
          ensures_of = (\<lambda>(choice, weight) p _ p'. uint (votes_against p') = uint (votes_against p) + uint weight
            \<and> votes_for p' = votes_for p \<and> votes_abstain p' = votes_abstain p)\<rparr>,
         \<lparr>assumes_of = (\<lambda>(choice, weight) p. choice = GOV_VOTE_ABSTAIN
            \<and> uint (votes_abstain p) \<le> uint UINT64_MAX - uint weight),
          assigns_of = (\<lambda>_ p p'. p' = p\<lparr>votes_abstain := votes_abstain p'\<rparr>),
          ensures_of = (\<lambda>(choice, weight) p _ p'. uint (votes_abstain p') = uint (votes_abstain p) + uint weight
            \<and> votes_for p' = votes_for p \<and> votes_against p' = votes_against p)\<rparr>],
      complete_clause = False, disjoint_clause = True\<rparr>"

definition quorum_contract :: "(u64 \<times> u64, unit, bool) contract" where
  "quorum_contract =
     pure_contract (\<lambda>(total_votes, stake). uint stake > 0)
       (\<lambda>(total_votes, stake) r. (r = True) = (uint total_votes \<ge> uint stake div 10 + 1)) [] False"

definition approval_contract :: "(u64 \<times> u64, unit, bool) contract" where
  "approval_contract =
     pure_contract
       (\<lambda>(for_votes, total_votes). uint total_votes > 0 \<and> uint for_votes \<le> uint total_votes
          \<and> uint total_votes \<le> uint UINT64_MAX div 100)
       (\<lambda>(for_votes, total_votes) r. (r = True) = (100 * uint for_votes \<ge> 67 * uint total_votes)) [] False"

lemma accumulate_correct: "proves accumulate_contract accumulate_function"
  by (rule provesI)
    (auto simp: accumulate_contract_def accumulate_function_def accumulate_vote_def acsl vote_codes
      uint_add_fits)

lemma quorum_correct: "proves quorum_contract (pure (\<lambda>(v, s). gov_quorum_reached v s))"
  unfolding quorum_contract_def
  by (rule proves_pureI)
    (auto simp: gov_quorum_exact uint_nat zdiv_int [of _ 10, simplified, symmetric] simp del: of_nat_unat)

lemma approval_correct: "proves approval_contract (pure (\<lambda>(f, t). approval_reached f t))"
  unfolding approval_contract_def
proof (rule proves_pureI)
  fix i :: "u64 \<times> u64"
  obtain f t where i: "i = (f, t)" by (cases i)
  assume "case i of (f, t) \<Rightarrow> uint t > 0 \<and> uint f \<le> uint t \<and> uint t \<le> uint UINT64_MAX div 100"
  then have "unat t * 100 < 2 ^ 64" "unat f \<le> unat t" "0 < unat t"
    by (simp_all add: i uint_nat_le uint_nat unat_UINT64_MAX unat_gt_0 del: of_nat_unat)
  moreover have "(67 * int n \<le> 100 * int m) = (67 * n \<le> 100 * m)" for n m by arith
  ultimately have "approval_reached f t = (67 * uint t \<le> 100 * uint f)"
    by (simp add: approval_exact uint_nat del: of_nat_unat)
  then show "(case i of (f, t) \<Rightarrow> \<lambda>r. (r = True) = (100 * uint f \<ge> 67 * uint t))
      (case i of (f, t) \<Rightarrow> approval_reached f t)
    \<and> list_all (\<lambda>b. fst b i \<longrightarrow> snd b i (case i of (f, t) \<Rightarrow> approval_reached f t)) []"
    by (simp add: i)
qed simp

subsection \<open>Outputs\<close>

definition wp_set_valid :: "WpUTXOSet \<Rightarrow> bool" where
  "wp_set_valid s \<longleftrightarrow> (\<exists>es \<in> set_option (wp_entries s). unat (wp_count s) \<le> length es)"

definition spent_at :: "WpUTXOSet \<Rightarrow> u32 \<Rightarrow> int" where
  "spent_at s i = wp_spent (the (wp_entries s) ! unat i)"

definition assigns_spent :: "u32 \<Rightarrow> WpUTXOSet \<Rightarrow> WpUTXOSet \<Rightarrow> bool" where
  "assigns_spent i s s' \<longleftrightarrow> s' = s\<lparr>wp_entries := map_option
     (\<lambda>es. es[unat i := (es ! unat i)\<lparr>wp_spent := spent_at s' i\<rparr>]) (wp_entries s)\<rparr>"

definition utxo_mark_spent_contract :: "(u32, WpUTXOSet, int) contract" where
  "utxo_mark_spent_contract =
     \<lparr>requires_of = (\<lambda>idx s. uint (wp_count s) > 0 \<and> wp_count s \<le> wp_capacity s \<and> wp_set_valid s
        \<and> idx < wp_count s),
      default_of =
        \<lparr>assumes_of = always, assigns_of = assigns_spent, ensures_of = (\<lambda>idx s r s'. True)\<rparr>,
      behaviors_of =
        [\<lparr>assumes_of = (\<lambda>idx s. spent_at s idx \<noteq> 0),
          assigns_of = assigns_nothing,
          ensures_of = (\<lambda>idx s r s'. r = -200 \<and> spent_at s' idx = spent_at s idx)\<rparr>,
         \<lparr>assumes_of = (\<lambda>idx s. spent_at s idx = 0),
          assigns_of = assigns_spent,
          ensures_of = (\<lambda>idx s r s'. r = 0 \<and> spent_at s' idx = 1)\<rparr>],
      complete_clause = True, disjoint_clause = True\<rparr>"

definition mark_spent_function :: "(u32, WpUTXOSet, int) c_function" where
  "mark_spent_function idx s = wp_utxo_mark_spent_model s idx"

definition spend_isolation_contract :: "(u32 \<times> u32, WpUTXOSet, int) contract" where
  "spend_isolation_contract =
     \<lparr>requires_of = (\<lambda>(idx1, idx2) s. uint (wp_count s) \<ge> 2 \<and> wp_count s \<le> wp_capacity s
        \<and> wp_set_valid s \<and> idx1 < wp_count s \<and> idx2 < wp_count s \<and> idx1 \<noteq> idx2),
      default_of =
        \<lparr>assumes_of = always, assigns_of = (\<lambda>(idx1, idx2). assigns_spent idx1),
         ensures_of = (\<lambda>(idx1, idx2) s r s'. spent_at s' idx2 = spent_at s idx2
           \<and> wp_amount (the (wp_entries s') ! unat idx2) = wp_amount (the (wp_entries s) ! unat idx2))\<rparr>,
      behaviors_of = [], complete_clause = False, disjoint_clause = False\<rparr>"

text \<open>\<open>utxo_spend_isolation\<close> over the function it calls.\<close>

definition isolation_with :: "(u32, WpUTXOSet, int) c_function \<Rightarrow> (u32 \<times> u32, WpUTXOSet, int) c_function" where
  "isolation_with mark = (\<lambda>(idx1, idx2) s. mark idx1 s)"

lemma mark_spent_correct: "proves utxo_mark_spent_contract mark_spent_function"
  by (rule provesI)
    (auto simp: utxo_mark_spent_contract_def mark_spent_function_def wp_utxo_mark_spent_model_def
      wp_mark_def acsl wp_set_valid_def spent_at_def assigns_spent_def nth_opt_def word_less_nat_alt)

lemma assigns_spent_elsewhere:
  assumes "assigns_spent i s s'" "wp_entries s = Some es" "unat i \<noteq> unat j"
  shows "the (wp_entries s') ! unat j = es ! unat j"
proof -
  obtain n where "s' = s\<lparr>wp_entries := map_option
      (\<lambda>es. es[unat i := (es ! unat i)\<lparr>wp_spent := n\<rparr>]) (wp_entries s)\<rparr>"
    using assms(1) unfolding assigns_spent_def by blast
  then show ?thesis using assms(2,3) by simp
qed

locale spending = acsl_function utxo_mark_spent_contract mark
  for mark :: "(u32, WpUTXOSet, int) c_function"
begin

lemma isolates: "proves spend_isolation_contract (isolation_with mark)"
proof (rule provesI)
  fix i :: "u32 \<times> u32" and s
  assume req: "requires_of spend_isolation_contract i s"
  obtain idx1 idx2 where i: "i = (idx1, idx2)" by (cases i)
  have "requires_of utxo_mark_spent_contract idx1 s"
    using req by (auto simp: i spend_isolation_contract_def utxo_mark_spent_contract_def)
  then obtain r s' where mark: "mark idx1 s = Some (r, s')" "assigns_spent idx1 s s'"
    by (rule returns) (auto simp: utxo_mark_spent_contract_def obeys_def always_def)
  have "unat idx1 \<noteq> unat idx2" "\<exists>es. wp_entries s = Some es"
    using req by (auto simp: i spend_isolation_contract_def wp_set_valid_def word_unat_eq_iff)
  then have "the (wp_entries s') ! unat idx2 = the (wp_entries s) ! unat idx2"
    using assigns_spent_elsewhere [OF mark(2)] by (metis option.sel)
  then show "meets_at spend_isolation_contract (isolation_with mark) i s"
    using mark by (simp add: i spend_isolation_contract_def isolation_with_def acsl spent_at_def)
qed (simp_all add: spend_isolation_contract_def)

end

interpretation utxo_calls: spending mark_spent_function
  by unfold_locales (rule mark_spent_correct)

lemma isolation_with_mark: "isolation_with mark_spent_function (i, j) s = utxo_spend_isolation s i j"
  by (simp add: isolation_with_def mark_spent_function_def utxo_spend_isolation_def)

text \<open>The wrapper has no precondition; its set may be NULL or its entries too short.\<close>

definition mark_spent_safe_function :: "(u32, WpUTXOSet option, int) c_function" where
  "mark_spent_safe_function idx uset = utxo_mark_spent_safe uset idx"

definition mark_spent_safe_contract :: "(u32, WpUTXOSet option, int) contract" where
  "mark_spent_safe_contract =
     \<lparr>requires_of = always, default_of = no_default,
      behaviors_of =
        [\<lparr>assumes_of = (\<lambda>idx uset. uset = None),
          assigns_of = assigns_nothing, ensures_of = (\<lambda>idx uset r uset'. r = -200)\<rparr>,
         \<lparr>assumes_of = (\<lambda>idx uset. \<exists>s \<in> set_option uset. wp_entries s \<noteq> None \<and> idx \<ge> wp_count s),
          assigns_of = assigns_nothing, ensures_of = (\<lambda>idx uset r uset'. r = -200)\<rparr>,
         \<lparr>assumes_of = (\<lambda>idx uset. \<exists>s \<in> set_option uset. wp_entries s \<noteq> None \<and> uint (wp_count s) > 0
            \<and> idx < wp_count s \<and> wp_set_valid s \<and> spent_at s idx = 0),
          assigns_of = (\<lambda>idx uset uset'. \<exists>s \<in> set_option uset. \<exists>s' \<in> set_option uset'. assigns_spent idx s s'),
          ensures_of = (\<lambda>idx uset r uset'. r = 0 \<and> (\<exists>s' \<in> set_option uset'. spent_at s' idx = 1))\<rparr>,
         \<lparr>assumes_of = (\<lambda>idx uset. \<exists>s \<in> set_option uset. wp_entries s \<noteq> None \<and> uint (wp_count s) > 0
            \<and> idx < wp_count s \<and> wp_set_valid s \<and> spent_at s idx \<noteq> 0),
          assigns_of = assigns_nothing, ensures_of = (\<lambda>idx uset r uset'. r = -200)\<rparr>],
      complete_clause = False, disjoint_clause = False\<rparr>"

text \<open>It needs the entries it may read to be there, which the contract does not ask for.\<close>

definition entries_readable :: "u32 \<Rightarrow> WpUTXOSet option \<Rightarrow> bool" where
  "entries_readable idx uset \<longleftrightarrow> (\<forall>s \<in> set_option uset. \<forall>es \<in> set_option (wp_entries s).
     idx < wp_count s \<longrightarrow> unat idx < length es)"

lemma mark_spent_safe_correct:
  "proves (mark_spent_safe_contract\<lparr>requires_of := entries_readable\<rparr>) mark_spent_safe_function"
  by (rule provesI)
    (auto simp: mark_spent_safe_contract_def mark_spent_safe_function_def utxo_mark_spent_safe_def
      wp_mark_def acsl entries_readable_def wp_set_valid_def spent_at_def assigns_spent_def nth_opt_def
      word_less_nat_alt word_le_nat_alt not_le split: option.splits)

text \<open>
  The contract as the file has it, without \<open>requires\<close>: the function is undefined on a
  non-NULL set with fewer entries than its count says.
\<close>

lemma mark_spent_safe_undefined:
  "mark_spent_safe_function idx uset = None \<longleftrightarrow> \<not> entries_readable idx uset"
  by (auto simp: mark_spent_safe_function_def utxo_mark_spent_safe_def wp_mark_def entries_readable_def
      nth_opt_def not_le split: option.splits)

lemma mark_spent_safe_fails: "\<not> proves mark_spent_safe_contract mark_spent_safe_function"
proof -
  let ?set = "Some \<lparr>wp_entries = Some [], wp_count = 1, wp_capacity = 1\<rparr> :: WpUTXOSet option"
  have "requires_of mark_spent_safe_contract 0 ?set" by (simp add: mark_spent_safe_contract_def always_def)
  moreover have "mark_spent_safe_function 0 ?set = None"
    unfolding mark_spent_safe_undefined by (simp add: entries_readable_def)
  then have "\<not> meets_at mark_spent_safe_contract mark_spent_safe_function 0 ?set"
    by (simp add: meets_at_def)
  ultimately show ?thesis unfolding proves_def by blast
qed

end
