(* ===== verification/WpMigration.thy ===== *)
theory WpMigration
  imports Acsl Consensus Migration EvaHarness
begin

text \<open>
  The contracts of \<open>verification/framac/wp_consensus.c\<close>, \<open>wp_pqc_migration.c\<close> and
  \<open>wp_pqc_wal.c\<close>, translated clause by clause, and the proofs that the functions meet them.
  Three comments of these files that begin with \<open>src/pqc_crypto.c\<close> are not closed on their
  line: they hide the state constants (line 20 of \<open>wp_pqc_migration.c\<close>, line 25 of
  \<open>wp_pqc_wal.c\<close>) and the contract of \<open>get_leader_for_view\<close> (line 48 of \<open>wp_consensus.c\<close>). The
  constants are taken as they are written there.
\<close>

subsection \<open>Quorum and leader\<close>

definition bft_quorum_contract :: "(u32, unit, u32) contract" where
  "bft_quorum_contract =
     pure_contract (\<lambda>_. True) (\<lambda>_ _. True)
       [(\<lambda>n. uint n \<le> 1, \<lambda>n r. uint r = 1),
        (\<lambda>n. uint n \<ge> 2 \<and> uint n \<le> 3, \<lambda>n r. uint r = 2),
        (\<lambda>n. uint n \<ge> 4, \<lambda>n r. uint r > 0)] True"

text \<open>
  The annotation that the open comment swallows: the function has no contract at this commit,
  and \<open>leader_contract\<close> is what the text would say if it were one.
\<close>

definition leader_contract :: "(u32 \<times> u32, unit, u32) contract" where
  "leader_contract =
     pure_contract (\<lambda>(view, n). uint n \<ge> 1 \<and> uint view \<ge> 1)
       (\<lambda>(view, n) r. uint r < uint n \<and> uint r = (uint view - 1) mod uint n) [] False"

definition leader_function :: "(u32 \<times> u32, unit, u32) c_function" where
  "leader_function = (\<lambda>(view, n) s. map_option (\<lambda>r. (r, s)) (wp_get_leader_for_view view n))"

text \<open>The assertions in the body are about integers; the answer holds them with the result.\<close>

definition supermajority_function :: "u32 \<Rightarrow> bool list \<times> u32" where
  "supermajority_function n =
     (let two_n = n * 2;
          div_val = two_n div 3;
          rem_val = two_n mod 3;
          q = div_val + 1 in
      ([uint two_n = uint n * 2, uint div_val = uint two_n div 3, uint rem_val = uint two_n mod 3,
        uint rem_val \<le> 2, uint two_n = 3 * uint div_val + uint rem_val,
        3 * uint q = 3 * uint div_val + 3, 3 * uint q = uint two_n - uint rem_val + 3,
        3 * uint q \<ge> uint two_n + 1, 3 * uint q > 2 * uint n, uint q \<le> uint n], q))"

definition supermajority_contract :: "(u32, unit, bool list \<times> u32) contract" where
  "supermajority_contract =
     pure_contract (\<lambda>n. uint n \<ge> 4 \<and> uint n \<le> 256)
       (\<lambda>n (asserts, r). list_all id asserts \<and> uint r > 0 \<and> uint r \<le> uint n \<and> 3 * uint r > 2 * uint n)
       [] False"

lemma bft_quorum_contract_met: "proves bft_quorum_contract (pure wp_bft_quorum)"
  unfolding bft_quorum_contract_def
proof (rule proves_pureI)
  fix n :: u32
  have "uint (n * 2 div 3 + 1) \<noteq> 0"
  proof -
    have "unat (n * 2) div 3 < 2 ^ 32 - 1" using unsigned_less [of "n * 2", where 'a = nat] by simp
    then have "unat (n * 2 div 3 + 1) = unat (n * 2) div 3 + 1" by (simp add: unat_word_ariths unat_div)
    then show ?thesis by (simp add: uint_nat del: of_nat_unat)
  qed
  then have "0 < uint (n * 2 div 3 + 1)" using unsigned_greater_eq [of "n * 2 div 3 + 1", where 'a = int] by linarith
  then show "True \<and> list_all (\<lambda>b. fst b n \<longrightarrow> snd b n (wp_bft_quorum n))
      [(\<lambda>n. uint n \<le> 1, \<lambda>n r. uint r = 1),
        (\<lambda>n. uint n \<ge> 2 \<and> uint n \<le> 3, \<lambda>n r. uint r = 2),
        (\<lambda>n. uint n \<ge> 4, \<lambda>n r. uint r > 0)]"
    by (simp add: wp_bft_quorum_def word_le_def)
qed auto

lemma leader_contract_met: "proves leader_contract leader_function"
proof (rule provesI)
  fix i :: "u32 \<times> u32" and s :: unit
  obtain v n where i: "i = (v, n)" by (cases i)
  assume "requires_of leader_contract i s"
  then have "n \<noteq> 0" "uint (v - 1) = uint v - 1"
    using uint_sub_fits [of 1 v] by (auto simp: i leader_contract_def pure_contract_def)
  then show "meets_at leader_contract leader_function i s"
    using uint_less_mod [of n "v - 1"]
    by (simp add: i leader_contract_def leader_function_def wp_get_leader_for_view_def acsl uint_mod)
qed (simp_all add: leader_contract_def pure_contract_def)

text \<open>Without that contract the function divides by zero.\<close>

lemma leader_undefined: "leader_function (v, n) s = None \<longleftrightarrow> n = 0"
  by (simp add: leader_function_def wp_get_leader_for_view_def)

lemma supermajority_contract_met: "proves supermajority_contract (pure supermajority_function)"
  unfolding supermajority_contract_def
proof (rule proves_pureI)
  fix n :: u32
  assume n: "4 \<le> uint n \<and> uint n \<le> 256"
  obtain k where k: "uint n = k" "4 \<le> k" "k \<le> 256" using n by simp
  have two: "uint (n * 2) = 2 * k" using k by (simp add: uint_word_ariths)
  then have d: "uint (n * 2 div 3) = 2 * k div 3" and r: "uint (n * 2 mod 3) = 2 * k mod 3"
    by (simp_all add: uint_div uint_mod)
  have "2 * k div 3 \<le> 256" "0 \<le> 2 * k div 3" using k by simp_all
  then have q: "uint (n * 2 div 3 + 1) = 2 * k div 3 + 1" using d by (simp add: uint_word_ariths)
  have "2 * k = 3 * (2 * k div 3) + 2 * k mod 3" "0 \<le> 2 * k mod 3" "2 * k mod 3 \<le> 2" by presburger+
  then obtain e m where em: "2 * k div 3 = e" "2 * k mod 3 = m" "2 * k = 3 * e + m" "0 \<le> m" "m \<le> 2"
    by blast
  show "(case supermajority_function n of (asserts, r) \<Rightarrow>
      list_all id asserts \<and> uint r > 0 \<and> uint r \<le> uint n \<and> 3 * uint r > 2 * uint n) \<and> list_all
      (\<lambda>b. fst b n \<longrightarrow> snd b n (supermajority_function n)) []"
    using k(2) em(3-5) by (simp add: supermajority_function_def two d r q k(1) em(1,2))
qed simp

subsection \<open>Guards and keys of the migration\<close>

text \<open>The precondition of the guards, and the contracts that are a case for each state.\<close>

definition state_in_range :: "int \<Rightarrow> bool" where
  "state_in_range state \<longleftrightarrow> state \<ge> 0 \<and> state \<le> 3"

definition case_of :: "byte \<Rightarrow> int \<Rightarrow> (int \<Rightarrow> bool) \<times> (int \<Rightarrow> int \<Rightarrow> bool)" where
  "case_of code answer = (\<lambda>state. state = uint code, \<lambda>state r. r = answer)"

definition begin_contract :: "(int, unit, int) contract" where
  "begin_contract =
     pure_contract state_in_range (\<lambda>_ _. True)
       [case_of MIGRATION_CLASSICAL 1,
        (\<lambda>state. state \<noteq> uint MIGRATION_CLASSICAL, \<lambda>state r. r = 0)] True"

definition finalize_contract :: "(int, unit, int) contract" where
  "finalize_contract =
     pure_contract state_in_range (\<lambda>_ _. True)
       [case_of MIGRATION_HYBRID 1, case_of MIGRATION_FINALIZING 1,
        (\<lambda>state. state \<noteq> uint MIGRATION_HYBRID \<and> state \<noteq> uint MIGRATION_FINALIZING,
         \<lambda>state r. r = 0)] True"

definition rollback_contract :: "(int, unit, int) contract" where
  "rollback_contract =
     pure_contract state_in_range (\<lambda>_ _. True)
       [case_of MIGRATION_HYBRID 1, case_of MIGRATION_FINALIZING 1,
        case_of MIGRATION_CLASSICAL 0, case_of MIGRATION_PQC_ONLY 0] True"

definition classical_key_contract :: "(int, unit, int) contract" where
  "classical_key_contract =
     pure_contract state_in_range (\<lambda>_ _. True)
       [case_of MIGRATION_CLASSICAL 1, case_of MIGRATION_HYBRID 1,
        case_of MIGRATION_FINALIZING 1, case_of MIGRATION_PQC_ONLY 0] True"

definition pqc_key_contract :: "(int, unit, int) contract" where
  "pqc_key_contract =
     pure_contract state_in_range (\<lambda>_ _. True)
       [case_of MIGRATION_CLASSICAL 0, case_of MIGRATION_HYBRID 1,
        case_of MIGRATION_FINALIZING 1, case_of MIGRATION_PQC_ONLY 1] True"

definition next_state_contract :: "(int, unit, int) contract" where
  "next_state_contract =
     pure_contract (\<lambda>state. state = uint MIGRATION_CLASSICAL)
       (\<lambda>state r. r = uint MIGRATION_HYBRID \<and> r \<noteq> uint MIGRATION_PQC_ONLY
          \<and> r \<noteq> uint MIGRATION_FINALIZING) [] False"

definition crc_data_len_contract :: "(unit, unit, nat) contract" where
  "crc_data_len_contract =
     pure_contract (\<lambda>_. True) (\<lambda>_ r. r = length (eva_wal_bytes eva_wal_zero) - 4 \<and> r > 0) [] False"

text \<open>With the two assertions on the index in the body, which hold vacuously without one.\<close>

definition find_record_function :: "int \<times> int \<Rightarrow> bool list \<times> int" where
  "find_record_function = (\<lambda>(count, target_found).
     if target_found \<noteq> 0 \<and> count > 0 then let idx = count div 2 in ([idx \<ge> 0, idx < count], idx)
     else ([], -1))"

definition find_record_contract :: "(int \<times> int, unit, bool list \<times> int) contract" where
  "find_record_contract =
     pure_contract (\<lambda>(count, _). count \<ge> 0 \<and> count \<le> uint MIGRATION_MAX_RECORDS)
       (\<lambda>(count, _) (asserts, r). list_all id asserts \<and> r \<ge> -1 \<and> (r < count \<or> r = -1)) [] False"

lemmas migration_contracts = begin_contract_def finalize_contract_def rollback_contract_def
  classical_key_contract_def pqc_key_contract_def next_state_contract_def

lemmas migration_guards = begin_migration_guard_def finalize_guard_def rollback_guard_def
  classical_key_exists_def pqc_key_exists_def next_state_from_classical_def

lemma guards_meet_contracts:
  "proves begin_contract (pure begin_migration_guard)"
  "proves finalize_contract (pure finalize_guard)"
  "proves rollback_contract (pure rollback_guard)"
  "proves classical_key_contract (pure classical_key_exists)"
  "proves pqc_key_contract (pure pqc_key_exists)"
  "proves next_state_contract (pure next_state_from_classical)"
  unfolding migration_contracts
  by (rule proves_pureI; auto simp: migration_guards migration_codes case_of_def state_in_range_def)+

lemma crc_data_len_met: "proves crc_data_len_contract (pure (\<lambda>_. wp_wal_crc_data_len))"
  unfolding crc_data_len_contract_def
  by (rule proves_pureI)
    (simp_all add: wp_wal_crc_data_len_def eva_wal_bytes_def eva_wal_zero_def eva_wal_fields_def
      MIGRATION_KEY_ID_LEN_def)

lemma find_record_met: "proves find_record_contract (pure find_record_function)"
  unfolding find_record_contract_def
  by (rule proves_pureI) (auto simp: find_record_function_def Let_def split: if_splits)

lemma find_record_versions_agree: "snd (find_record_function (c, t)) = find_record_model c t"
  by (simp add: find_record_function_def find_record_model_def Let_def)

subsection \<open>The log record\<close>

definition record_size_contract :: "(unit, unit, nat) contract" where
  "record_size_contract =
     pure_contract (\<lambda>_. True) (\<lambda>_ r. r = length (wal_bytes wal_zero) \<and> r = 101) [] False"

definition crc_length_contract :: "(unit, unit, nat) contract" where
  "crc_length_contract =
     pure_contract (\<lambda>_. True) (\<lambda>_ r. r = length (wal_bytes wal_zero) - 4 \<and> r = 97 \<and> r > 0) [] False"

definition magic_contract :: "(u64, unit, int) contract" where
  "magic_contract =
     pure_contract (\<lambda>_. True) (\<lambda>_ _. True)
       [(\<lambda>m. uint m = uint MIGRATION_WAL_MAGIC, \<lambda>m r. r = 1),
        (\<lambda>m. uint m \<noteq> uint MIGRATION_WAL_MAGIC, \<lambda>m r. r = 0)] True"

definition version_contract :: "(byte, unit, int) contract" where
  "version_contract =
     pure_contract (\<lambda>_. True) (\<lambda>_ _. True)
       [(\<lambda>v. uint v = uint MIGRATION_WAL_VERSION, \<lambda>v r. r = 1),
        (\<lambda>v. uint v \<noteq> uint MIGRATION_WAL_VERSION, \<lambda>v r. r = 0)] True"

definition operation_contract :: "(byte, unit, int) contract" where
  "operation_contract =
     pure_contract (\<lambda>op. uint op \<le> 255) (\<lambda>_ _. True)
       [(\<lambda>op. uint op \<ge> 0 \<and> uint op \<le> 5, \<lambda>op r. r = 1),
        (\<lambda>op. uint op > 5, \<lambda>op r. r = 0)] True"

definition wal_state_contract :: "(byte, unit, int) contract" where
  "wal_state_contract =
     pure_contract (\<lambda>state. uint state \<le> 255) (\<lambda>_ _. True)
       [(\<lambda>state. uint state \<ge> 0 \<and> uint state \<le> 3, \<lambda>state r. r = 1),
        (\<lambda>state. uint state > 3, \<lambda>state r. r = 0)] True"

definition key_at_step_contract :: "(int, unit, int) contract" where
  "key_at_step_contract =
     pure_contract (\<lambda>step. step \<ge> 0 \<and> step \<le> 4) (\<lambda>_ _. True)
       [(\<lambda>step. step < 2, \<lambda>step r. r = 1), (\<lambda>step. step \<ge> 2, \<lambda>step r. r = 0)] True"

definition log_at_step_contract :: "(int, unit, int) contract" where
  "log_at_step_contract =
     pure_contract (\<lambda>step. step \<ge> 0 \<and> step \<le> 4) (\<lambda>_ _. True)
       [(\<lambda>step. step < 4, \<lambda>step r. r = 0), (\<lambda>step. step \<ge> 4, \<lambda>step r. r = 1)] True"

definition erasure_contract :: "(int, unit, int) contract" where
  "erasure_contract =
     pure_contract (\<lambda>step. step \<ge> 0 \<and> step \<le> 4)
       (\<lambda>step r. (step \<ge> 2 \<and> step < 4 \<longrightarrow> r = 1) \<and> (step < 2 \<longrightarrow> r = 1) \<and> (step \<ge> 4 \<longrightarrow> r = 1))
       [] False"

definition next_seq_contract :: "(u64, unit, u64) contract" where
  "next_seq_contract =
     pure_contract (\<lambda>prev. uint prev < uint UINT64_MAX)
       (\<lambda>prev r. uint r > uint prev \<and> uint r = uint prev + 1) [] False"

definition last_field_contract :: "(unit, unit, int) contract" where
  "last_field_contract = pure_contract (\<lambda>_. True) (\<lambda>_ r. r = 1) [] False"

lemma layout_contracts_met:
  "proves record_size_contract (pure (\<lambda>_. wal_record_size))"
  "proves crc_length_contract (pure (\<lambda>_. wal_crc_data_length))"
  "proves last_field_contract (pure (\<lambda>_. wal_crc_is_last_field))"
  unfolding record_size_contract_def crc_length_contract_def last_field_contract_def
  by (rule proves_pureI;
      simp add: wal_record_size_def wal_crc_data_length_def wal_crc_is_last_field_def wal_offsetof_def
        wal_bytes_def wal_fields_def wal_zero_def MIGRATION_KEY_ID_LEN_def)+

lemma validator_contracts_met:
  "proves magic_contract (pure wal_validate_magic)"
  "proves version_contract (pure wal_validate_version)"
  "proves operation_contract (pure wal_validate_operation)"
  "proves wal_state_contract (pure wal_validate_state)"
  unfolding magic_contract_def version_contract_def operation_contract_def wal_state_contract_def
  by (rule proves_pureI;
      auto simp: wal_validate_magic_def wal_validate_version_def wal_validate_operation_def
        wal_validate_state_def word_le_def word_uint_eq_iff)+

lemma step_contracts_met:
  "proves key_at_step_contract (pure classical_key_exists_at_step)"
  "proves log_at_step_contract (pure wal_reflects_pqc_only_at_step)"
  "proves erasure_contract (pure erasure_before_wal_safe)"
  unfolding key_at_step_contract_def log_at_step_contract_def erasure_contract_def
  by (rule proves_pureI;
      simp add: classical_key_exists_at_step_def wal_reflects_pqc_only_at_step_def
        erasure_before_wal_safe_def; arith?)+

lemma next_seq_met: "proves next_seq_contract (pure wal_next_seq)"
  unfolding next_seq_contract_def
proof (rule proves_pureI)
  fix n :: u64
  assume "uint n < uint UINT64_MAX"
  then have "uint (n + 1) = uint n + 1"
    using unsigned_greater_eq [of n, where 'a = int]
    by (simp add: uint_word_ariths unsigned_minus_1_eq_mask mask_eq_exp_minus_1)
  then show "(uint (wal_next_seq n) > uint n \<and> uint (wal_next_seq n) = uint n + 1)
      \<and> list_all (\<lambda>b. fst b n \<longrightarrow> snd b n (wal_next_seq n)) []"
    by (simp add: wal_next_seq_def)
qed simp

end
