(* ===== verification/WpContracts.thy ===== *)
theory WpContracts
  imports WpLedger WpMigration Gateway
begin

text \<open>
  The contracts of \<open>verification/framac/wp_gateway.c\<close>, which the functions do not meet, with the
  exact states where they fail and a repaired contract that the filter can be verified from;
  and the verdict on the files of the analysis.
\<close>

subsection \<open>The refusal of a session\<close>

text \<open>The arrays of a session have the size of their type.\<close>

definition session_shape :: "Session \<Rightarrow> bool" where
  "session_shape s \<longleftrightarrow> length (c2u_buf s) = BUFFER_SIZE \<and> length (u2c_buf s) = BUFFER_SIZE"

definition session_requires :: "unit \<Rightarrow> Session \<Rightarrow> bool" where
  "session_requires i s \<longleftrightarrow> session_shape s
     \<and> 0 \<le> c2u_len s \<and> c2u_len s \<le> int BUFFER_SIZE \<and> 0 \<le> u2c_len s \<and> u2c_len s \<le> int BUFFER_SIZE"

text \<open>What may change, with the range of indices of the response buffer.\<close>

definition assigns_session :: "(int \<Rightarrow> bool) \<Rightarrow> Session \<Rightarrow> Session \<Rightarrow> bool" where
  "assigns_session within s s' \<longleftrightarrow>
     c_fd s' = c_fd s \<and> c2u_buf s' = c2u_buf s \<and> c2u_len s' = c2u_len s
     \<and> length (u2c_buf s') = length (u2c_buf s)
     \<and> (\<forall>k < length (u2c_buf s). \<not> within (int k) \<longrightarrow> u2c_buf s' ! k = u2c_buf s ! k)"

definition send_403_contract :: "(unit, Session, unit) contract" where
  "send_403_contract =
     \<lparr>requires_of = session_requires,
      default_of =
        \<lparr>assumes_of = always,
         assigns_of = (\<lambda>i s. assigns_session (\<lambda>k. u2c_len s \<le> k \<and> k \<le> u2c_len s + 70) s),
         ensures_of = (\<lambda>i s r s'. sess_state s' = SESS_DRAINING \<and> u_fd s' = -1
           \<and> u2c_len s' \<le> int BUFFER_SIZE)\<rparr>,
      behaviors_of = [], complete_clause = False, disjoint_clause = False\<rparr>"

definition send_function :: "nat \<Rightarrow> (unit, Session, unit) c_function" where
  "send_function err_len i s = map_option (\<lambda>s'. ((), s')) (send_403_with err_len s)"

definition handle_contract :: "(unit, Session, unit) contract" where
  "handle_contract =
     \<lparr>requires_of = session_requires,
      default_of =
        \<lparr>assumes_of = always,
         assigns_of = (\<lambda>i. assigns_session (\<lambda>k. 0 \<le> k \<and> k \<le> int BUFFER_SIZE - 1)),
         ensures_of = (\<lambda>i s r s'. True)\<rparr>,
      behaviors_of = [], complete_clause = False, disjoint_clause = False\<rparr>"

text \<open>\<open>handle_client_in_mock\<close> over the function it calls.\<close>

definition handle_with :: "(unit, Session, unit) c_function \<Rightarrow> (unit, Session, unit) c_function" where
  "handle_with send i s = do {
     is_get \<leftarrow> match_from (c2u_buf s) 0 GET_VERB True;
     is_post \<leftarrow> match_from (c2u_buf s) 0 POST_VERB True;
     s' \<leftarrow> (if c2u_len s > 4 \<and> (is_get \<or> is_post)
           then inspect (\<lambda>s. map_option snd (send () s)) s else Some s);
     Some ((), s') }"

lemma handle_with_send:
  "handle_with (send_function 69) () s = map_option (\<lambda>s'. ((), s')) (wp_handle_client_in_mock s)"
proof -
  have "(\<lambda>s. map_option snd (send_function 69 () s)) = wp_send_403_forbidden"
    by (simp add: fun_eq_iff send_function_def wp_send_403_forbidden_def option.map_comp comp_def
        option.map_ident)
  then show ?thesis
    unfolding handle_with_def wp_handle_client_in_mock_def
    by (simp only: map_conv_bind_option bind_assoc comp_def)
qed

subsection \<open>Where the contract holds\<close>

lemma prefix_or_same:
  assumes "n \<le> length r" "n \<le> length b"
  shows "(\<forall>k < length b. k < m \<longrightarrow> (take n r @ drop n b) ! k = b ! k)
    \<longleftrightarrow> take (min n m) b = take (min n m) r"
proof -
  have "(take n r @ drop n b) ! k = (if k < n then r ! k else b ! k)" if "k < length b" for k
    using assms that by (auto simp: nth_append)
  then show ?thesis
    using assms by (auto simp: list_eq_iff_nth_eq)
qed

text \<open>
  The response of \<open>n\<close> bytes goes to the start of the buffer, but the frame starts at the old
  length; and a session without a server connection keeps its descriptor.
\<close>

lemma send_403_meets_at:
  assumes "session_requires () s" "n \<le> 64"
  shows "meets_at send_403_contract (send_function n) () s \<longleftrightarrow>
    (u_fd s > 0 \<or> u_fd s = -1)
    \<and> take (min n (nat (u2c_len s))) (u2c_buf s) = take (min n (nat (u2c_len s))) err403"
proof -
  let ?s' = "s\<lparr>u_fd := (if u_fd s > 0 then -1 else u_fd s), u2c_len := int n,
            u2c_buf := take n err403 @ drop n (u2c_buf s), sess_state := SESS_DRAINING\<rparr>"
  have len: "length (u2c_buf s) = BUFFER_SIZE" "0 \<le> u2c_len s"
    using assms(1) by (simp_all add: session_requires_def session_shape_def)
  have n: "n \<le> length err403" "n \<le> length (u2c_buf s)" "int n \<le> int BUFFER_SIZE"
    using assms(2) len by (simp_all add: BUFFER_SIZE_def)
  have run: "send_function n () s = Some ((), ?s')"
    using send_403_eq [OF len(1) assms(2)] by (simp add: send_function_def)
  have beyond: "(take n err403 @ drop n (u2c_buf s)) ! k = u2c_buf s ! k"
    if "k < length (u2c_buf s)" "n \<le> k" for k
    using n that by (simp add: nth_append)
  have "assigns_session (\<lambda>k. u2c_len s \<le> k \<and> k \<le> u2c_len s + 70) s ?s' \<longleftrightarrow>
      (\<forall>k < length (u2c_buf s). k < nat (u2c_len s) \<longrightarrow>
        (take n err403 @ drop n (u2c_buf s)) ! k = u2c_buf s ! k)"
    using n len beyond assms(2) by (auto simp: assigns_session_def)
  also have "\<dots> \<longleftrightarrow> take (min n (nat (u2c_len s))) (u2c_buf s) = take (min n (nat (u2c_len s))) err403"
    by (rule prefix_or_same [OF n(1,2)])
  finally show ?thesis
    using n(3) by (auto simp: meets_at_def run send_403_contract_def obeys_def always_def)
qed

lemma send_403_never_meets:
  "65 < n \<Longrightarrow> n < BUFFER_SIZE \<Longrightarrow> \<not> meets_at send_403_contract (send_function n) () s"
  by (simp add: meets_at_def send_function_def send_403_overrun)

subsection \<open>A contract that does hold\<close>

text \<open>
  With the response of 64 bytes that \<open>eva_gateway.c\<close> sends, the descriptor not positive and the
  frame at the start of the buffer.
\<close>

definition send_403_repaired :: "(unit, Session, unit) contract" where
  "send_403_repaired =
     \<lparr>requires_of = session_requires,
      default_of =
        \<lparr>assumes_of = always,
         assigns_of = (\<lambda>i. assigns_session (\<lambda>k. 0 \<le> k \<and> k < 64)),
         ensures_of = (\<lambda>i s r s'. sess_state s' = SESS_DRAINING \<and> u_fd s' \<le> 0
           \<and> u2c_len s' \<le> int BUFFER_SIZE)\<rparr>,
      behaviors_of = [], complete_clause = False, disjoint_clause = False\<rparr>"

lemma repaired_met: "proves send_403_repaired (send_function 64)"
proof (rule provesI)
  fix i and s :: Session
  assume "requires_of send_403_repaired i s"
  then have len: "length (u2c_buf s) = BUFFER_SIZE"
    by (simp add: send_403_repaired_def session_requires_def session_shape_def)
  have "(take 64 err403 @ drop 64 (u2c_buf s)) ! k = u2c_buf s ! k"
    if "k < BUFFER_SIZE" "64 \<le> k" for k
    using that len by (simp add: nth_append)
  then show "meets_at send_403_repaired (send_function 64) i s"
    using len send_403_eq [OF len, of 64]
    by (auto simp: meets_at_def send_function_def send_403_repaired_def obeys_def assigns_session_def
        BUFFER_SIZE_def)
qed (simp_all add: send_403_repaired_def)

locale refusal = acsl_function send_403_repaired send
  for send :: "(unit, Session, unit) c_function"
begin

lemma handle_meets: "proves handle_contract (handle_with send)"
proof (rule provesI)
  fix i and s :: Session
  assume "requires_of handle_contract i s"
  then have req: "session_requires () s" by (simp add: handle_contract_def)
  then have shape: "session_ok s" by (simp add: session_requires_def session_shape_def session_ok_def)
  obtain s' where send: "send () s = Some ((), s')"
    "assigns_session (\<lambda>k. 0 \<le> k \<and> k < 64) s s'"
    by (rule returns [of "()" s])
      (use req in \<open>auto simp: send_403_repaired_def obeys_def always_def\<close>)
  have verbs: "match_from (c2u_buf s) 0 GET_VERB True = Some (take 4 (c2u_buf s) = GET_VERB)"
    "match_from (c2u_buf s) 0 POST_VERB True = Some (take 5 (c2u_buf s) = POST_VERB)"
    using shape by (simp_all add: match_verb session_ok_def BUFFER_SIZE_def)
  have "assigns_session (\<lambda>k. 0 \<le> k \<and> k \<le> int BUFFER_SIZE - 1) s s"
    "assigns_session (\<lambda>k. 0 \<le> k \<and> k \<le> int BUFFER_SIZE - 1) s s'"
    using send(2) shape by (auto simp: assigns_session_def session_ok_def)
  then show "meets_at handle_contract (handle_with send) i s"
    by (simp add: meets_at_def handle_with_def verbs inspect_eq [OF shape] send(1) handle_contract_def
        obeys_def)
qed (simp_all add: handle_contract_def)

end

interpretation gateway_refusal: refusal "send_function 64"
  by unfold_locales (rule repaired_met)

subsection \<open>The annotations of the search\<close>

text \<open>
  The loop \<open>for (i = 0; i <= n; i++)\<close> without a hit comes to its head with every \<open>i\<close> up to the
  first that fails the test; the invariants \<open>0 <= i <= n\<close> of the two searches are false there.
\<close>

definition loop_heads :: "int \<Rightarrow> int list" where
  "loop_heads n = [0..max 0 (n + 1)]"

definition scan_invariant :: "int \<Rightarrow> int \<Rightarrow> bool" where
  "scan_invariant n i \<longleftrightarrow> 0 \<le> i \<and> i \<le> n"

lemma scan_invariant_fails: "\<not> list_all (scan_invariant n) (loop_heads n)"
proof -
  have "max 0 (n + 1) \<in> set (loop_heads n)" by (simp add: loop_heads_def)
  moreover have "\<not> scan_invariant n (max 0 (n + 1))" by (simp add: scan_invariant_def)
  ultimately show ?thesis by (auto simp: list_all_iff)
qed

text \<open>One more in the bound is enough, when the search has at least one position.\<close>

lemma scan_invariant_repaired: "-1 \<le> n \<Longrightarrow> list_all (scan_invariant (n + 1)) (loop_heads n)"
  by (auto simp: loop_heads_def scan_invariant_def list_all_iff)

subsection \<open>The verdict\<close>

text \<open>
  \<open>wp_pqc_migration.c\<close> and \<open>wp_pqc_wal.c\<close> do not compile at this commit: a comment that is not
  closed (from line 20, from line 25) swallows their \<open>MIGRATION_\<close> macros. With these restored, as the
  comments and \<open>cbmc_pqc_migration.c\<close> have them, every function of the two meets its contract.
\<close>

lemma restored_migration_contracts:
  "proves begin_contract (pure begin_migration_guard)"
  "proves finalize_contract (pure finalize_guard)"
  "proves rollback_contract (pure rollback_guard)"
  "proves classical_key_contract (pure classical_key_exists)"
  "proves pqc_key_contract (pure pqc_key_exists)"
  "proves next_state_contract (pure next_state_from_classical)"
  "proves crc_data_len_contract (pure (\<lambda>_. wp_wal_crc_data_len))"
  "proves find_record_contract (pure find_record_function)"
  "proves record_size_contract (pure (\<lambda>_. wal_record_size))"
  "proves crc_length_contract (pure (\<lambda>_. wal_crc_data_length))"
  "proves magic_contract (pure wal_validate_magic)"
  "proves version_contract (pure wal_validate_version)"
  "proves operation_contract (pure wal_validate_operation)"
  "proves wal_state_contract (pure wal_validate_state)"
  "proves key_at_step_contract (pure classical_key_exists_at_step)"
  "proves log_at_step_contract (pure wal_reflects_pqc_only_at_step)"
  "proves erasure_contract (pure erasure_before_wal_safe)"
  "proves next_seq_contract (pure wal_next_seq)"
  "proves last_field_contract (pure (\<lambda>_. wal_crc_is_last_field))"
  by (intro guards_meet_contracts crc_data_len_met find_record_met layout_contracts_met
      validator_contracts_met step_contracts_met next_seq_met)+

text \<open>
  C21. The verdict on \<open>wp_token_ledger.c\<close>, \<open>wp_governance.c\<close>, \<open>wp_utxo.c\<close> and \<open>wp_consensus.c\<close>: of the
  functions with an ACSL contract, fifteen meet it (defined wherever the precondition holds, each
  behaviour obeyed over mathematical integers, nothing changed outside the frame, behaviours
  complete and disjoint where the contract says so) and one does not: \<open>utxo_mark_spent_safe\<close>, which has
  no \<open>requires\<close> and reads entries nobody promised. It meets the same contract with the missing precondition
  added, and it is defined on exactly the inputs that satisfy that precondition.
\<close>

theorem wp_functions_meet_contracts:
  "proves safe_add_u64_contract wp_safe_add_u64
   \<and> proves safe_sub_u64_contract wp_safe_sub_u64
   \<and> proves saturating_mul_u64_contract (pure wp_saturating_mul_u64)
   \<and> proves ledger_credit_contract credit_function
   \<and> proves ledger_debit_contract debit_function
   \<and> proves conservation_contract (conservation_with credit_function debit_function)
   \<and> proves pk_equal_contract pk_equal_function
   \<and> proves has_voted_contract (has_voted_with pk_equal_function)
   \<and> proves accumulate_contract accumulate_function
   \<and> proves quorum_contract (pure (\<lambda>(v, s). gov_quorum_reached v s))
   \<and> proves approval_contract (pure (\<lambda>(f, t). approval_reached f t))
   \<and> proves utxo_mark_spent_contract mark_spent_function
   \<and> proves spend_isolation_contract (isolation_with mark_spent_function)
   \<and> proves bft_quorum_contract (pure wp_bft_quorum)
   \<and> proves supermajority_contract (pure supermajority_function)
   \<and> \<not> proves mark_spent_safe_contract mark_spent_safe_function
   \<and> proves (mark_spent_safe_contract\<lparr>requires_of := entries_readable\<rparr>) mark_spent_safe_function
   \<and> (mark_spent_safe_function idx uset = None \<longleftrightarrow> \<not> entries_readable idx uset)"
  by (intro conjI wp_safe_add_correct wp_safe_sub_correct wp_saturating_mul_correct credit_correct
      debit_correct ledger_calls.conservation pk_equal_correct gov_keys.has_voted_contract_met
      accumulate_correct quorum_correct approval_correct mark_spent_correct utxo_calls.isolates
      bft_quorum_contract_met supermajority_contract_met mark_spent_safe_fails
      mark_spent_safe_correct mark_spent_safe_undefined)

text \<open>
  C40. The contract of the refusal in \<open>wp_gateway.c\<close> is met in no state: the response of 69
  bytes reads past its literal. With the right length it is met exactly by a session that has a
  server connection (or the value -1 already) and whose buffered output already begins with the
  response as far as it reaches; so an idle session, or one with other output, violates it.
\<close>

theorem wp_refusal_contract_fails:
  assumes "session_requires () s" "err_len \<in> {64, 69}"
  shows "meets_at send_403_contract (send_function err_len) () s \<longleftrightarrow>
    err_len = 64 \<and> (u_fd s > 0 \<or> u_fd s = -1)
    \<and> take (min 64 (nat (u2c_len s))) (u2c_buf s) = take (min 64 (nat (u2c_len s))) err403"
  using assms(2) send_403_meets_at [OF assms(1), of 64] send_403_never_meets [of 69 s]
  by (auto simp: BUFFER_SIZE_def)

definition idle_session :: "int \<Rightarrow> int \<Rightarrow> Session" where
  "idle_session fd len = \<lparr>c_fd = 5, u_fd = fd, sess_state = SESS_ACTIVE_PUMP,
     c2u_buf = replicate BUFFER_SIZE 0, c2u_len = 0, u2c_buf = replicate BUFFER_SIZE 0, u2c_len = len\<rparr>"

theorem wp_refusal_contract_fails_witness:
  "meets_at send_403_contract (send_function 64) () (idle_session 6 0)
   \<and> \<not> meets_at send_403_contract (send_function 64) () (idle_session 0 0)
   \<and> \<not> meets_at send_403_contract (send_function 64) () (idle_session 6 1)
   \<and> \<not> meets_at send_403_contract (send_function 69) () (idle_session 6 0)"
proof -
  have req: "session_requires () (idle_session fd 0)" "session_requires () (idle_session fd 1)" for fd
    by (simp_all add: session_requires_def session_shape_def idle_session_def BUFFER_SIZE_def)
  have "take 1 (replicate BUFFER_SIZE 0) = [0 :: byte]" by (simp add: BUFFER_SIZE_def take_replicate)
  moreover have "take 1 err403 = [72]"
    by (simp add: err403_def bytes_of_def of_char_def)
  ultimately show ?thesis
    using wp_refusal_contract_fails [OF req(1) [of 6], of 64]
      wp_refusal_contract_fails [OF req(1) [of 0], of 64]
      wp_refusal_contract_fails [OF req(2) [of 6], of 64]
      wp_refusal_contract_fails [OF req(1) [of 6], of 69]
    by (simp add: idle_session_def)
qed

end
