(* ===== verification/EntryPoints.thy ===== *)
theory EntryPoints
  imports Capacities ReserveRatio Migration Bridge Consensus CryptoModel Utxo Gateway
begin

text \<open>
  The entry points of the files under \<open>verification/cbmc\<close>: \<open>main\<close> or \<open>harness_all\<close>, which run
  the harnesses of the other theories in order. The values that the checker chooses freely
  (results of \<open>nondet_...()\<close>, uninitialised locals, contents of fresh memory) are the values of a
  function on positions, each used once; a checker explores every such function.
  The two files on the key migration can also be run alone, with \<open>rand()\<close> for the choices.
\<close>

subsection \<open>Choices\<close>

type_synonym choices = "nat \<Rightarrow> nat"

definition chosen_bytes :: "choices \<Rightarrow> nat \<Rightarrow> nat \<Rightarrow> bytes" where
  "chosen_bytes nd k n = map (\<lambda>i. of_nat (nd (k + i))) [0..<n]"

lemma length_chosen_bytes [simp]: "length (chosen_bytes nd k n) = n"
  by (simp add: chosen_bytes_def)

subsection \<open>The compliance modules\<close>

definition did_harness_all :: "choices \<Rightarrow> harness" where
  "did_harness_all nd =
     harness_did_uri_bounds @
     harness_claim_bounds (of_nat (nd 0)) @
     harness_pqc_sig_bounds @
     harness_vc_status_range (of_nat (nd 1)) (of_nat (nd 2)) (of_nat (nd 3)) (of_nat (nd 4)) (of_nat (nd 5)) @
     did_harness_array_capacity (of_nat (nd 6)) (of_nat (nd 7)) @
     harness_verify_state_machine (of_nat (nd 8)) (of_nat (nd 9))"

definition dr_harness_all :: "choices \<Rightarrow> harness" where
  "dr_harness_all nd =
     harness_snapshot_buffers @
     dr_harness_enum_ranges (of_nat (nd 0)) (of_nat (nd 1)) (of_nat (nd 2)) (of_nat (nd 3)) @
     dr_harness_capacity (of_nat (nd 4)) (of_nat (nd 5)) @
     harness_replication_state (of_nat (nd 6)) (of_nat (nd 7)) @
     harness_retention (of_nat (nd 8)) (of_nat (nd 9)) @
     harness_rto_rpo (of_nat (nd 10)) (of_nat (nd 11)) (of_nat (nd 12)) (of_nat (nd 13))"

definition siem_harness_all :: "choices \<Rightarrow> harness" where
  "siem_harness_all nd =
     harness_event_buffers @
     harness_hash_chain @
     siem_harness_enum_ranges (of_nat (nd 0)) (of_nat (nd 1)) (of_nat (nd 2)) @
     harness_filter_logic (of_nat (nd 3)) (of_nat (nd 4)) (of_nat (nd 5)) (of_nat (nd 6)) @
     siem_harness_capacity (of_nat (nd 7)) (of_nat (nd 8)) (of_nat (nd 9)) @
     harness_cef_mapping (of_nat (nd 10))"

text \<open>
  The entries of the storage come from position 4183 on, sixteen bytes each; the choices before
  are scalars and the contents of the three local arrays.
\<close>

definition cc_harness_all :: "choices \<Rightarrow> harness" where
  "cc_harness_all nd =
     harness_generate_id_buffer (of_nat (nd 0)) (of_nat (nd 1)) @
     harness_commitment_buffer (chosen_bytes nd 2 40) (of_nat (nd 42)) (chosen_bytes nd 43 32) @
     harness_state_serialization (chosen_bytes nd 75 CC_MAX_STATE_SIZE)
       (map (\<lambda>s. (chosen_bytes nd (4183 + 16 * s) 8, chosen_bytes nd (4191 + 16 * s) 8)) [0..<nd 4171]) @
     harness_access_level_range (of_nat (nd 4172)) @
     harness_privacy_mode_range (of_nat (nd 4173)) (of_nat (nd 4174)) (of_nat (nd 4175)) @
     cc_harness_array_capacity (of_nat (nd 4176)) (of_nat (nd 4177)) (of_nat (nd 4178)) (of_nat (nd 4179))
       (of_nat (nd 4180)) (of_nat (nd 4181)) (of_nat (nd 4182))"

definition mica_main :: "choices \<Rightarrow> harness" where
  "mica_main nd =
     verify_generate_id_bounds (of_nat (nd 0)) (of_nat (nd 1)) @
     verify_casp_status_range (of_nat (nd 2)) @
     verify_reserve_ratio_safety (of_nat (nd 3)) (of_nat (nd 4)) @
     verify_incident_deadline_bounds (of_nat (nd 5)) @
     verify_ict_forward_only (of_nat (nd 6)) (of_nat (nd 7)) @
     verify_array_capacity (of_nat (nd 8)) (of_nat (nd 9)) (of_nat (nd 10)) (of_nat (nd 11)) (of_nat (nd 12))
       (of_nat (nd 13)) (of_nat (nd 14))"

subsection \<open>The bridge\<close>

text \<open>
  The six blocks of \<open>main\<close>. Enumerators are compared as the unsigned integers they are; the
  contents of the locals are choices.
\<close>

definition BRIDGE_STATE_COUNT :: int where "BRIDGE_STATE_COUNT = 5"

definition bridge_transfer_block :: "choices \<Rightarrow> harness" where
  "bridge_transfer_block nd =
     (let src_chain = of_nat (nd 0); dst_chain = of_nat (nd 1); sa_len = nd 2; da_len = nd 3;
          src_addr = chosen_bytes nd 6 129; dst_addr = chosen_bytes nd 135 129 in
      [Assume (src_chain < BRIDGE_CHAIN_COUNT), Assume (dst_chain < BRIDGE_CHAIN_COUNT),
       Assume (sa_len \<le> 128), Assume (da_len \<le> 128),
       Assert (sa_len < length src_addr), Assert (da_len < length dst_addr)] @
      defined (generate_transfer_id_model (chosen_bytes nd 264 512) src_chain dst_chain
          (Some (src_addr[sa_len := 0])) (Some (dst_addr[da_len := 0]))
          (of_nat (nd 4)) (of_nat (nd 5)))
        (\<lambda>out. []))"

definition chosen_amount :: "choices \<Rightarrow> nat \<Rightarrow> BridgePrivateAmount" where
  "chosen_amount nd k =
     \<lparr>commitment = chosen_bytes nd k 32, blinding = chosen_bytes nd (k + 32) 32,
      range_proof = chosen_bytes nd (k + 64) 768, range_proof_len = nd (k + 832),
      private_amount = of_nat (nd (k + 833))\<rparr>"

definition bridge_amount_block :: "choices \<Rightarrow> harness" where
  "bridge_amount_block nd =
     (let amt = of_nat (nd 776) in
      defined (generate_private_amount_model (chosen_bytes nd 777 40) (chosen_bytes nd 817 40) amt
          (chosen_amount nd 857))
        (\<lambda>pa. [Assert (range_proof_len pa \<le> 768), Assert (private_amount pa = amt)]))"

definition chosen_attestation :: "choices \<Rightarrow> nat \<Rightarrow> BridgeAttestation" where
  "chosen_attestation nd k =
     \<lparr>relay_pk_hash = chosen_bytes nd k 32, signature = chosen_bytes nd (k + 32) BRIDGE_RELAY_SIG_SIZE,
      sig_len = nd (k + 4659), timestamp = of_nat (nd (k + 4660))\<rparr>"

definition chosen_proof :: "choices \<Rightarrow> nat \<Rightarrow> BridgeLockProof" where
  "chosen_proof nd k =
     \<lparr>lock_tx_hash = chosen_bytes nd k 32, block_height = of_nat (nd (k + 32)),
      confirmations = of_nat (nd (k + 33)), merkle_proof = chosen_bytes nd (k + 34) 1024,
      merkle_proof_len = nd (k + 1058),
      attestations = map (\<lambda>i. chosen_attestation nd (k + 1060 + 4661 * i)) [0..<BRIDGE_MAX_ATTESTATIONS],
      attestation_count = nd (k + 1059)\<rparr>"

definition bridge_attestation_block :: "choices \<Rightarrow> harness" where
  "bridge_attestation_block nd =
     (let attestation_count = nd 1691; proof1 = (chosen_proof nd 2000)\<lparr>attestation_count := attestation_count\<rparr> in
      [Assume (attestation_count \<le> BRIDGE_MAX_ATTESTATIONS)] @
      defined (attestation_loop [0..<BridgeLockProof.attestation_count proof1] proof1) (\<lambda>p. []))"

definition bridge_message_block :: "choices \<Rightarrow> harness" where
  "bridge_message_block nd =
     defined (verify_lock_proof_message_bounds (chosen_bytes nd 1692 104) (chosen_proof nd 100000)
         (chosen_bytes nd 1796 32))
       (\<lambda>msg_hash. [])"

definition bridge_state_block :: "choices \<Rightarrow> harness" where
  "bridge_state_block nd =
     (let current = int (nd 1828); nxt = int (nd 1829);
          completed = BridgeTransferState_value BRIDGE_STATE_COMPLETED;
          refunded = BridgeTransferState_value BRIDGE_STATE_REFUNDED in
      [Assume (current < BRIDGE_STATE_COUNT)] @
      whenever (current = completed \<or> current = refunded) [Assert (current \<ge> completed)] @
      whenever (current = BridgeTransferState_value BRIDGE_STATE_PROVED)
        [Assume (nxt = completed \<or> nxt = refunded), Assert (nxt > current \<or> nxt = refunded)])"

definition bridge_merkle_block :: "choices \<Rightarrow> harness" where
  "bridge_merkle_block nd =
     (let merkle_len = nd 1830; proof1 = (chosen_proof nd 200000)\<lparr>merkle_proof_len := merkle_len\<rparr> in
      [Assume (merkle_len \<le> 1024), Assert (merkle_proof_len proof1 \<le> length (merkle_proof proof1))])"

definition bridge_main :: "choices \<Rightarrow> harness" where
  "bridge_main nd =
     bridge_transfer_block nd @ bridge_amount_block nd @ bridge_attestation_block nd @
     bridge_message_block nd @ bridge_state_block nd @ bridge_merkle_block nd"

subsection \<open>The key migration\<close>

definition migration_main :: "choices \<Rightarrow> harness" where
  "migration_main nd =
     [Assert (harness_hex_nibble (of_nat (nd 0)))] @
     defined (harness_hex_to_bin (chosen_bytes nd 1 8)) (\<lambda>ok. [Assert ok]) @
     defined (harness_hash_key_id (chosen_bytes nd 9 8)) (\<lambda>ok. [Assert ok]) @
     defined (harness_wal_crc32_determinism (chosen_bytes nd 17 16)) (\<lambda>ok. [Assert ok]) @
     [Assert (harness_state_transitions (of_nat (nd 33)) (of_nat (nd 34))),
      Assert (harness_capacity_bounds (of_nat (nd 35)) (of_nat (nd 36)))]"

definition migration_actual_main :: "choices \<Rightarrow> harness" where
  "migration_actual_main nd =
     [Assert harness_wal_record_layout] @
     defined harness_wal_crc_on_actual_struct (\<lambda>ok. [Assert ok]) @
     [Assert harness_state_transition_guards] @
     defined (harness_hash_key_id_bounded (chosen_bytes nd 0 16)) (\<lambda>ok. [Assert ok]) @
     [Assert (harness_hex_nibble_exhaustive (of_nat (nd 16))),
      Assert harness_finalization_ordering,
      Assert harness_wal_magic_validation]"

text \<open>
  Run alone, the harnesses take their values from \<open>rand()\<close>: characters and bytes are the
  remainder by 256, sizes by 4096. One iteration draws 37 values (17 in the other file),
  on every path, and there are 1000 iterations.
\<close>

definition nondet_byte :: "nat \<Rightarrow> nat" where
  "nondet_byte r = r mod 256"

definition nondet_size :: "nat \<Rightarrow> nat" where
  "nondet_size r = r mod 4096"

definition migration_standalone :: "choices \<Rightarrow> harness" where
  "migration_standalone rand =
     concat (map (\<lambda>iter. migration_main (\<lambda>k.
       (if k < 35 then nondet_byte else nondet_size) (rand (37 * iter + k)))) [0..<1000])"

definition migration_actual_standalone :: "choices \<Rightarrow> harness" where
  "migration_actual_standalone rand =
     concat (map (\<lambda>iter. migration_actual_main (\<lambda>k. nondet_byte (rand (17 * iter + k)))) [0..<1000])"

subsection \<open>The other files\<close>

definition consensus_main :: "choices \<Rightarrow> harness" where
  "consensus_main nd =
     consensus_harness (of_nat (nd 0)) (of_nat (nd 1)) (of_nat (nd 2)) (of_nat (nd 3))"

definition overflow_main :: "choices \<Rightarrow> harness" where
  "overflow_main nd =
     overflow_harness (of_nat (nd 0)) (of_nat (nd 1)) (of_nat (nd 2)) (of_nat (nd 3)) (of_nat (nd 4))
       (of_nat (nd 5)) (of_nat (nd 6))"

definition crypto_main :: "choices \<Rightarrow> harness" where
  "crypto_main nd =
     crypto_harness (chosen_bytes nd 0 32)
       \<lparr>iterations = of_nat (nd 32), salt = chosen_bytes nd 33 PBKDF2_SALT_SIZE, key_length = of_nat (nd 49)\<rparr>
       (of_nat (nd 50)) (chosen_bytes nd 51 32)"

definition chosen_utxo :: "choices \<Rightarrow> nat \<Rightarrow> UTXO" where
  "chosen_utxo nd k =
     \<lparr>tx_hash = chosen_bytes nd k 32, output_index = of_nat (nd (k + 32)), amount = of_nat (nd (k + 33)),
      spent = (nd (k + 34) \<noteq> 0), owner_pubkey_hash = chosen_bytes nd (k + 35) 32\<rparr>"

text \<open>The choice at position 1 is whether \<open>malloc\<close> succeeds.\<close>

definition utxo_main :: "choices \<Rightarrow> harness" where
  "utxo_main nd =
     utxo_harness (if nd 1 = 0 then None else Some (map (\<lambda>i. chosen_utxo nd (4 + 67 * i)) [0..<nd 0]))
       (nd 0) (nd 2) (nd 3)"

definition chosen_session :: "choices \<Rightarrow> nat \<Rightarrow> CbmcSession" where
  "chosen_session nd k =
     \<lparr>cb_c_fd = int (nd k), cb_u_fd = int (nd (k + 1)), cb_state = SESS_ACTIVE_PUMP, cb_c2u_buf = None,
      cb_c2u_len = int (nd (k + 2)), cb_u2c_buf = None, cb_u2c_len = int (nd (k + 3)),
      cb_want_read_on_c = int (nd (k + 4)), cb_want_write_on_c = int (nd (k + 5))\<rparr>"

text \<open>
  The fields of the session that \<open>main\<close> leaves unset are chosen too; those given here a fixed
  value in \<open>chosen_session\<close> are all set before they are read.
\<close>

definition gateway_main :: "choices \<Rightarrow> harness" where
  "gateway_main nd =
     (let loaded_len = int (nd 0) in
      [Assume (loaded_len \<ge> 0 \<and> loaded_len < int BUFFER_SIZE)] @
      defined (cbmc_gateway_main (chosen_session nd 40000) loaded_len (nd 1 \<noteq> 0) (nd 2 \<noteq> 0)
          (chosen_bytes nd 4 BUFFER_SIZE) (chosen_bytes nd 16388 BUFFER_SIZE) (int (nd 3)))
        (\<lambda>s. [Assert (cbmc_gateway_assertions s)]))"

subsection \<open>Entry points that are verified\<close>

lemma did_verified: "verified did_harness_all"
  by (simp add: verified_def did_harness_all_def holds_append did_uri_bounds did_harnesses_hold
      harness_verify_state_machine_holds)

lemma siem_verified: "verified siem_harness_all"
  by (simp add: verified_def siem_harness_all_def holds_append siem_harnesses_hold filter_logic_holds
      siem_sequence cef_mapping_holds)

lemma serialization_holds:
  assumes "entries_ok kvs" "length buf = CC_MAX_STATE_SIZE"
  shows "holds (harness_state_serialization buf kvs)"
proof (cases "length kvs \<le> VM_MAX_STORAGE")
  case True
  then show ?thesis using storage_serialized(2) [OF assms] passes_holds by blast
qed (simp add: harness_state_serialization_def)

lemma cc_verified: "verified cc_harness_all"
  unfolding verified_def cc_harness_all_def
  by (auto simp: holds_append id_buffer_holds contract_harnesses_hold entries_ok_def
      intro!: serialization_holds passes_holds [OF commitment_buffer_filled(2)]
      simp add: CC_COMMITMENT_SIZE_def)

lemma chosen_proof_shape:
  "length (lock_tx_hash (chosen_proof nd k)) = 32" "length (merkle_proof (chosen_proof nd k)) = 1024"
  "length (attestations (chosen_proof nd k)) = BRIDGE_MAX_ATTESTATIONS"
  by (simp_all add: chosen_proof_def)

lemma terminated_addr:
  "length a = 129 \<Longrightarrow> n \<le> 128 \<Longrightarrow> addr_ok (Some (a[n := 0]))"
  by (auto simp: addr_ok_def set_conv_nth intro: exI [of _ n])

lemma bridge_transfer_holds: "holds (bridge_transfer_block nd)"
proof (cases "nd 2 \<le> 128 \<and> nd 3 \<le> 128")
  case True
  then have "addr_ok (Some ((chosen_bytes nd 6 129)[nd 2 := 0]))"
    "addr_ok (Some ((chosen_bytes nd 135 129)[nd 3 := 0]))"
    by (simp_all add: terminated_addr)
  with True show ?thesis
    by (simp add: bridge_transfer_block_def Let_def transfer_id_defined)
qed (auto simp: bridge_transfer_block_def Let_def)

lemma bridge_amount_holds: "passes (bridge_amount_block nd)"
proof -
  obtain q where "generate_private_amount_model (chosen_bytes nd 777 40) (chosen_bytes nd 817 40)
      (of_nat (nd 776)) (chosen_amount nd 857) = Some q"
    "private_amount q = of_nat (nd 776)" "range_proof_len q = 64"
    using private_amount_in_bounds [of "chosen_bytes nd 777 40" "chosen_bytes nd 817 40"
        "chosen_amount nd 857" "of_nat (nd 776)"]
    by (auto simp: chosen_amount_def)
  then show ?thesis by (simp add: bridge_amount_block_def Let_def)
qed

lemma bridge_attestation_holds: "holds (bridge_attestation_block nd)"
proof (cases "nd 1691 \<le> BRIDGE_MAX_ATTESTATIONS")
  case True
  then have "\<forall>i \<in> set [0..<nd 1691]. i < length (attestations ((chosen_proof nd 2000)
      \<lparr>BridgeLockProof.attestation_count := nd 1691\<rparr>)) \<and> i < BRIDGE_MAX_ATTESTATIONS"
    by (auto simp: chosen_proof_shape)
  from attestation_loop_defined [OF this] show ?thesis
    by (auto simp: bridge_attestation_block_def Let_def holds_defined)
qed (simp add: bridge_attestation_block_def Let_def)

lemma bridge_verified: "verified bridge_main"
proof -
  have "holds (bridge_message_block nd)" "holds (bridge_state_block nd)" "holds (bridge_merkle_block nd)" for nd
    by (auto simp: bridge_message_block_def lock_proof_in_bounds chosen_proof_shape bridge_state_block_def
        bridge_merkle_block_def Let_def holds_append)
  then show ?thesis
    by (simp add: verified_def bridge_main_def holds_append bridge_transfer_holds
        passes_holds [OF bridge_amount_holds] bridge_attestation_holds)
qed

lemma migration_actual_passes: "passes (migration_actual_main nd)"
proof -
  have "harness_wal_crc_on_actual_struct = Some True" "harness_wal_record_layout"
    "harness_hash_key_id_bounded (chosen_bytes nd 0 16) = Some True"
    "harness_hex_nibble_exhaustive (of_nat (nd 16))" "harness_wal_magic_validation"
    using wal_harnesses_hold [of "replicate 8 0" "replicate 8 0" "chosen_bytes nd 0 16" "replicate 16 0"
        "of_nat (nd 16)"] by simp_all
  then show ?thesis
    unfolding migration_actual_main_def \<open>harness_wal_crc_on_actual_struct = Some True\<close>
    by (simp add: harness_state_transition_guards_hold harness_finalization_ordering_holds)
qed

lemma migration_actual_verified: "verified migration_actual_main"
  by (simp add: verified_def passes_holds [OF migration_actual_passes])

lemma consensus_verified: "verified consensus_main"
  by (simp add: verified_def consensus_main_def consensus_harness_holds)

lemma overflow_verified: "verified overflow_main"
  by (simp add: verified_def overflow_main_def overflow_harness_holds)

lemma crypto_verified: "verified crypto_main"
  by (simp add: verified_def crypto_main_def crypto_harness_holds)

lemma utxo_verified: "verified utxo_main"
  by (simp add: verified_def utxo_main_def utxo_harness_holds)

lemma gateway_run:
  "holds (gateway_main nd)" "passes (gateway_main nd) \<longleftrightarrow> nd 0 < BUFFER_SIZE"
proof -
  obtain t where "cbmc_gateway_main (chosen_session nd 40000) (int (nd 0)) (nd 1 \<noteq> 0) (nd 2 \<noteq> 0)
      (chosen_bytes nd 4 BUFFER_SIZE) (chosen_bytes nd 16388 BUFFER_SIZE) (int (nd 3)) = Some t"
    "cbmc_gateway_assertions t"
    using gateway_harness_never_drains by blast
  then show "holds (gateway_main nd)" "passes (gateway_main nd) \<longleftrightarrow> nd 0 < BUFFER_SIZE"
    by (simp_all add: gateway_main_def Let_def)
qed

lemma gateway_verified: "verified gateway_main"
  by (simp add: verified_def gateway_run)

subsection \<open>Entry points that are rejected\<close>

lemma migration_prefix:
  "passes (migration_main nd) \<longleftrightarrow> harness_capacity_bounds (of_nat (nd 35)) (of_nat (nd 36))"
  "holds (migration_main nd) \<longleftrightarrow> harness_capacity_bounds (of_nat (nd 35)) (of_nat (nd 36))"
proof -
  have "harness_hex_to_bin (chosen_bytes nd 1 8) = Some True"
    "harness_hash_key_id (chosen_bytes nd 9 8) = Some True"
    "harness_wal_crc32_determinism (chosen_bytes nd 17 16) = Some True"
    "harness_hex_nibble (of_nat (nd 0))"
    using wal_harnesses_hold [of "chosen_bytes nd 1 8" "chosen_bytes nd 9 8" "replicate 16 0"
        "chosen_bytes nd 17 16" "of_nat (nd 0)"] by simp_all
  then show "passes (migration_main nd) \<longleftrightarrow> harness_capacity_bounds (of_nat (nd 35)) (of_nat (nd 36))"
    "holds (migration_main nd) \<longleftrightarrow> harness_capacity_bounds (of_nat (nd 35)) (of_nat (nd 36))"
    by (simp_all add: migration_main_def harness_state_transitions_hold)
qed

lemma migration_rejected: "\<not> verified migration_main"
proof -
  have "\<not> holds (migration_main (\<lambda>_. 7))"
    using capacity_harness_fails_for_small_tables [of 7 7] by (simp add: migration_prefix)
  then show ?thesis by (auto simp: verified_def)
qed

lemma dr_rejected: "\<not> verified dr_harness_all"
proof -
  have "\<not> holds (dr_harness_all (\<lambda>k. if k = 6 then 3 else 0))"
    by (simp add: dr_harness_all_def holds_append harness_snapshot_buffers_def
        dr_harness_enum_ranges_def dr_harness_capacity_def sizes DR_STATUS_COUNT_def
        DR_MAX_SNAPSHOTS_def DR_MAX_REGIONS_def harness_replication_state_def dr_next_def Let_def)
  then show ?thesis by (auto simp: verified_def)
qed

lemma mica_rejected: "\<not> verified mica_main"
proof -
  have "\<not> holds (verify_reserve_ratio_safety (of_nat (2 ^ 53 + 1)) (of_nat (2 ^ 53)))"
    using reserve_check_exact [THEN conjunct2] by simp
  moreover have "passes (verify_generate_id_bounds 0 0)" "passes (verify_casp_status_range 0)"
    by (simp_all add: verify_generate_id_bounds_def MICA_ID_SIZE_def verify_casp_status_range_def
        CASP_STATUS_COUNT_def)
  ultimately have "\<not> holds (mica_main (\<lambda>k. if k = 3 then 2 ^ 53 + 1 else if k = 4 then 2 ^ 53 else 0))"
    by (simp add: mica_main_def holds_append del: of_nat_add of_nat_power)
  then show ?thesis by (auto simp: verified_def)
qed

subsection \<open>No entry point is vacuous\<close>

lemma did_not_vacuous: "passes (did_harness_all (\<lambda>_. 0))"
  by (simp add: did_harness_all_def harness_did_uri_bounds_def harness_claim_bounds_def
      harness_pqc_sig_bounds_def harness_vc_status_range_def did_harness_array_capacity_def
      harness_verify_state_machine_def vc_next_def sizes DID_URI_SIZE_def VC_STATUS_COUNT_def Let_def)

lemma dr_not_vacuous: "passes (dr_harness_all (\<lambda>k. if k = 9 \<or> k = 10 \<or> k = 12 then 1 else 0))"
  by (simp add: dr_harness_all_def harness_snapshot_buffers_def dr_harness_enum_ranges_def
      dr_harness_capacity_def harness_replication_state_def dr_next_def harness_retention_def
      harness_rto_rpo_def rto_rpo_compliant_def sizes DR_STATUS_COUNT_def DR_MAX_SNAPSHOTS_def
      DR_MAX_REGIONS_def Let_def)

lemma siem_not_vacuous: "passes (siem_harness_all (\<lambda>k. if k = 9 then 1 else 0))"
  by (simp add: siem_harness_all_def harness_event_buffers_def harness_hash_chain_def
      siem_harness_enum_ranges_def harness_filter_logic_def siem_harness_capacity_def
      harness_cef_mapping_def nth_opt_def cef_severity_def passes_severity_def passes_category_def
      sizes SIEM_SEV_COUNT_def SIEM_CAT_COUNT_def Let_def)

lemma cc_not_vacuous: "passes (cc_harness_all (\<lambda>k. if k = 4175 then 1 else 0))"
  using storage_serialized(2) [of "[]"] commitment_buffer_filled(2)
  by (simp add: cc_harness_all_def harness_generate_id_buffer_def harness_access_level_range_def
      harness_privacy_mode_range_def cc_harness_array_capacity_def entries_ok_def sizes Let_def
      CC_COMMITMENT_SIZE_def)

lemma mica_not_vacuous:
  "passes (mica_main (\<lambda>k. if k = 3 \<or> k = 4 then 1 else if k = 5 then 1600000000 else 0))"
proof -
  have "double_one \<le> reserve_ratio 1 1"
    using double_div_ge_one [of 1 1] by (simp add: reserve_ratio_def u64_to_double_exact)
  then show ?thesis
    by (simp add: mica_main_def verify_generate_id_bounds_def MICA_ID_SIZE_def verify_casp_status_range_def
        CASP_STATUS_COUNT_def verify_reserve_ratio_safety_def verify_incident_deadline_bounds_def
        incident_deadlines_def verify_ict_forward_only_def ict_accepted_def ICT_STATUS_COUNT_def
        ICT_STATUS_RESOLVED_def verify_array_capacity_def room_for_one_always Let_def)
qed

lemma migration_not_vacuous: "passes (migration_main (\<lambda>_. 0))"
  using capacity_harness_fails_for_small_tables [of 0 0] by (simp add: migration_prefix)

lemma gateway_not_vacuous: "passes (gateway_main (\<lambda>_. 0))"
  by (simp add: gateway_run BUFFER_SIZE_def)

lemma bridge_not_vacuous: "passes (bridge_main (\<lambda>_. 0))"
proof -
  have "passes (bridge_transfer_block (\<lambda>_. 0))"
    by (simp add: bridge_transfer_block_def Let_def transfer_id_defined terminated_addr BRIDGE_CHAIN_COUNT_def)
  moreover have "passes (bridge_attestation_block (\<lambda>_. 0))"
    by (simp add: bridge_attestation_block_def Let_def)
  moreover have "passes (bridge_message_block (\<lambda>_. 0))"
    by (auto simp: bridge_message_block_def holds_defined lock_proof_in_bounds chosen_proof_shape)
  moreover have "passes (bridge_state_block (\<lambda>_. 0))" "passes (bridge_merkle_block (\<lambda>_. 0))"
    by (simp_all add: bridge_state_block_def bridge_merkle_block_def BRIDGE_STATE_COUNT_def Let_def)
  ultimately show ?thesis by (simp add: bridge_main_def bridge_amount_holds)
qed

lemma consensus_not_vacuous: "passes (consensus_main (\<lambda>_. 4))"
  unfolding verified_passes [OF consensus_verified]
  by (simp add: consensus_main_def consensus_harness_def Let_def)

lemma overflow_not_vacuous: "passes (overflow_main (\<lambda>_. 4))"
  unfolding verified_passes [OF overflow_verified]
  by (simp add: overflow_main_def overflow_harness_def Let_def split_beta)

lemma crypto_not_vacuous: "passes (crypto_main (\<lambda>_. 600000))"
  unfolding verified_passes [OF crypto_verified]
  by (simp add: crypto_main_def crypto_harness_def Let_def)

lemma utxo_not_vacuous: "passes (utxo_main (\<lambda>k. if k < 2 then 1 else 0))"
  unfolding verified_passes [OF utxo_verified]
  by (simp add: utxo_main_def utxo_harness_def MAX_UTXO_CAPACITY_def chosen_utxo_def Let_def split_beta)

subsection \<open>The verdicts\<close>

text \<open>C22. The entry points of the eleven files of \<open>verification/cbmc\<close> that compile. Eight are
  accepted: whatever values the checker chooses, no assertion fails, no access is out of bounds and
  no division by zero happens. Three are rejected: the service provider file (the reserve check, on
  amounts with one \<open>double\<close>), the recovery file (a snapshot that is VERIFIED already) and the
  migration file (a full table of one to seven records). None is vacuous: each has a run to its end.
  The other two files do not compile (\<open>restored_entry_points\<close>) and are not counted here.\<close>

theorem cbmc_entry_points_verdicts:
  "list_all verified [did_harness_all, siem_harness_all, cc_harness_all, bridge_main,
      consensus_main, overflow_main, crypto_main, gateway_main]
    \<and> list_all (\<lambda>h. \<not> verified h) [mica_main, dr_harness_all, migration_main]
    \<and> list_all (\<lambda>h. \<not> vacuous h) [did_harness_all, siem_harness_all, cc_harness_all, bridge_main,
      consensus_main, overflow_main, crypto_main, gateway_main,
      mica_main, dr_harness_all, migration_main]"
proof -
  note runs = did_not_vacuous siem_not_vacuous cc_not_vacuous bridge_not_vacuous
    consensus_not_vacuous overflow_not_vacuous crypto_not_vacuous gateway_not_vacuous
    mica_not_vacuous dr_not_vacuous migration_not_vacuous
  have "\<not> vacuous did_harness_all" "\<not> vacuous siem_harness_all" "\<not> vacuous cc_harness_all"
    "\<not> vacuous bridge_main" "\<not> vacuous consensus_main"
    "\<not> vacuous overflow_main" "\<not> vacuous crypto_main" "\<not> vacuous gateway_main" "\<not> vacuous mica_main" "\<not> vacuous dr_harness_all"
    "\<not> vacuous migration_main"
    unfolding vacuous_def using runs by blast+
  then show ?thesis
    by (simp add: did_verified siem_verified cc_verified bridge_verified
        consensus_verified overflow_verified crypto_verified gateway_verified
        mica_rejected dr_rejected migration_rejected)
qed

text \<open>
  \<open>cbmc_utxo.c\<close> and \<open>cbmc_pqc_migration_actual.c\<close> do not compile at this commit: a comment that is
  not closed (from line 41, from line 183) swallows the error codes of the first, and the record type,
  \<open>hex_nibble\<close>, \<open>hash_key_id\<close> and \<open>wal_crc32\<close> of the second, which their active code uses.
  With these declarations restored, as the comments have them, both entry points are accepted
  and not vacuous.
\<close>

lemma restored_entry_points:
  "list_all verified [migration_actual_main, utxo_main]"
  "list_all (\<lambda>h. \<not> vacuous h) [migration_actual_main, utxo_main]"
  using migration_actual_passes utxo_not_vacuous
  by (auto simp: migration_actual_verified utxo_verified vacuous_def)

text \<open>The two migration files run alone (the second with its declarations restored): whatever \<open>rand()\<close> returns, the second always
  comes to its end, and the first aborts exactly when in one of the 1000 rounds the two sizes drawn
  (by position, 36th and 37th of the round) are equal and between 1 and 7.\<close>

lemma standalone_runs_exact:
  "(\<not> holds (migration_standalone rand)) = (\<exists>iter < 1000.
      nondet_size (rand (37 * iter + 35)) = nondet_size (rand (37 * iter + 36))
      \<and> 1 \<le> nondet_size (rand (37 * iter + 35)) \<and> nondet_size (rand (37 * iter + 35)) \<le> 7)
    \<and> passes (migration_actual_standalone rand)"
proof
  let ?bad = "\<lambda>iter. nondet_size (rand (37 * iter + 35)) = nondet_size (rand (37 * iter + 36))
      \<and> 1 \<le> nondet_size (rand (37 * iter + 35)) \<and> nondet_size (rand (37 * iter + 35)) \<le> 7"
  let ?run = "\<lambda>iter. migration_main (\<lambda>k.
      (if k < 35 then nondet_byte else nondet_size) (rand (37 * iter + k)))"
  have small: "unat (of_nat (nondet_size r) :: u64) = nondet_size r" for r
    by (simp add: nondet_size_def unat_of_nat take_bit_nat_eq_self)
  have same: "(of_nat (nondet_size r) :: u64) = of_nat (nondet_size q) \<longleftrightarrow> nondet_size r = nondet_size q"
    for r q using small by metis
  have round: "holds (?run iter) = (\<not> ?bad iter)" "passes (?run iter) = (\<not> ?bad iter)" for iter
    using capacity_harness_fails_for_small_tables [THEN conjunct1]
    by (simp_all add: migration_prefix small same) auto
  have "holds (migration_standalone rand) = (\<forall>iter < 1000. \<not> ?bad iter)"
  proof -
    have "holds (concat css) \<longleftrightarrow> passes (concat css)"
      if "\<forall>cs \<in> set css. holds cs \<longleftrightarrow> passes cs" for css
      using that by (induction css) (auto simp: holds_append)
    from this [of "map ?run [0..<1000]"] show ?thesis
      by (simp add: migration_standalone_def passes_concat round) (auto simp: atLeast0LessThan)
  qed
  then show "(\<not> holds (migration_standalone rand)) = (\<exists>iter < 1000. ?bad iter)" by blast
  show "passes (migration_actual_standalone rand)"
    by (simp add: migration_actual_standalone_def passes_concat migration_actual_passes)
qed

end
