(* ===== verification/TestPrograms.thy ===== *)
theory TestPrograms
  imports Api
begin

text \<open>
  The programs of \<open>src/tests\<close> that use the library as a client does: the fuzzing entry point
  (\<open>fuzz_target.c\<close>), the domain separation test (\<open>test_domain_separation.c\<close>) and the round
  trip test (\<open>test_pqc_crypto.c\<close>). Each is its sequence of calls on the modelled interface; the
  \<open>HiggaionKey\<close> on its stack is a struct that exists while the function runs. A failed
  \<open>assert\<close> ends the program (\<open>Abort\<close>, with the line), \<open>return\<close> is \<open>Exit\<close>; what the
  programs print is left out.
\<close>

subsection \<open>A key on the stack\<close>

text \<open>The struct is gone when its function returns; a reference it still holds is lost.\<close>

definition leave_frame :: "addr \<Rightarrow> 'k world \<Rightarrow> 'k world" where
  "leave_frame key w = w\<lparr>structs := (structs w)(key := None)\<rparr>"

lemma owners_leave: "owners (s(a := None)) obj = owners s obj - {a}"
  by (auto simp: owners_def)

lemma leave_frame_post:
  assumes "api_wf w" "structs w a = Some f"
  shows "api_wf (leave_frame a w)"
    "slack (leave_frame a w) = (\<lambda>obj. slack w obj + of_bool (f = Some obj))"
proof -
  let ?w = "leave_frame a w"
  have fin: "finite (dom (structs w))" and safe: "key_safe w"
    using assms(1) by (simp_all add: api_wf_def key_safe_def)
  have "int (card (owners (structs w) obj - {a})) =
      int (card (owners (structs w) obj)) - of_bool (f = Some obj)" for obj
    using card_owners_upd [OF fin, of a None obj] assms(2) by (simp add: owners_upd)
  then show sl: "slack ?w = (\<lambda>obj. slack w obj + of_bool (f = Some obj))"
    by (simp add: fun_eq_iff slack_def leave_frame_def owners_leave)
  have "0 \<le> slack ?w obj" for obj
    using safe by (simp add: sl key_safe_def)
  moreover have "dom (structs ?w) \<subseteq> dom (structs w)" by (auto simp: leave_frame_def)
  then have "finite (dom (structs ?w))" using fin by (rule finite_subset)
  ultimately have "key_safe ?w"
    using safe by (simp add: key_safe_def) (simp add: leave_frame_def wf_world_def)
  then show "api_wf ?w" using assms(1) by (simp add: api_wf_def) (simp add: leave_frame_def)
qed

text \<open>What the calls of the programs leave unchanged, from one state to another.\<close>

definition steady :: "'k world \<Rightarrow> 'k world \<Rightarrow> bool" where
  "steady w w' \<longleftrightarrow> api_wf w' \<and> heap w' = heap w \<and> slack w' = slack w"

lemma steady_trans: "steady u v \<Longrightarrow> steady v w \<Longrightarrow> steady u w"
  by (simp add: steady_def)

text \<open>\<open>generate_keypair\<close> on a struct that holds no key, or with an accepted algorithm.\<close>

lemma generate_post:
  assumes "api_wf w" "structs w a = Some old"
    and "old = None \<or> higgaion_is_algorithm_allowed required alg"
  shows "\<exists>w' f. generate_keypair required E (Some a) alg w = Some w' \<and> steady w w'
    \<and> structs w' = (structs w)(a \<mapsto> f)
    \<and> (f \<noteq> None \<longrightarrow> higgaion_is_algorithm_allowed required alg)"
proof -
  have safe: "key_safe w" "key_ctxs w = {}" "md_ctxs w = {}" using assms(1) by (simp_all add: api_wf_def)
  have live: "live_struct w (Some a)" using assms(2) by (simp add: live_struct_def)
  obtain w' where w': "generate_keypair required E (Some a) alg w = Some w'" "key_safe w'"
    "key_ctxs w' = key_ctxs w" "\<forall>x. slack w' x = slack w x
       + of_bool (\<not> higgaion_is_algorithm_allowed required alg \<and> held w (Some a) = Some x)"
    using generate_keypair_safe [OF safe(1) live, of required E alg] by blast
  have "mem w' = mem w"
    using key_step_frame [of required E "KGenerate (Some a) alg" w w'] w'(1) by (simp add: key_step_def)
  moreover have "slack w' = slack w" using w'(4) assms(2,3) by (auto simp: fun_eq_iff held_def)
  ultimately have "steady w w'" using w'(2,3) safe by (simp add: steady_def api_wf_def mem_def)
  moreover have "\<exists>f. structs w' = (structs w)(a \<mapsto> f)
    \<and> (f \<noteq> None \<longrightarrow> higgaion_is_algorithm_allowed required alg)"
  proof (cases "higgaion_is_algorithm_allowed required alg")
    case True
    then show ?thesis
      using generate_keypair_result [OF safe(1) assms(2) True, of E] w'(1) by auto
  next
    case False
    then show ?thesis using w'(1) assms(2) by (auto simp: generate_keypair_def set_pkey_def)
  qed
  ultimately show ?thesis using w'(1) by blast
qed

lemma init_post:
  assumes "api_wf w" "structs w a = None"
  shows "\<exists>w'. higgaion_key_init (Some a) w = Some w' \<and> steady w w'
    \<and> structs w' = (structs w)(a \<mapsto> None)"
  using assms key_init_safe [of w "Some a"]
  by (auto simp: api_wf_def steady_def higgaion_key_init_def held_def fun_eq_iff)

text \<open>A new struct with a first attempt to make a key in it.\<close>

lemma fresh_key:
  assumes "api_wf w" "structs w a = None"
  obtains w0 w1 f where "higgaion_key_init (Some a) w = Some w0"
    "generate_keypair required E (Some a) alg w0 = Some w1"
    "steady w w1" "structs w1 = (structs w)(a \<mapsto> f)"
proof -
  obtain w0 where w0: "higgaion_key_init (Some a) w = Some w0" "steady w w0"
    "structs w0 = (structs w)(a \<mapsto> None)"
    using init_post [OF assms] by blast
  then have wf0: "api_wf w0" "structs w0 a = Some None" by (simp_all add: steady_def)
  obtain w1 f where "generate_keypair required E (Some a) alg w0 = Some w1" "steady w0 w1"
    "structs w1 = (structs w)(a \<mapsto> f)"
    using generate_post [OF wf0, of required alg E] w0(3) by auto
  with that w0(1) steady_trans [OF w0(2)] show thesis by blast
qed

text \<open>\<open>pqc_sign\<close> with a key, and \<open>free\<close> of what it returned.\<close>

lemma sign_post:
  assumes "api_wf w" "sign_fits E" "ds_readable message msg_len domain"
    and "structs w a = Some (Some obj)" "pkeys w obj = Some (k, cnt)"
  shows "\<exists>r n w'. pqc_sign E (Some s0) (Some l0) message msg_len domain (Some a) w =
      Some ((Some r, Some n), w')
    \<and> api_wf w' \<and> slack w' = slack w \<and> structs w' = structs w \<and> pkeys w' = pkeys w
    \<and> (case r of
         None \<Rightarrow> heap w' = heap w
       | Some sg \<Rightarrow> heap w sg = None \<and> (\<exists>bs. heap w' = (heap w)(sg \<mapsto> bs)
           \<and> ds_accepts message msg_len domain
           \<and> sign_result E (clock w) k (ds_encode (domain_bytes domain)
               (message_bytes message msg_len)) (ds_length domain msg_len) = (Some bs, n)))
    \<and> (\<not> ds_accepts message msg_len domain \<longrightarrow> r = None \<and> n = 0)
    \<and> (r = None \<longrightarrow> ds_accepts message msg_len domain \<longrightarrow>
         fst (sign_result E (clock w) k (ds_encode (domain_bytes domain)
           (message_bytes message msg_len)) (ds_length domain msg_len)) = None)"
proof -
  have safe: "key_safe w" using assms(1) by (simp add: api_wf_def)
  define res where "res = (if ds_accepts message msg_len domain
    then sign_result E (clock w) k (ds_encode (domain_bytes domain) (message_bytes message msg_len))
      (ds_length domain msg_len) else (None, 0))"
  obtain w' r n fs where w': "pqc_sign E (Some s0) (Some l0) message msg_len domain (Some a) w =
      Some ((Some r, Some n), w')" "n = snd res"
    "case fst res of
         None \<Rightarrow> r = None \<and> effect w w' (heap w) fs (md_ctxs w)
       | Some bs \<Rightarrow> \<exists>sg. r = Some sg \<and> heap w sg = None
           \<and> effect w w' ((heap w)(sg \<mapsto> bs)) fs (md_ctxs w)"
    using pqc_sign_effect [OF safe assms(2-5), of s0 l0] unfolding res_def [symmetric] by blast
  then obtain h where h: "effect w w' h fs (md_ctxs w)" by (cases "fst res") auto
  then have "api_wf w'" "slack w' = slack w" "structs w' = structs w" "pkeys w' = pkeys w"
    using api_post_effect [OF assms(1) h] by (simp_all add: api_post_def effect_def)
  moreover have "case r of None \<Rightarrow> heap w' = heap w
     | Some sg \<Rightarrow> heap w sg = None \<and> (\<exists>bs. heap w' = (heap w)(sg \<mapsto> bs) \<and> res = (Some bs, n))"
    using w'(2,3) by (cases "fst res") (auto simp: effect_def prod_eq_iff)
  then have "case r of None \<Rightarrow> heap w' = heap w
     | Some sg \<Rightarrow> heap w sg = None \<and> (\<exists>bs. heap w' = (heap w)(sg \<mapsto> bs)
         \<and> ds_accepts message msg_len domain
         \<and> sign_result E (clock w) k (ds_encode (domain_bytes domain)
             (message_bytes message msg_len)) (ds_length domain msg_len) = (Some bs, n))"
    by (cases r) (auto simp: res_def split: if_splits)
  moreover have "r = None \<and> n = 0" if "\<not> ds_accepts message msg_len domain"
    using that w'(2,3) by (simp add: res_def)
  moreover have "fst res = None" if "r = None" using that w'(3) by (cases "fst res") auto
  then have "fst (sign_result E (clock w) k (ds_encode (domain_bytes domain)
      (message_bytes message msg_len)) (ds_length domain msg_len)) = None"
    if "r = None" "ds_accepts message msg_len domain"
    using that by (simp add: res_def)
  ultimately show ?thesis using w'(1) by blast
qed

lemma sign_refused:
  assumes "api_wf w" "sign_fits E" "ds_readable message msg_len domain"
    and "structs w a = Some (Some obj)" "pkeys w obj = Some (k, cnt)"
    and "fst (sign_result E (clock w) k (ds_encode (domain_bytes domain) (message_bytes message msg_len))
      (ds_length domain msg_len)) = None"
  shows "\<exists>n w'. pqc_sign E (Some s0) (Some l0) message msg_len domain (Some a) w =
      Some ((Some None, Some n), w') \<and> steady w w' \<and> structs w' = structs w \<and> pkeys w' = pkeys w"
proof -
  obtain r n w' where w': "pqc_sign E (Some s0) (Some l0) message msg_len domain (Some a) w =
      Some ((Some r, Some n), w')"
    "api_wf w'" "slack w' = slack w" "structs w' = structs w" "pkeys w' = pkeys w"
    "case r of
       None \<Rightarrow> heap w' = heap w
     | Some sg \<Rightarrow> heap w sg = None \<and> (\<exists>bs. heap w' = (heap w)(sg \<mapsto> bs)
         \<and> ds_accepts message msg_len domain
         \<and> sign_result E (clock w) k (ds_encode (domain_bytes domain)
             (message_bytes message msg_len)) (ds_length domain msg_len) = (Some bs, n))"
    using sign_post [OF assms(1-5), of s0 l0] by blast
  then have "r = None" using assms(6) by (cases r) auto
  with w' show ?thesis by (simp add: steady_def)
qed

lemma free_post:
  assumes "api_wf w'" "heap w sg = None" "heap w' = (heap w)(sg \<mapsto> bs)"
  shows "\<exists>v. free_block sg w' = Some v \<and> api_wf v \<and> heap v = heap w \<and> slack v = slack w'
    \<and> structs v = structs w' \<and> pkeys v = pkeys w'"
proof -
  obtain v where v: "free_block sg w' = Some v" "api_post w' v (dom (heap w') - {sg})"
    "slack v = slack w'" "structs v = structs w'"
    using api_free_post [OF assms(1), of sg] assms(3) by auto
  then have "heap v = (heap w')(sg := None)" "pkeys v = pkeys w'"
    by (auto simp: free_block_def split: option.splits)
  with v assms(2,3) show ?thesis by (auto simp: api_post_def fun_upd_idem)
qed

subsection \<open>The fuzzing entry point\<close>

text \<open>\<open>char alg_name[64] = {0}\<close> with at most 63 bytes of the input copied over its start.\<close>

definition fuzz_alg_name :: "bytes \<Rightarrow> string" where
  "fuzz_alg_name data =
     (let alg_name = replicate 64 0;
          copy_size = (if length data > 63 then 63 else length data);
          alg_name = put_slice 0 (take copy_size data) alg_name in
      map (\<lambda>b. char_of (unat b)) (cstr alg_name))"

definition fuzz_domain :: bytes where
  "fuzz_domain = bytes_of ''fuzz_domain'' @ [0]"

definition fuzz_wal :: string where
  "fuzz_wal = ''/tmp/fuzz_erasure.wal''"

definition LLVMFuzzerTestOneInput ::
  "bool \<Rightarrow> 'k evp \<Rightarrow> os \<Rightarrow> addr \<Rightarrow> bytes \<Rightarrow> 'k world \<Rightarrow> ((int \<times> event list) \<times> 'k world) option" where
  "LLVMFuzzerTestOneInput required E os key data w =
     (if length data < 8 then Some ((0, []), w)
      else do {
        w \<leftarrow> higgaion_key_init (Some key) w;
        w \<leftarrow> generate_keypair required E (Some key) (Some (fuzz_alg_name data)) w;
        field \<leftarrow> get_pkey key w;
        w \<leftarrow> (case field of
                None \<Rightarrow> Some w
              | Some _ \<Rightarrow> do {
                  ((sig, sig_len), w) \<leftarrow> pqc_sign E (Some None) (Some 0) (Some data)
                    (of_nat (length data)) (Some fuzz_domain) (Some key) w;
                  (case sig of Some (Some s) \<Rightarrow> free_block s w | _ \<Rightarrow> Some w) });
        ((r, evs), w) \<leftarrow> higgaion_key_erase_durable os (Some key) (Some fuzz_wal) w;
        Some ((0, evs), leave_frame key w) })"

text \<open>The marker file is announced, so that the erasure goes on to release the key.\<close>

definition marker_written :: "os \<Rightarrow> string \<Rightarrow> bool" where
  "marker_written os path \<longleftrightarrow> length (path @ ''.tmp'') < 1024 \<and> open_ok os (path @ ''.tmp'')
     \<and> write_rc1 os = 7"

lemma fuzz_readable:
  assumes "length data < 2 ^ 64"
  shows "ds_readable (Some data) (of_nat (length data)) (Some fuzz_domain)"
  using assms unat_of_nat_fits [where 'a = 64, of "length data"]
  by (simp add: ds_readable_def domain_length_def fuzz_domain_def bytes_of_def HIGGAION_DOMAIN_MAX_LEN_def)

lemma erase_post:
  assumes "api_wf w" "structs w a = Some f"
  shows "\<exists>r evs w'. higgaion_key_erase_durable os (Some a) (Some path) w = Some ((r, evs), w')
    \<and> api_wf w' \<and> slack w' = slack w \<and> heap w' = heap w
    \<and> structs w' = (if marker_written os path then (structs w)(a \<mapsto> None) else structs w)"
proof -
  have safe: "key_safe w" and sub: "set_option (Some a) \<subseteq> dom (structs w)"
    using assms by (auto simp: api_wf_def)
  obtain r evs w' where w': "higgaion_key_erase_durable os (Some a) (Some path) w = Some ((r, evs), w')"
    "key_safe w'" "slack w' = slack w" "mem w' = mem w" "key_ctxs w' = key_ctxs w"
    using erase_progress [OF safe sub, of os "Some path"] by blast
  have "structs w' = (if marker_written os path then (structs w)(a \<mapsto> None) else structs w)"
  proof (cases f)
    case None
    with w'(1) assms(2) show ?thesis by (auto simp: higgaion_key_erase_durable_def get_pkey_def)
  next
    case (Some obj)
    with drop_reference [OF safe, of a obj] assms(2) obtain p w1 where
      p: "pkey_free obj w = Some w1"
        "set_pkey a None w1 = Some (w\<lparr>pkeys := p, structs := (structs w)(a \<mapsto> None)\<rparr>)"
      by (auto simp: bind_eq_Some_conv)
    have "structs w a = Some (Some obj)" using assms(2) Some by simp
    from erase_eq [OF this p, of os path] w'(1) show ?thesis
      by (auto simp: marker_written_def split: if_splits)
  qed
  with w' assms(1) show ?thesis by (auto simp: api_wf_def mem_def)
qed


text \<open>The call of \<open>pqc_sign\<close> with the \<open>free\<close> that follows it.\<close>

lemma sign_and_free:
  assumes "api_wf w" "sign_fits E" "ds_readable message msg_len domain"
    and "structs w a = Some (Some obj)"
  shows "\<exists>sig n w1 w2. pqc_sign E (Some s0) (Some l0) message msg_len domain (Some a) w =
      Some ((Some sig, n), w1)
    \<and> (case sig of Some s \<Rightarrow> free_block s w1 | None \<Rightarrow> Some w1) = Some w2
    \<and> steady w w2 \<and> structs w2 = structs w"
proof -
  have safe: "key_safe w" using assms(1) by (simp add: api_wf_def)
  obtain k cnt where k: "pkeys w obj = Some (k, cnt)" using key_safe_held [OF safe assms(4)] by blast
  obtain r n w1 where w1: "pqc_sign E (Some s0) (Some l0) message msg_len domain (Some a) w =
      Some ((Some r, Some n), w1)"
    "api_wf w1" "slack w1 = slack w" "structs w1 = structs w"
    "case r of
       None \<Rightarrow> heap w1 = heap w
     | Some sg \<Rightarrow> heap w sg = None \<and> (\<exists>bs. heap w1 = (heap w)(sg \<mapsto> bs)
         \<and> ds_accepts message msg_len domain
         \<and> sign_result E (clock w) k (ds_encode (domain_bytes domain)
             (message_bytes message msg_len)) (ds_length domain msg_len) = (Some bs, n))"
    using sign_post [OF assms k, of s0 l0] by blast
  show ?thesis
  proof (cases r)
    case None
    with w1 show ?thesis by (simp add: steady_def)
  next
    case (Some sg)
    with w1(5) obtain bs where bs: "heap w sg = None" "heap w1 = (heap w)(sg \<mapsto> bs)" by auto
    from free_post [OF w1(2) bs] w1(1,3,4) Some show ?thesis by (auto simp: steady_def)
  qed
qed

lemma fuzz_sign:
  assumes "api_wf w" "sign_fits E" "structs w key = Some made" "length data < 2 ^ 64"
  shows "\<exists>w'. (case made of
        None \<Rightarrow> Some w
      | Some _ \<Rightarrow> do {
          ((sig, sig_len), w) \<leftarrow> pqc_sign E (Some None) (Some 0) (Some data)
            (of_nat (length data)) (Some fuzz_domain) (Some key) w;
          (case sig of Some (Some s) \<Rightarrow> free_block s w | _ \<Rightarrow> Some w) }) = Some w'
    \<and> steady w w' \<and> structs w' = structs w"
proof (cases made)
  case None
  with assms(1) show ?thesis by (simp add: steady_def)
next
  case (Some obj)
  then have "structs w key = Some (Some obj)" using assms(3) by simp
  from sign_and_free [OF assms(1,2) fuzz_readable [OF assms(4)] this, of None 0]
  obtain sig n v v' where v: "pqc_sign E (Some None) (Some 0) (Some data)
        (of_nat (length data)) (Some fuzz_domain) (Some key) w = Some ((Some sig, n), v)"
    "(case sig of Some s \<Rightarrow> free_block s v | None \<Rightarrow> Some v) = Some v'"
    "steady w v'" "structs v' = structs w"
    by (elim exE conjE)
  with Some show ?thesis by (cases sig) simp_all
qed

text \<open>
  C30. The fuzzing entry point: for every input shorter than the address space, every library
  behaviour and every pattern of file errors, the run is defined, returns 0 and leaves the
  heap and the structs as it found them. It leaves no key behind unless the erasure could not write its
  first marker; the entry point ignores that answer, so the key made for this input is then
  lost with its struct.
\<close>

theorem fuzz_input_leaves_nothing:
  assumes "sign_fits E" "api_wf w" "structs w key = None"
    and "8 \<le> length data" "length data < 2 ^ 64"
  shows "\<exists>evs w' w0 w1 made. LLVMFuzzerTestOneInput required E os key data w = Some ((0, evs), w')
    \<and> api_wf w' \<and> heap w' = heap w \<and> structs w' = structs w
    \<and> higgaion_key_init (Some key) w = Some w0
    \<and> generate_keypair required E (Some key) (Some (fuzz_alg_name data)) w0 = Some w1
    \<and> structs w1 key = Some made
    \<and> slack w' = (\<lambda>obj. slack w obj + of_bool (made = Some obj \<and> \<not> marker_written os fuzz_wal))"
proof -
  obtain w0 w1 made where w0: "higgaion_key_init (Some key) w = Some w0"
    and w1: "generate_keypair required E (Some key) (Some (fuzz_alg_name data)) w0 = Some w1"
      "steady w w1" "structs w1 = (structs w)(key \<mapsto> made)"
    by (rule fresh_key [OF assms(2,3)])
  then have wf1: "api_wf w1" "structs w1 key = Some made" by (simp_all add: steady_def)
  from fuzz_sign [OF wf1(1) assms(1) wf1(2) assms(5)] obtain w2 where
    w2: "(case made of
        None \<Rightarrow> Some w1
      | Some _ \<Rightarrow> do {
          ((sig, sig_len), w) \<leftarrow> pqc_sign E (Some None) (Some 0) (Some data)
            (of_nat (length data)) (Some fuzz_domain) (Some key) w1;
          (case sig of Some (Some s) \<Rightarrow> free_block s w | _ \<Rightarrow> Some w) }) = Some w2"
      "steady w1 w2" "structs w2 = structs w1" by blast
  then have wf2: "api_wf w2" "structs w2 key = Some made" using wf1(2) by (simp_all add: steady_def)
  obtain r evs w3 where w3: "higgaion_key_erase_durable os (Some key) (Some fuzz_wal) w2 = Some ((r, evs), w3)"
    "api_wf w3" "slack w3 = slack w2" "heap w3 = heap w2"
    "structs w3 = (if marker_written os fuzz_wal then (structs w2)(key \<mapsto> None) else structs w2)"
    using erase_post [OF wf2, of os fuzz_wal] by blast
  have st: "steady w w2" using w1(2) w2(2) by (rule steady_trans)
  have last: "structs w3 key = Some (if marker_written os fuzz_wal then None else made)"
    using w3(5) wf2(2) by simp
  have run: "LLVMFuzzerTestOneInput required E os key data w = Some ((0, evs), leave_frame key w3)"
    using assms(4) w0 w1(1) wf1(2) w2(1) w3(1)
    by (simp add: LLVMFuzzerTestOneInput_def get_pkey_def)
  have "structs (leave_frame key w3) = structs w"
    using w3(5) w2(3) w1(3) assms(3) by (auto simp: leave_frame_def fun_upd_idem)
  moreover have "heap (leave_frame key w3) = heap w"
    using w3(4) st by (simp add: leave_frame_def steady_def)
  moreover have "slack (leave_frame key w3) =
      (\<lambda>obj. slack w obj + of_bool (made = Some obj \<and> \<not> marker_written os fuzz_wal))"
    using leave_frame_post(2) [OF w3(2) last] w3(3) st by (auto simp: steady_def fun_eq_iff)
  ultimately show ?thesis
    using run leave_frame_post(1) [OF w3(2) last] w0 w1(1) wf1(2) by blast
qed

text \<open>An input that names an algorithm, and a disk on which no file can be created.\<close>

definition ml_dsa_input :: bytes where
  "ml_dsa_input = bytes_of ''ML-DSA-87''"

definition full_disk :: os where
  "full_disk = calm_os\<lparr>open_ok := (\<lambda>p. False)\<rparr>"

lemma ml_dsa_input_name: "fuzz_alg_name ml_dsa_input = ''ML-DSA-87''"
  by code_simp

lemma full_disk_no_marker: "\<not> marker_written full_disk fuzz_wal"
  by (simp add: marker_written_def full_disk_def)

lemma fresh_slot: "structs signing_world 12 = None"
  by simp

lemma ml_dsa_made:
  "\<exists>w1. (higgaion_key_init (Some 12) signing_world \<bind>
      generate_keypair True ideal_evp (Some 12) (Some ''ML-DSA-87'')) = Some w1
    \<and> structs w1 12 = Some (Some 21)"
  by (simp add: higgaion_key_init_def generate_keypair_def generate_fresh_def evp_keygen_def
      log_provider_def higgaion_is_algorithm_allowed_def HIGGAION_PQC_ALLOWLIST_def key_ctx_new_def
      key_ctx_free_def get_pkey_def set_pkey_def pkey_material_def Let_def ext_call_def log_message_def)

lemma fuzz_input_leaves_nothing_witness:
  "\<exists>evs w'. LLVMFuzzerTestOneInput True ideal_evp full_disk 12 ml_dsa_input signing_world =
      Some ((0, evs), w')
    \<and> heap w' = Map.empty \<and> slack w' 21 = slack signing_world 21 + 1"
proof -
  have len: "8 \<le> length ml_dsa_input" "length ml_dsa_input < 2 ^ 64"
    by (simp_all add: ml_dsa_input_def)
  from fuzz_input_leaves_nothing [OF ideal_sign_fits signing_world_wf fresh_slot len,
      of True full_disk, unfolded ml_dsa_input_name] ml_dsa_made full_disk_no_marker
  show ?thesis by auto
qed

subsection \<open>Programs with assertions\<close>

datatype exit = Exit int | Abort nat

text \<open>A C string as the bytes of its literal.\<close>

definition literal :: "string \<Rightarrow> bytes" where
  "literal s = bytes_of s @ [0]"

text \<open>\<open>buf[i] = v\<close> on a local array; outside the array it is undefined.\<close>

definition store :: "nat \<Rightarrow> byte \<Rightarrow> bytes \<Rightarrow> bytes option" where
  "store i v buf = (if i < length buf then Some (buf[i := v]) else None)"

primrec fill_loop :: "nat \<Rightarrow> byte \<Rightarrow> bytes \<Rightarrow> bytes option" where
  "fill_loop 0 c buf = Some buf"
| "fill_loop (Suc i) c buf = do { buf \<leftarrow> fill_loop i c buf; store i c buf }"

definition fill :: "bytes \<Rightarrow> nat \<Rightarrow> byte \<Rightarrow> bytes option" where
  "fill buf n c = do { buf \<leftarrow> fill_loop n c buf; store n 0 buf }"

lemma fill_loop_eq: "n \<le> length buf \<Longrightarrow> fill_loop n c buf = Some (replicate n c @ drop n buf)"
proof (induction n)
  case (Suc n)
  then have "replicate n c @ drop n buf = replicate n c @ buf ! n # drop (Suc n) buf"
    by (simp add: Cons_nth_drop_Suc)
  with Suc show ?case by (simp add: store_def list_update_append replicate_append_same)
qed simp

lemma fill_eq: "n < length buf \<Longrightarrow> fill buf n c = Some (replicate n c @ 0 # drop (Suc n) buf)"
  using Cons_nth_drop_Suc [of n buf]
  by (simp add: fill_def fill_loop_eq store_def list_update_append)
    (metis list_update_code(2))

text \<open>The algorithm the tests ask for: \<open>required\<close> is the build without \<open>HIGGAION_ALLOW_CLASSICAL\<close>.\<close>

definition test_alg :: "bool \<Rightarrow> string" where
  "test_alg required = (if required then ''ML-DSA-87'' else ''ED25519'')"

lemma test_alg_allowed: "higgaion_is_algorithm_allowed required (Some (test_alg required))"
  by (simp add: higgaion_is_algorithm_allowed_def test_alg_def HIGGAION_PQC_ALLOWLIST_def)

subsection \<open>The domain separation test\<close>

text \<open>Test 1: \<open>("A", "BC")\<close> against \<open>("AB", "C")\<close>. \<open>None\<close> means that no assertion failed.\<close>

definition prefix_collision_test ::
  "'k evp \<Rightarrow> addr \<Rightarrow> 'k world \<Rightarrow> (exit option \<times> 'k world) option" where
  "prefix_collision_test E key w = do {
     ((sig, sig_len), w) \<leftarrow>
       pqc_sign E (Some None) (Some 0) (Some (literal ''BC'')) 2 (Some (literal ''A'')) (Some key) w;
     (case (sig, sig_len) of
        (Some (Some s), Some n) \<Rightarrow>
          if \<not> n > 0 then Some (Some (Abort 42), w)
          else do {
            (ok, w) \<leftarrow>
              pqc_verify E (Some (literal ''C'')) 1 (heap w s) n (Some (literal ''AB'')) (Some key) w;
            if ok then Some (Some (Abort 47), w)
            else do { w \<leftarrow> free_block s w; Some (None, w) } }
      | _ \<Rightarrow> Some (Some (Abort 41), w)) }"

text \<open>The two arrays of test 2; \<open>stack\<close> is what they held before.\<close>

definition domain_arrays :: "(nat \<Rightarrow> byte) \<Rightarrow> (bytes \<times> bytes) option" where
  "domain_arrays stack = do {
     dom_ok \<leftarrow> fill (map stack [0..<HIGGAION_DOMAIN_MAX_LEN + 1]) HIGGAION_DOMAIN_MAX_LEN 65;
     dom_too_long \<leftarrow> fill (map stack [0..<HIGGAION_DOMAIN_MAX_LEN + 2]) HIGGAION_DOMAIN_MAX_LEN 65;
     dom_too_long \<leftarrow> store HIGGAION_DOMAIN_MAX_LEN 66 dom_too_long;
     dom_too_long \<leftarrow> store (HIGGAION_DOMAIN_MAX_LEN + 1) 0 dom_too_long;
     Some (dom_ok, dom_too_long) }"

text \<open>Test 2: a domain of one byte more than the limit.\<close>

definition overlong_domain_test ::
  "'k evp \<Rightarrow> (nat \<Rightarrow> byte) \<Rightarrow> addr \<Rightarrow> 'k world \<Rightarrow> (exit option \<times> 'k world) option" where
  "overlong_domain_test E stack key w = do {
     (dom_ok, dom_too_long) \<leftarrow> domain_arrays stack;
     ((sig, sig_len), w) \<leftarrow> pqc_sign E (Some (Some 1)) (Some 123) (Some (literal ''payload'')) 7
       (Some dom_too_long) (Some key) w;
     if sig \<noteq> Some None then Some (Some (Abort 69), w)
     else if sig_len \<noteq> Some 0 then Some (Some (Abort 70), w)
     else do {
       ((sig_ok, sig_ok_len), w) \<leftarrow> pqc_sign E (Some None) (Some 0) (Some (literal ''payload'')) 7
         (Some dom_ok) (Some key) w;
       (case (sig_ok, sig_ok_len) of
          (Some (Some s), Some n) \<Rightarrow>
            if \<not> n > 0 then Some (Some (Abort 77), w)
            else do {
              (ok, w) \<leftarrow> pqc_verify E (Some (literal ''payload'')) 7 (heap w s) n
                (Some dom_too_long) (Some key) w;
              if ok then Some (Some (Abort 81), w)
              else do { w \<leftarrow> free_block s w; Some (None, w) } }
        | _ \<Rightarrow> Some (Some (Abort 76), w)) } }"

text \<open>The two tests in turn, and the end of the program.\<close>

definition separation_tests :: "'k evp \<Rightarrow> (nat \<Rightarrow> byte) \<Rightarrow> addr \<Rightarrow> 'k world \<Rightarrow> (exit \<times> 'k world) option" where
  "separation_tests E stack key w = do {
     (failed, w) \<leftarrow> prefix_collision_test E key w;
     (case failed of
        Some e \<Rightarrow> Some (e, w)
      | None \<Rightarrow> do {
          (failed, w) \<leftarrow> overlong_domain_test E stack key w;
          (case failed of
             Some e \<Rightarrow> Some (e, w)
           | None \<Rightarrow> do {
               w \<leftarrow> higgaion_key_free (Some key) w;
               Some (Exit 0, leave_frame key w) }) }) }"

definition domain_separation_main ::
  "bool \<Rightarrow> 'k evp \<Rightarrow> (nat \<Rightarrow> byte) \<Rightarrow> addr \<Rightarrow> 'k world \<Rightarrow> (exit \<times> 'k world) option" where
  "domain_separation_main required E stack key w = do {
     w \<leftarrow> higgaion_key_init (Some key) w;
     w \<leftarrow> generate_keypair required E (Some key) (Some (test_alg required)) w;
     field \<leftarrow> get_pkey key w;
     (case field of
        None \<Rightarrow> Some (Exit 1, leave_frame key w)
      | Some _ \<Rightarrow> separation_tests E stack key w) }"

text \<open>
  What the tests rely on, of the signature scheme: a signature is not empty and has the length
  reported, and among the byte strings \<open>M\<close> it is accepted only for the one it was made for.
\<close>

definition sig_sized :: "'k evp \<Rightarrow> bool" where
  "sig_sized E \<longleftrightarrow>
     (\<forall>c k msg n. case sign_exec E c k msg n of (rc, out, n') \<Rightarrow>
        rc > 0 \<longrightarrow> out \<noteq> [] \<and> unat n' = length out)"

definition sig_binding :: "'k evp \<Rightarrow> bytes set \<Rightarrow> bool" where
  "sig_binding E M \<longleftrightarrow>
     (\<forall>c c' k n. \<forall>msg \<in> M. \<forall>msg' \<in> M. case sign_exec E c k msg n of (rc, out, n') \<Rightarrow>
        rc > 0 \<longrightarrow> verify_exec E c' k out msg' = 1 \<longrightarrow> msg' = msg)"

text \<open>The two encodings that the first test makes the scheme tell apart.\<close>

definition test_messages :: "bytes set" where
  "test_messages = {ds_encode [65] [66, 67], ds_encode [65, 66] [67]}"

text \<open>A library in which no call fails, on messages of less than 4 GB.\<close>

definition serves :: "'k evp \<Rightarrow> bool" where
  "serves E \<longleftrightarrow>
     (\<forall>c n. malloc_ok E c n) \<and> (\<forall>c. md_ctx_ok E c) \<and> (\<forall>c alg. ctx_new_from_name E c alg)
     \<and> (\<forall>c alg. keygen_init E c alg > 0)
     \<and> (\<forall>c alg. fst (keygen E c alg) > 0 \<and> snd (keygen E c alg) \<noteq> None)
     \<and> (\<forall>c k. sign_init E c k > 0 \<and> verify_init E c k > 0)
     \<and> (\<forall>c c' k msg. length msg < 2 ^ 32 \<longrightarrow> fst (sign_size E c k msg) > 0
          \<and> fst (sign_exec E c' k msg (snd (sign_size E c k msg))) > 0)"

lemma sign_result_sized:
  assumes "sig_sized E" "sign_fits E" "sign_result E c k msg t = (Some blk, len)"
  shows "0 < len" "unat len \<le> length blk"
    "sig_binding E M \<Longrightarrow> msg \<in> M \<Longrightarrow> msg' \<in> M \<Longrightarrow>
       verify_exec E c' k (take (unat len) blk) msg' = 1 \<Longrightarrow> msg' = msg"
proof -
  obtain c0 n rc out where out: "sign_exec E c0 k msg n = (rc, out, len)" "rc > 0"
    "blk = put_slice 0 out (replicate (unat n) 0)"
    using sign_result_out [OF assms(3)] by blast
  have b: "out \<noteq> []" "unat len = length out"
    using assms(1) out(1,2) unfolding sig_sized_def by (metis (mono_tags, lifting) case_prod_conv)+
  note blk = sign_block [OF assms(2) out(1) b(2,1)]
  show "0 < len" "unat len \<le> length blk" using blk unfolding out(3) by simp_all
  assume m: "sig_binding E M" "msg \<in> M" "msg' \<in> M"
    and "verify_exec E c' k (take (unat len) blk) msg' = 1"
  then have v: "verify_exec E c' k out msg' = 1" unfolding out(3) blk(3) by simp
  have "case sign_exec E c0 k msg n of (rc, out, n') \<Rightarrow>
      rc > 0 \<longrightarrow> verify_exec E c' k out msg' = 1 \<longrightarrow> msg' = msg"
    by (rule m(1) [unfolded sig_binding_def, rule_format, OF m(2,3)])
  with out(1,2) v show "msg' = msg" by simp
qed

lemma serves_sign_result:
  assumes "serves E" "length msg < 2 ^ 32"
  shows "\<exists>blk n. sign_result E c k msg t = (Some blk, n)"
proof -
  obtain rc n where size: "sign_size E (c + 3) k msg = (rc, n)" by fastforce
  obtain rc' out n' where ex: "sign_exec E (c + 5) k msg n = (rc', out, n')" by (metis prod_cases3)
  have "0 < fst (sign_size E (c + 3) k msg)"
    "0 < fst (sign_exec E (c + 5) k msg (snd (sign_size E (c + 3) k msg)))"
    using assms by (simp_all add: serves_def)
  then have "0 < rc" "0 < rc'" using size ex by simp_all
  moreover have "malloc_ok E i m" "md_ctx_ok E i" "sign_init E i k > 0" for i m
    using assms(1) by (simp_all add: serves_def)
  ultimately show ?thesis
    using size ex by (simp add: sign_result_def sign_context_result_def numeral_eq_Suc not_le)
qed

lemma accepted_short:
  assumes "ds_accepts message len domain" "ds_readable message len domain"
  shows "length (ds_encode (domain_bytes domain) (message_bytes message len)) < 2 ^ 32"
proof -
  have "length (message_bytes message len) \<le> unat len" by (auto simp: message_bytes_def split: option.split)
  moreover have "unat len \<le> 104857600"
    using assms(1) by (simp add: ds_accepts_def word_le_nat_alt)
  ultimately show ?thesis
    using assms(1) by (simp add: ds_accepts_def length_ds_encode HIGGAION_DOMAIN_MAX_LEN_def)
qed

lemma serves_generate:
  fixes w :: "'k world"
  assumes "serves E" "higgaion_is_algorithm_allowed required (Some alg)"
    and "generate_keypair required E (Some a) (Some alg) w = Some w'"
  shows "structs w' a \<noteq> Some None"
proof -
  obtain w0 where w0: "generate_fresh E a alg w0 = Some w'"
    using assms(3) generate_keypair_allowed [OF assms(2), of E a w] by (auto simp: bind_eq_Some_conv)
  have new: "key_ctx_new E alg w0 = (Some (brk w0), snd (key_ctx_new E alg w0))"
    using assms(1) by (simp add: serves_def key_ctx_new_def Let_def)
  have keygen: "structs v' a = Some (Some (brk v))" if "evp_keygen E a alg v = Some (rc, v')" for v v' :: "'k world" and rc
  proof -
    have "snd (keygen E (clock v) alg) \<noteq> None" using assms(1) unfolding serves_def by blast
    then obtain k where "snd (keygen E (clock v) alg) = Some k" by blast
    with that show ?thesis
      by (auto simp: evp_keygen_def bind_eq_Some_conv set_pkey_def case_prod_beta Let_def
          split: option.splits)
  qed
  have rc: "rc > 0" if "evp_keygen E a alg v = Some (rc, v')" for v v' :: "'k world" and rc
    using that assms(1)
    by (auto simp: evp_keygen_def serves_def bind_eq_Some_conv case_prod_beta Let_def split: option.splits)
  have ctx: "structs v' = structs v" if "key_ctx_free c v = Some v'" for c and v v' :: "'k world"
    using that by (auto simp: key_ctx_free_def split: if_splits)
  have log: "structs v' = structs v" if "log_provider E a alg v = Some v'" for v v' :: "'k world"
    using that by (auto simp: log_provider_def bind_eq_Some_conv split: option.splits)
  have "\<not> keygen_init E c alg \<le> 0" for c using assms(1) by (simp add: serves_def not_le)
  with w0 have "do {
      (rc, v1) \<leftarrow> evp_keygen E a alg (ext_call E (snd (key_ctx_new E alg w0)));
      if rc \<le> 0 then key_ctx_free (brk w0) (log_openssl_error ''EVP_PKEY_keygen'' v1)
      else do { v2 \<leftarrow> key_ctx_free (brk w0) v1; log_provider E a alg v2 } } = Some w'"
    unfolding generate_fresh_def by (subst (asm) new) simp
  then obtain v rc v1 v2 where v: "evp_keygen E a alg v = Some (rc, v1)"
    "key_ctx_free (brk w0) v1 = Some v2" "log_provider E a alg v2 = Some w'"
    by (auto simp: bind_eq_Some_conv dest: rc split: if_splits)
  with keygen [OF v(1)] ctx [OF v(2)] log [OF v(3)] show ?thesis by simp
qed

text \<open>
  Signing one pair and presenting the signature for another: the verifier answers false
  and \<open>free\<close> restores the heap.
\<close>

lemma sign_then_reject:
  assumes "api_wf w" "sign_fits E" "sig_sized E" "structs w a = Some (Some obj)"
    and "ds_readable message len domain" "ds_readable message' len' domain'"
  defines "enc \<equiv> ds_encode (domain_bytes domain) (message_bytes message len)"
    and "enc' \<equiv> ds_encode (domain_bytes domain') (message_bytes message' len')"
  assumes "\<not> ds_accepts message' len' domain'
    \<or> sig_binding E M \<and> enc \<in> M \<and> enc' \<in> M
        \<and> (domain_bytes domain', message_bytes message' len') \<noteq> (domain_bytes domain, message_bytes message len)"
  shows "\<exists>r n w1. pqc_sign E (Some s0) (Some l0) message len domain (Some a) w =
      Some ((Some r, Some n), w1)
    \<and> (case r of
         None \<Rightarrow> \<not> serves E \<or> \<not> ds_accepts message len domain
       | Some s \<Rightarrow> n > 0 \<and> (\<exists>w2 w3.
           pqc_verify E message' len' (heap w1 s) n domain' (Some a) w1 = Some (False, w2)
           \<and> free_block s w2 = Some w3 \<and> steady w w3 \<and> structs w3 = structs w))"
proof -
  have safe: "key_safe w" using assms(1) by (simp add: api_wf_def)
  obtain k cnt where k: "pkeys w obj = Some (k, cnt)" using key_safe_held [OF safe assms(4)] by blast
  obtain r n w1 where w1: "pqc_sign E (Some s0) (Some l0) message len domain (Some a) w =
      Some ((Some r, Some n), w1)"
    "api_wf w1" "slack w1 = slack w" "structs w1 = structs w" "pkeys w1 = pkeys w"
    "case r of
       None \<Rightarrow> heap w1 = heap w
     | Some sg \<Rightarrow> heap w sg = None \<and> (\<exists>bs. heap w1 = (heap w)(sg \<mapsto> bs)
         \<and> ds_accepts message len domain
         \<and> sign_result E (clock w) k enc (ds_length domain len) = (Some bs, n))"
    "r = None \<longrightarrow> ds_accepts message len domain \<longrightarrow>
       fst (sign_result E (clock w) k enc (ds_length domain len)) = None"
    using sign_post [OF assms(1,2,5,4) k, of s0 l0] unfolding enc_def by blast
  show ?thesis
  proof (cases r)
    case None
    have "\<not> serves E \<or> \<not> ds_accepts message len domain"
      using serves_sign_result [of E enc "clock w" k "ds_length domain len"] w1(7) None
        accepted_short [OF _ assms(5)] unfolding enc_def by auto
    with w1(1) None show ?thesis by simp
  next
    case (Some sg)
    then obtain bs where bs: "heap w sg = None" "heap w1 = (heap w)(sg \<mapsto> bs)"
      "ds_accepts message len domain"
      "sign_result E (clock w) k enc (ds_length domain len) = (Some bs, n)"
      using w1(6) by auto
    note made = sign_result_sized [OF assms(3,2) bs(4)]
    have safe1: "key_safe w1" and held1: "structs w1 a = Some (Some obj)" "pkeys w1 obj = Some (k, cnt)"
      using w1(2,4,5) assms(4) k by (simp_all add: api_wf_def)
    have n0: "n \<noteq> 0" using made(1) by auto
    obtain w2 fs where w2: "pqc_verify E message' len' (Some bs) n domain' (Some a) w1 =
        Some (ds_accepts message' len' domain'
          \<and> verify_result E (clock w1) k enc' (ds_length domain' len') (take (unat n) bs), w2)"
      "effect w1 w2 (heap w1) fs (md_ctxs w1)"
      using pqc_verify_effect [OF safe1 assms(6) held1 made(2) n0, of E] unfolding enc'_def by blast
    have "\<not> (ds_accepts message' len' domain'
          \<and> verify_result E (clock w1) k enc' (ds_length domain' len') (take (unat n) bs))"
    proof
      assume acc: "ds_accepts message' len' domain'
          \<and> verify_result E (clock w1) k enc' (ds_length domain' len') (take (unat n) bs)"
      with assms(9) have sep: "sig_binding E M" "enc \<in> M" "enc' \<in> M"
        "(domain_bytes domain', message_bytes message' len') \<noteq> (domain_bytes domain, message_bytes message len)"
        by blast+
      have "enc' = enc" using made(3) [OF sep(1-3)] acc by (auto simp: verify_result_def)
      then have "(domain_bytes domain', message_bytes message' len') =
          (domain_bytes domain, message_bytes message len)"
        using ds.put_prefix_free [of "(domain_bytes domain', message_bytes message' len')"
            "(domain_bytes domain, message_bytes message len)" "[]" "[]"]
          ds_accepts_small [OF _ assms(6)] ds_accepts_small [OF bs(3) assms(5)] acc
        by (simp add: enc_def enc'_def)
      with sep(4) show False by simp
    qed
    with w2(1) bs(2) have v: "pqc_verify E message' len' (heap w1 sg) n domain' (Some a) w1 = Some (False, w2)"
      by simp
    have w2s: "api_wf w2" "slack w2 = slack w1" "structs w2 = structs w1" "heap w2 = heap w1"
      using api_post_effect [OF w1(2) w2(2)] w2(2) by (simp_all add: api_post_def effect_def)
    obtain w3 where w3: "free_block sg w2 = Some w3" "api_wf w3" "heap w3 = heap w" "slack w3 = slack w2"
      "structs w3 = structs w2"
      using free_post [OF w2s(1) bs(1)] bs(2) w2s(4) by auto
    have "steady w w3 \<and> structs w3 = structs w" using w3 w2s w1(3,4) by (simp add: steady_def)
    with w1(1) Some made(1) v w3(1) show ?thesis by auto
  qed
qed

text \<open>The arguments of the two tests.\<close>

lemma test_domains:
  "domain_bytes (Some (literal ''A'')) = [65]" "domain_bytes (Some (literal ''AB'')) = [65, 66]"
  "message_bytes (Some (literal ''BC'')) 2 = [66, 67]" "message_bytes (Some (literal ''C'')) 1 = [67]"
  by (simp_all add: domain_bytes_def literal_def bytes_of_def cstr_def message_bytes_def)

lemma test_readable:
  "ds_readable (Some (literal ''BC'')) 2 (Some (literal ''A''))"
  "ds_readable (Some (literal ''C'')) 1 (Some (literal ''AB''))"
  by (simp_all add: ds_readable_def domain_length_def literal_def bytes_of_def HIGGAION_DOMAIN_MAX_LEN_def)

lemma test_accepts: "ds_accepts (Some (literal ''BC'')) 2 (Some (literal ''A''))"
  by (simp add: ds_accepts_def test_domains HIGGAION_DOMAIN_MAX_LEN_def)

lemma cstr_append: "0 \<notin> set xs \<Longrightarrow> cstr (xs @ 0 # ys) = xs"
  by (simp add: cstr_def takeWhile_tail) (metis takeWhile_eq_all_conv)

text \<open>The arrays of the second test, whatever they held before.\<close>

definition ok_domain :: bytes where
  "ok_domain = replicate HIGGAION_DOMAIN_MAX_LEN 65 @ [0]"

definition long_domain :: bytes where
  "long_domain = (replicate HIGGAION_DOMAIN_MAX_LEN 65 @ [66]) @ [0]"

lemma domain_arrays_eq: "domain_arrays stack = Some (ok_domain, long_domain)"
proof -
  have one: "[i..<Suc i] = [i]" for i by simp
  show ?thesis
    by (simp add: domain_arrays_def fill_eq ok_domain_def long_domain_def store_def
        list_update_append drop_map one del: upt_Suc)
qed

lemma long_domains:
  "length (domain_bytes (Some ok_domain)) = HIGGAION_DOMAIN_MAX_LEN"
  "length (domain_bytes (Some long_domain)) = Suc HIGGAION_DOMAIN_MAX_LEN"
  "domain_length (Some ok_domain) \<noteq> None" "domain_length (Some long_domain) \<noteq> None"
proof -
  have c: "cstr ok_domain = replicate HIGGAION_DOMAIN_MAX_LEN 65"
    "cstr long_domain = replicate HIGGAION_DOMAIN_MAX_LEN 65 @ [66]"
    unfolding ok_domain_def long_domain_def by (intro cstr_append; simp)+
  then show "length (domain_bytes (Some ok_domain)) = HIGGAION_DOMAIN_MAX_LEN"
    "length (domain_bytes (Some long_domain)) = Suc HIGGAION_DOMAIN_MAX_LEN"
    by (simp_all add: domain_bytes_def)
  have "0 \<in> set ok_domain" "0 \<in> set long_domain" by (simp_all add: ok_domain_def long_domain_def)
  then show "domain_length (Some ok_domain) \<noteq> None" "domain_length (Some long_domain) \<noteq> None"
    by (simp_all add: domain_length_def strnlen_terminated)
qed

lemma payload_inputs:
  "ds_readable (Some (literal ''payload'')) 7 (Some ok_domain)"
  "ds_readable (Some (literal ''payload'')) 7 (Some long_domain)"
  "ds_accepts (Some (literal ''payload'')) 7 (Some ok_domain)"
  "\<not> ds_accepts (Some (literal ''payload'')) 7 (Some long_domain)"
  using long_domains by (simp_all add: ds_readable_def ds_accepts_def literal_def)

subsection \<open>What the domain separation test answers\<close>

text \<open>
  Each test ends with no assertion failed and the memory as before, or because the
  library did not sign.
\<close>

lemma prefix_collision_verdict:
  assumes "api_wf w" "sign_fits E" "sig_sized E" "structs w a = Some (Some obj)"
    and "sig_binding E test_messages"
  shows "(\<exists>w'. prefix_collision_test E a w = Some (None, w') \<and> steady w w' \<and> structs w' = structs w)
    \<or> (\<exists>w'. prefix_collision_test E a w = Some (Some (Abort 41), w') \<and> \<not> serves E)"
proof -
  from sign_then_reject [OF assms(1-4) test_readable, of test_messages None 0] assms(5)
  obtain r n w1 where
    w1: "pqc_sign E (Some None) (Some 0) (Some (literal ''BC'')) 2 (Some (literal ''A'')) (Some a) w =
      Some ((Some r, Some n), w1)"
    "case r of
         None \<Rightarrow> \<not> serves E \<or> \<not> ds_accepts (Some (literal ''BC'')) 2 (Some (literal ''A''))
       | Some s \<Rightarrow> n > 0 \<and> (\<exists>w2 w3.
           pqc_verify E (Some (literal ''C'')) 1 (heap w1 s) n (Some (literal ''AB'')) (Some a) w1 =
             Some (False, w2)
           \<and> free_block s w2 = Some w3 \<and> steady w w3 \<and> structs w3 = structs w)"
    unfolding test_domains by (auto simp: test_messages_def)
  show ?thesis
  proof (cases r)
    case None
    with w1 show ?thesis by (simp add: prefix_collision_test_def test_accepts)
  next
    case (Some s)
    with w1(2) obtain w2 w3 where "n > 0"
      "pqc_verify E (Some (literal ''C'')) 1 (heap w1 s) n (Some (literal ''AB'')) (Some a) w1 = Some (False, w2)"
      "free_block s w2 = Some w3" "steady w w3 \<and> structs w3 = structs w" by auto
    with w1(1) Some show ?thesis by (simp add: prefix_collision_test_def)
  qed
qed

lemma overlong_domain_verdict:
  assumes "api_wf w" "sign_fits E" "sig_sized E" "structs w a = Some (Some obj)"
  shows "(\<exists>w'. overlong_domain_test E stack a w = Some (None, w') \<and> steady w w' \<and> structs w' = structs w)
    \<or> (\<exists>w'. overlong_domain_test E stack a w = Some (Some (Abort 76), w') \<and> \<not> serves E)"
proof -
  let ?m = "Some (literal ''payload'')"
  obtain k cnt where k: "pkeys w obj = Some (k, cnt)"
    using key_safe_held [OF _ assms(4)] assms(1) unfolding api_wf_def by metis
  obtain w1 where w1: "pqc_sign E (Some (Some 1)) (Some 123) ?m 7 (Some long_domain) (Some a) w =
      Some ((Some None, Some 0), w1)"
    "steady w w1" "structs w1 = structs w"
    using sign_post [OF assms(1,2) payload_inputs(2) assms(4) k, of "Some 1" 123] payload_inputs(4)
    by (auto simp: steady_def)
  then have wf1: "api_wf w1" "structs w1 a = Some (Some obj)" using assms(4) by (simp_all add: steady_def)
  from sign_then_reject [OF wf1(1) assms(2,3) wf1(2) payload_inputs(1,2), of M None 0] payload_inputs(4)
  obtain r n v where
    v: "pqc_sign E (Some None) (Some 0) ?m 7 (Some ok_domain) (Some a) w1 = Some ((Some r, Some n), v)"
    "case r of
         None \<Rightarrow> \<not> serves E \<or> \<not> ds_accepts ?m 7 (Some ok_domain)
       | Some s \<Rightarrow> n > 0 \<and> (\<exists>w2 w3.
           pqc_verify E ?m 7 (heap v s) n (Some long_domain) (Some a) v = Some (False, w2)
           \<and> free_block s w2 = Some w3 \<and> steady w1 w3 \<and> structs w3 = structs w1)" by blast
  have run: "overlong_domain_test E stack a w =
      (case r of
         Some s \<Rightarrow>
           if \<not> n > 0 then Some (Some (Abort 77), v)
           else do {
             (ok, v) \<leftarrow> pqc_verify E ?m 7 (heap v s) n (Some long_domain) (Some a) v;
             if ok then Some (Some (Abort 81), v)
             else do { v \<leftarrow> free_block s v; Some (None, v) } }
       | None \<Rightarrow> Some (Some (Abort 76), v))"
    using w1(1) v(1) by (cases r) (simp_all add: overlong_domain_test_def domain_arrays_eq)
  show ?thesis
  proof (cases r)
    case None
    with run v(2) show ?thesis by (simp add: payload_inputs)
  next
    case (Some s)
    with v(2) obtain w2 w3 where w3: "n > 0"
      "pqc_verify E ?m 7 (heap v s) n (Some long_domain) (Some a) v = Some (False, w2)"
      "free_block s w2 = Some w3" "steady w1 w3" "structs w3 = structs w1" by auto
    have "steady w w3 \<and> structs w3 = structs w" using w1(2,3) w3(4,5) steady_trans by simp blast
    with run Some w3 show ?thesis by simp
  qed
qed

lemma free_key_post:
  assumes "api_wf w" "structs w a = Some f"
  shows "\<exists>w'. higgaion_key_free (Some a) w = Some w' \<and> steady w w' \<and> structs w' = (structs w)(a \<mapsto> None)"
proof -
  have live: "live_struct w (Some a)" using assms(2) by (simp add: live_struct_def)
  obtain w' where w': "higgaion_key_free (Some a) w = Some w'" "key_safe w'" "slack w' = slack w"
    "key_ctxs w' = key_ctxs w" "structs w' = (structs w)(a \<mapsto> None)"
    using key_free_safe [OF _ live] assms(1) by (auto simp: api_wf_def)
  moreover have "mem w' = mem w" using higgaion_key_free_frame [OF w'(1)] .
  ultimately show ?thesis using assms(1) by (auto simp: steady_def api_wf_def mem_def)
qed

text \<open>Leaving the program with an empty struct.\<close>

lemma leave_empty:
  assumes "steady w w'" "structs w' = (structs w)(a \<mapsto> None)" "structs w a = None"
  shows "steady w (leave_frame a w')" "structs (leave_frame a w') = structs w"
proof -
  have wf: "api_wf w'" "structs w' a = Some None" using assms by (simp_all add: steady_def)
  show "steady w (leave_frame a w')"
    using leave_frame_post [OF wf] assms(1) by (simp add: steady_def) (simp add: leave_frame_def)
  show "structs (leave_frame a w') = structs w"
    using assms(2,3) by (auto simp: leave_frame_def fun_upd_idem)
qed

lemma separation_tests_verdict:
  assumes "sign_fits E" "sig_sized E" "sig_binding E test_messages" "api_wf w"
    and "structs w key = Some (Some obj)"
  shows "(\<exists>w'. separation_tests E stack key w = Some (Exit 0, leave_frame key w') \<and> steady w w'
      \<and> structs w' = (structs w)(key \<mapsto> None))
    \<or> (\<exists>e w'. separation_tests E stack key w = Some (e, w') \<and> e \<in> {Abort 41, Abort 76} \<and> \<not> serves E)"
proof -
  consider w1 where "prefix_collision_test E key w = Some (None, w1)" "steady w w1" "structs w1 = structs w"
    | w1 where "prefix_collision_test E key w = Some (Some (Abort 41), w1)" "\<not> serves E"
    using prefix_collision_verdict [OF assms(4,1,2,5,3)] by blast
  then show ?thesis
  proof cases
    case w1: 1
    then have wf1: "api_wf w1" "structs w1 key = Some (Some obj)" using assms(5) by (simp_all add: steady_def)
    consider w2 where "overlong_domain_test E stack key w1 = Some (None, w2)" "steady w1 w2"
        "structs w2 = structs w1"
      | w2 where "overlong_domain_test E stack key w1 = Some (Some (Abort 76), w2)" "\<not> serves E"
      using overlong_domain_verdict [OF wf1(1) assms(1,2) wf1(2), of stack] by blast
    then show ?thesis
    proof cases
      case w2: 1
      then have wf2: "api_wf w2" "structs w2 key = Some (Some obj)" using wf1 by (simp_all add: steady_def)
      obtain w3 where w3: "higgaion_key_free (Some key) w2 = Some w3" "steady w2 w3"
        "structs w3 = (structs w2)(key \<mapsto> None)"
        using free_key_post [OF wf2] by blast
      have "steady w w3" using w1(2) w2(2) w3(2) steady_trans by metis
      moreover have "structs w3 = (structs w)(key \<mapsto> None)" using w1(3) w2(3) w3(3) by simp
      moreover have "separation_tests E stack key w = Some (Exit 0, leave_frame key w3)"
        using w1(1) w2(1) w3(1) by (simp add: separation_tests_def)
      ultimately show ?thesis by blast
    next
      case 2
      with w1(1) show ?thesis by (simp add: separation_tests_def)
    qed
  next
    case 2
    then show ?thesis by (simp add: separation_tests_def)
  qed
qed

text \<open>
  C32. The domain separation test, for every library with the scheme's binding property: it never
  fails an assertion about separation (a signature accepted for another split of the
  same bytes or for an overlong domain, outputs not cleared). It ends with 0 or, when the library
  makes no key, with 1, in both cases with the memory it started from, or stops because
  the library did not sign; with a library in which no call fails it returns 0.
\<close>

theorem domain_separation_test_verdict:
  assumes "sign_fits E" "sig_sized E" "sig_binding E test_messages" "api_wf w" "structs w key = None"
  shows "\<exists>e w'. domain_separation_main required E stack key w = Some (e, w')
    \<and> e \<in> {Exit 0, Exit 1, Abort 41, Abort 76}
    \<and> (e \<in> {Exit 0, Exit 1} \<longrightarrow> steady w w' \<and> structs w' = structs w)
    \<and> (serves E \<longrightarrow> e = Exit 0)"
proof -
  obtain w0 w1 f where w0: "higgaion_key_init (Some key) w = Some w0"
    and w1: "generate_keypair required E (Some key) (Some (test_alg required)) w0 = Some w1"
      "steady w w1" "structs w1 = (structs w)(key \<mapsto> f)"
    by (rule fresh_key [OF assms(4,5)])
  then have wf1: "api_wf w1" "structs w1 key = Some f" by (simp_all add: steady_def)
  have run: "domain_separation_main required E stack key w =
      (case f of
         None \<Rightarrow> Some (Exit 1, leave_frame key w1)
       | Some _ \<Rightarrow> separation_tests E stack key w1)"
    using w0 w1(1) wf1(2) by (simp add: domain_separation_main_def get_pkey_def)
  show ?thesis
  proof (cases f)
    case None
    moreover have "\<not> serves E"
      using serves_generate [OF _ test_alg_allowed w1(1)] wf1(2) None by auto
    ultimately show ?thesis
      using run leave_empty [OF w1(2) _ assms(5)] w1(3) by simp
  next
    case (Some obj)
    then have held: "structs w1 key = Some (Some obj)" using wf1(2) by simp
    from separation_tests_verdict [OF assms(1-3) wf1(1) held, of stack] show ?thesis
    proof (elim disjE exE conjE)
      fix w2 assume w2: "separation_tests E stack key w1 = Some (Exit 0, leave_frame key w2)"
        "steady w1 w2" "structs w2 = (structs w1)(key \<mapsto> None)"
      then have "structs w2 = (structs w)(key \<mapsto> None)" using w1(3) by simp
      with run Some w2(1) leave_empty [OF steady_trans [OF w1(2) w2(2)] _ assms(5)] show ?thesis by simp
    next
      fix e w2 assume "separation_tests E stack key w1 = Some (e, w2)" "e \<in> {Abort 41, Abort 76}"
        "\<not> serves E"
      with run Some show ?thesis by auto
    qed
  qed
qed

lemma ideal_sig_binding: "sig_binding ideal_evp M"
  unfolding sig_binding_def by (auto split: if_splits)

lemma ideal_sig_sized: "sig_sized ideal_evp"
  using ideal_sig_correct unfolding sig_correct_def sig_sized_def case_prod_beta by blast

lemma ideal_serves: "serves ideal_evp"
proof -
  have "unat (of_nat (Suc (length msg)) :: u64) = Suc (length msg)" if "length msg < 2 ^ 32" for msg :: bytes
    by (rule unat_of_nat_fits) (use that in simp)
  then show ?thesis by (simp add: serves_def del: of_nat_Suc)
qed

lemma domain_separation_test_verdict_witness:
  "\<exists>w'. domain_separation_main True ideal_evp (\<lambda>i. 7) 12 signing_world = Some (Exit 0, w')
    \<and> heap w' = Map.empty \<and> structs w' = structs signing_world"
  using domain_separation_test_verdict [OF ideal_sign_fits ideal_sig_sized ideal_sig_binding
      signing_world_wf fresh_slot, of True "\<lambda>i. 7"] ideal_serves
  by (auto simp: steady_def)

subsection \<open>The round trip test\<close>

text \<open>\<open>sizeof(msg)\<close> counts the terminator, so 27 bytes are signed.\<close>

definition disjunctive_msg :: bytes where
  "disjunctive_msg = literal ''Test Disjunctive Statement''"

text \<open>One round of the first loop; \<open>None\<close> goes on, \<open>Some e\<close> leaves the program.\<close>

definition roundtrip_round ::
  "bool \<Rightarrow> 'k evp \<Rightarrow> addr \<Rightarrow> 'k world \<Rightarrow> (exit option \<times> 'k world) option" where
  "roundtrip_round required E key w = do {
     w \<leftarrow> generate_keypair required E (Some key) (Some ''ML-DSA-87'') w;
     field \<leftarrow> get_pkey key w;
     w \<leftarrow> (if field = None then generate_keypair required E (Some key) (Some ''ED25519'') w else Some w);
     field \<leftarrow> get_pkey key w;
     if field = None then Some (Some (Exit 1), w)
     else do {
       ((sig, sig_len), w) \<leftarrow> pqc_sign E (Some None) (Some 0) (Some disjunctive_msg) 27
         (Some (literal ''domain1'')) (Some key) w;
       (case (sig, sig_len) of
          (Some (Some s), Some n) \<Rightarrow>
            if n = 0 then Some (Some (Exit 1), w)
            else do {
              (verified, w) \<leftarrow> pqc_verify E (Some disjunctive_msg) 27 (heap w s) n
                (Some (literal ''domain1'')) (Some key) w;
              if \<not> verified then Some (Some (Exit 1), w)
              else do { w \<leftarrow> free_block s w; Some (None, w) } }
        | _ \<Rightarrow> Some (Some (Exit 1), w)) } }"

text \<open>One round of the second loop, which writes \<open>sig[0]\<close> without a test of the pointer.\<close>

definition corrupt_round :: "'k evp \<Rightarrow> addr \<Rightarrow> 'k world \<Rightarrow> (exit option \<times> 'k world) option" where
  "corrupt_round E key w = do {
     ((sig, sig_len), w) \<leftarrow> pqc_sign E (Some None) (Some 0) (Some disjunctive_msg) 27
       (Some (literal ''domain1'')) (Some key) w;
     (case (sig, sig_len) of
        (Some (Some s), Some n) \<Rightarrow> do {
          block \<leftarrow> heap w s;
          b \<leftarrow> nth_opt block 0;
          w \<leftarrow> mem_write s 0 [b XOR 1] w;
          (verified, w) \<leftarrow> pqc_verify E (Some disjunctive_msg) 27 (heap w s) n
            (Some (literal ''domain1'')) (Some key) w;
          if verified then Some (Some (Exit 1), w)
          else do { w \<leftarrow> free_block s w; Some (None, w) } }
      | _ \<Rightarrow> None) }"

fun rounds ::
  "nat \<Rightarrow> ('k world \<Rightarrow> (exit option \<times> 'k world) option) \<Rightarrow> 'k world \<Rightarrow> (exit option \<times> 'k world) option" where
  "rounds 0 body w = Some (None, w)"
| "rounds (Suc i) body w = do {
     (left, w) \<leftarrow> body w;
     (case left of Some e \<Rightarrow> Some (Some e, w) | None \<Rightarrow> rounds i body w) }"

definition roundtrip_main :: "bool \<Rightarrow> 'k evp \<Rightarrow> addr \<Rightarrow> 'k world \<Rightarrow> (exit \<times> 'k world) option" where
  "roundtrip_main required E key w = do {
     w \<leftarrow> higgaion_key_init (Some key) w;
     (left, w) \<leftarrow> rounds 13 (roundtrip_round required E key) w;
     (case left of
        Some e \<Rightarrow> Some (e, leave_frame key w)
      | None \<Rightarrow> do {
          (left, w) \<leftarrow> rounds 13 (corrupt_round E key) w;
          (case left of
             Some e \<Rightarrow> Some (e, leave_frame key w)
           | None \<Rightarrow> do {
               w \<leftarrow> higgaion_key_free (Some key) w;
               Some (Exit 0, leave_frame key w) }) }) }"

text \<open>A signature with its lowest bit flipped is not accepted for the message it was made for.\<close>

definition tamper_evident :: "'k evp \<Rightarrow> bool" where
  "tamper_evident E \<longleftrightarrow>
     (\<forall>c c' k msg n. case sign_exec E c k msg n of (rc, out, n') \<Rightarrow>
        rc > 0 \<longrightarrow> verify_exec E c' k (out[0 := out ! 0 XOR 1]) msg \<noteq> 1)"

lemma tamper_evidentD:
  assumes "tamper_evident E" "sign_exec E c k msg n = (rc, out, n')" "rc > 0"
  shows "verify_exec E c' k (out[0 := out ! 0 XOR 1]) msg \<noteq> 1"
proof -
  have "case sign_exec E c k msg n of (rc, out, n') \<Rightarrow>
      rc > 0 \<longrightarrow> verify_exec E c' k (out[0 := out ! 0 XOR 1]) msg \<noteq> 1"
    by (rule assms(1) [unfolded tamper_evident_def, rule_format])
  with assms(2,3) show ?thesis by simp
qed

lemma disjunctive_inputs:
  "ds_readable (Some disjunctive_msg) 27 (Some (literal ''domain1''))"
  "ds_accepts (Some disjunctive_msg) 27 (Some (literal ''domain1''))"
  by (simp_all add: ds_readable_def ds_accepts_def domain_length_def domain_bytes_def cstr_def
      disjunctive_msg_def literal_def bytes_of_def HIGGAION_DOMAIN_MAX_LEN_def)

text \<open>The calls of a round when the library serves them.\<close>

lemma sign_served:
  assumes "api_wf w" "sign_fits E" "sig_correct E" "serves E" "structs w a = Some (Some obj)"
    and "pkeys w obj = Some (k, cnt)"
    and "ds_readable message len domain" "ds_accepts message len domain"
  defines "enc \<equiv> ds_encode (domain_bytes domain) (message_bytes message len)"
  obtains s n w1 c' m rc out where "pqc_sign E (Some s0) (Some l0) message len domain (Some a) w =
      Some ((Some (Some s), Some n), w1)"
    "api_wf w1" "slack w1 = slack w" "structs w1 = structs w" "pkeys w1 = pkeys w"
    "heap w s = None" "heap w1 = (heap w)(s \<mapsto> put_slice 0 out (replicate (unat m) 0))"
    "sign_exec E c' k enc m = (rc, out, n)" "rc > 0" "out \<noteq> []" "unat n = length out"
    "length out \<le> unat m" "n > 0"
proof -
  obtain blk n where res: "sign_result E (clock w) k enc (ds_length domain len) = (Some blk, n)"
    using serves_sign_result [OF assms(4)] accepted_short [OF assms(8,7)] unfolding enc_def by blast
  obtain r n' w1 where w1: "pqc_sign E (Some s0) (Some l0) message len domain (Some a) w =
      Some ((Some r, Some n'), w1)"
    "api_wf w1" "slack w1 = slack w" "structs w1 = structs w" "pkeys w1 = pkeys w"
    "case r of
       None \<Rightarrow> heap w1 = heap w
     | Some sg \<Rightarrow> heap w sg = None \<and> (\<exists>bs. heap w1 = (heap w)(sg \<mapsto> bs)
         \<and> ds_accepts message len domain
         \<and> sign_result E (clock w) k enc (ds_length domain len) = (Some bs, n'))"
    "r = None \<longrightarrow> ds_accepts message len domain \<longrightarrow>
       fst (sign_result E (clock w) k enc (ds_length domain len)) = None"
    using sign_post [OF assms(1,2,7,5,6), of s0 l0] unfolding enc_def by blast
  then obtain s where s: "r = Some s" using assms(8) res by auto
  obtain c' m rc out where out: "sign_exec E c' k enc m = (rc, out, n)" "rc > 0"
    "blk = put_slice 0 out (replicate (unat m) 0)"
    using sign_result_out [OF res] by blast
  note o = sig_correctD(1,2) [OF assms(3) out(1,2)]
  have "length out \<le> unat m" using assms(2) out(1) unfolding sign_fits_def by (metis fst_conv snd_conv)
  moreover have "n > 0" using o by (auto simp: word_gt_0)
  moreover have "n' = n" "heap w s = None" "heap w1 = (heap w)(s \<mapsto> put_slice 0 out (replicate (unat m) 0))"
    using w1(6) s res out(3) by auto
  ultimately show thesis using w1(1-5) s out(1,2) o by (intro that [of s n w1 out m c' rc]) simp_all
qed

lemma verify_served:
  assumes "api_wf w" "serves E" "structs w a = Some (Some obj)" "pkeys w obj = Some (k, cnt)"
    and "ds_readable message len domain" "ds_accepts message len domain"
    and "unat n \<le> length blk" "n > 0"
  shows "\<exists>c' w'. pqc_verify E message len (Some blk) n domain (Some a) w =
      Some (verify_exec E c' k (take (unat n) blk)
        (ds_encode (domain_bytes domain) (message_bytes message len)) = 1, w')
    \<and> api_wf w' \<and> slack w' = slack w \<and> structs w' = structs w \<and> pkeys w' = pkeys w \<and> heap w' = heap w"
proof -
  have safe: "key_safe w" and n: "n \<noteq> 0" using assms(1,8) by (auto simp: api_wf_def)
  let ?enc = "ds_encode (domain_bytes domain) (message_bytes message len)"
  obtain w' fs where w': "pqc_verify E message len (Some blk) n domain (Some a) w =
      Some (ds_accepts message len domain
        \<and> verify_result E (clock w) k ?enc (ds_length domain len) (take (unat n) blk), w')"
    "effect w w' (heap w) fs (md_ctxs w)"
    using pqc_verify_effect [OF safe assms(5,3,4,7) n, of E] by blast
  moreover have "verify_result E (clock w) k ?enc (ds_length domain len) (take (unat n) blk) \<longleftrightarrow>
      verify_exec E (clock w + 3) k (take (unat n) blk) ?enc = 1"
    using assms(2) by (simp add: verify_result_def serves_def)
  moreover have "api_wf w' \<and> slack w' = slack w \<and> structs w' = structs w \<and> pkeys w' = pkeys w \<and> heap w' = heap w"
    using api_post_effect [OF assms(1) w'(2)] w'(2) by (simp add: api_post_def effect_def)
  ultimately show ?thesis using assms(6) by auto
qed

lemma roundtrip_round_passes:
  assumes "sign_fits E" "sig_correct E" "serves E" "api_wf w" "structs w a = Some f"
  shows "\<exists>w' obj. roundtrip_round required E a w = Some (None, w') \<and> steady w w'
    \<and> structs w' = (structs w)(a \<mapsto> Some obj)"
proof -
  have alg: "higgaion_is_algorithm_allowed required (Some ''ML-DSA-87'')"
    by (simp add: higgaion_is_algorithm_allowed_def HIGGAION_PQC_ALLOWLIST_def)
  obtain w1 g where g: "generate_keypair required E (Some a) (Some ''ML-DSA-87'') w = Some w1"
    "steady w w1" "structs w1 = (structs w)(a \<mapsto> g)"
    using generate_post [OF assms(4,5), of required "Some ''ML-DSA-87''" E] alg by blast
  then obtain obj where obj: "g = Some obj" using serves_generate [OF assms(3) alg g(1)] by auto
  have wf1: "api_wf w1" "structs w1 a = Some (Some obj)" using g(2,3) obj by (simp_all add: steady_def)
  obtain k cnt where k: "pkeys w1 obj = Some (k, cnt)"
    using key_safe_held [OF _ wf1(2)] wf1(1) unfolding api_wf_def by metis
  let ?m = "Some disjunctive_msg" and ?d = "Some (literal ''domain1'')"
  let ?enc = "ds_encode (domain_bytes ?d) (message_bytes ?m 27)"
  obtain s n w2 c' m rc out where w2: "pqc_sign E (Some None) (Some 0) ?m 27 ?d (Some a) w1 =
      Some ((Some (Some s), Some n), w2)"
    "api_wf w2" "slack w2 = slack w1" "structs w2 = structs w1" "pkeys w2 = pkeys w1"
    "heap w1 s = None" "heap w2 = (heap w1)(s \<mapsto> put_slice 0 out (replicate (unat m) 0))"
    "sign_exec E c' k ?enc m = (rc, out, n)" "rc > 0" "out \<noteq> []" "unat n = length out"
    "length out \<le> unat m" "n > 0"
    using sign_served [OF wf1(1) assms(1-3) wf1(2) k disjunctive_inputs] .
  let ?blk = "put_slice 0 out (replicate (unat m) 0)"
  have t: "take (unat n) ?blk = out" "unat n \<le> length ?blk" using w2(11,12) by (simp_all add: put_slice_def)
  have held2: "structs w2 a = Some (Some obj)" "pkeys w2 obj = Some (k, cnt)" using w2(4,5) wf1(2) k by simp_all
  obtain c'' w3 where w3: "pqc_verify E ?m 27 (Some ?blk) n ?d (Some a) w2 =
      Some (verify_exec E c'' k (take (unat n) ?blk) ?enc = 1, w3)"
    "api_wf w3" "slack w3 = slack w2" "structs w3 = structs w2" "heap w3 = heap w2"
    using verify_served [OF w2(2) assms(3) held2 disjunctive_inputs t(2) w2(13)] by blast
  have "verify_exec E c'' k out ?enc = 1"
    using sig_correctD(3) [OF assms(2) w2(8,9)] .
  then have ver: "pqc_verify E ?m 27 (heap w2 s) n ?d (Some a) w2 = Some (True, w3)"
    using w3(1) w2(7) t(1) by simp
  obtain w4 where w4: "free_block s w3 = Some w4" "api_wf w4" "heap w4 = heap w1"
    "slack w4 = slack w3" "structs w4 = structs w3"
    using free_post [OF w3(2) w2(6)] w3(5) w2(7) by auto
  have "n \<noteq> 0" using w2(13) by (simp add: word_gt_0)
  then have "roundtrip_round required E a w = Some (None, w4)"
    using g(1) wf1(2) w2(1) ver w4(1) by (simp add: roundtrip_round_def get_pkey_def)
  moreover have "steady w w4 \<and> structs w4 = (structs w)(a \<mapsto> Some obj)"
    using w4 w3 w2(3,4) g obj by (simp add: steady_def)
  ultimately show ?thesis by blast
qed

lemma corrupt_round_passes:
  assumes "sign_fits E" "sig_correct E" "serves E" "tamper_evident E" "api_wf w" "structs w a = Some (Some obj)"
  shows "\<exists>w'. corrupt_round E a w = Some (None, w') \<and> steady w w' \<and> structs w' = structs w"
proof -
  obtain k cnt where k: "pkeys w obj = Some (k, cnt)"
    using key_safe_held [OF _ assms(6)] assms(5) unfolding api_wf_def by metis
  let ?m = "Some disjunctive_msg" and ?d = "Some (literal ''domain1'')"
  let ?enc = "ds_encode (domain_bytes ?d) (message_bytes ?m 27)"
  obtain s n w2 c' m rc out where w2: "pqc_sign E (Some None) (Some 0) ?m 27 ?d (Some a) w =
      Some ((Some (Some s), Some n), w2)"
    "api_wf w2" "slack w2 = slack w" "structs w2 = structs w" "pkeys w2 = pkeys w"
    "heap w s = None" "heap w2 = (heap w)(s \<mapsto> put_slice 0 out (replicate (unat m) 0))"
    "sign_exec E c' k ?enc m = (rc, out, n)" "rc > 0" "out \<noteq> []" "unat n = length out"
    "length out \<le> unat m" "n > 0"
    using sign_served [OF assms(5,1-3,6) k disjunctive_inputs] .
  let ?blk = "put_slice 0 out (replicate (unat m) 0)"
  let ?bad = "put_slice 0 [out ! 0 XOR 1] ?blk"
  have blk: "?blk \<noteq> []" "?blk ! 0 = out ! 0" "unat n \<le> length ?blk"
    using w2(10-12) by (cases out; simp add: put_slice_def)+
  have bad: "take (unat n) ?bad = out[0 := out ! 0 XOR 1]" "unat n \<le> length ?bad"
    using w2(10-12) by (cases out; simp add: put_slice_def)+
  define v where "v = w2\<lparr>heap := (heap w2)(s \<mapsto> ?bad)\<rparr>"
  have wr: "mem_write s 0 [out ! 0 XOR 1] w2 = Some v"
    using w2(7) blk(1) unfolding v_def by (subst mem_write_at) (auto simp: Suc_le_eq)
  have same: "same_keys w2 v" by (simp add: v_def same_keys_def)
  moreover have "wf_world v" using w2(2,7) by (auto simp: v_def api_wf_def key_safe_def wf_world_def)
  ultimately have vs: "api_wf v" "slack v = slack w" "structs v = structs w" "pkeys v = pkeys w"
    "heap v = (heap w)(s \<mapsto> ?bad)"
    using w2(2-5,7) same_keys_safe [OF same] same_keys_slack [OF same]
    by (simp_all add: api_wf_def) (simp_all add: v_def)
  have heldv: "structs v a = Some (Some obj)" "pkeys v obj = Some (k, cnt)" using vs assms(6) k by simp_all
  obtain c'' w3 where w3: "pqc_verify E ?m 27 (Some ?bad) n ?d (Some a) v =
      Some (verify_exec E c'' k (take (unat n) ?bad) ?enc = 1, w3)"
    "api_wf w3" "slack w3 = slack v" "structs w3 = structs v" "heap w3 = heap v"
    using verify_served [OF vs(1) assms(3) heldv disjunctive_inputs bad(2) w2(13)] by blast
  have "verify_exec E c'' k (out[0 := out ! 0 XOR 1]) ?enc \<noteq> 1"
    using tamper_evidentD [OF assms(4) w2(8,9)] .
  moreover obtain w4 where w4: "free_block s w3 = Some w4" "api_wf w4" "heap w4 = heap w"
    "slack w4 = slack w3" "structs w4 = structs w3"
    using free_post [OF w3(2) w2(6)] w3(5) vs(5) by auto
  ultimately have "corrupt_round E a w = Some (None, w4)"
    using w2(1,7) blk(1,2) wr w3(1) vs(5) bad(1)
    by (simp add: corrupt_round_def nth_opt_def)
  then show ?thesis using w4 w3 vs by (simp add: steady_def)
qed

lemma rounds_pass:
  assumes "\<And>v. P v \<Longrightarrow> \<exists>v'. body v = Some (None, v') \<and> P v'" "P v"
  shows "\<exists>v'. rounds n body v = Some (None, v') \<and> P v'"
  using assms(2)
proof (induction n arbitrary: v)
  case (Suc n)
  with assms(1) [OF Suc.prems] show ?case by fastforce
qed simp

text \<open>
  The round trip test with a library that serves every call, signs correctly and notices a
  flipped bit: the program is defined, returns 0 after its 26 rounds, and leaves the memory
  it started from, whatever key the earlier rounds left in the struct.
\<close>

lemma roundtrip_test_passes:
  assumes "sign_fits E" "sig_correct E" "serves E" "tamper_evident E"
    and "api_wf w" "structs w key = None"
  shows "\<exists>w'. roundtrip_main required E key w = Some (Exit 0, w') \<and> steady w w'
    \<and> structs w' = structs w"
proof -
  define ok_state where "ok_state v \<longleftrightarrow> steady w v \<and> (\<exists>obj. structs v = (structs w)(key \<mapsto> Some obj))" for v
  have trip: "\<exists>v'. roundtrip_round required E key v = Some (None, v') \<and> ok_state v'"
    if "steady w v" "structs v = (structs w)(key \<mapsto> f)" for v f
  proof -
    have "api_wf v" "structs v key = Some f" using that by (simp_all add: steady_def)
    from roundtrip_round_passes [OF assms(1-3) this, of required] that show ?thesis
      unfolding ok_state_def using steady_trans by fastforce
  qed
  have corrupt: "\<exists>v'. corrupt_round E key v = Some (None, v') \<and> ok_state v'" if st: "ok_state v" for v
  proof -
    obtain obj where obj: "steady w v" "structs v = (structs w)(key \<mapsto> Some obj)"
      using st by (auto simp: ok_state_def)
    then have "api_wf v" "structs v key = Some (Some obj)" by (simp_all add: steady_def)
    from corrupt_round_passes [OF assms(1-4) this] obj show ?thesis
      unfolding ok_state_def using steady_trans by metis
  qed
  obtain w0 where w0: "higgaion_key_init (Some key) w = Some w0" "steady w w0"
    "structs w0 = (structs w)(key \<mapsto> None)"
    using init_post [OF assms(5,6)] by blast
  obtain w1 where w1: "roundtrip_round required E key w0 = Some (None, w1)" "ok_state w1"
    using trip [OF w0(2,3)] by blast
  have "\<exists>v'. roundtrip_round required E key v = Some (None, v') \<and> ok_state v'" if "ok_state v" for v
    using that trip by (auto simp: ok_state_def)
  from rounds_pass [where n = 12 and P = ok_state and body = "roundtrip_round required E key", OF this w1(2)] obtain w2 where
    w2: "rounds 12 (roundtrip_round required E key) w1 = Some (None, w2)" "ok_state w2" by blast
  have thirteen: "(13 :: nat) = Suc 12" by simp
  have first: "rounds 13 (roundtrip_round required E key) w0 = Some (None, w2)"
    unfolding thirteen rounds.simps using w1(1) w2(1) by simp
  obtain w3 where w3: "rounds 13 (corrupt_round E key) w2 = Some (None, w3)" "ok_state w3"
    using rounds_pass [where n = 13 and P = ok_state and body = "corrupt_round E key", OF corrupt w2(2)] by blast
  then obtain obj where obj: "steady w w3" "structs w3 = (structs w)(key \<mapsto> Some obj)"
    by (auto simp: ok_state_def)
  then have "api_wf w3" "structs w3 key = Some (Some obj)" by (simp_all add: steady_def)
  from free_key_post [OF this] obtain w4 where w4: "higgaion_key_free (Some key) w3 = Some w4"
    "steady w3 w4" "structs w4 = (structs w3)(key \<mapsto> None)" by blast
  have "roundtrip_main required E key w = Some (Exit 0, leave_frame key w4)"
    using w0(1) first w3(1) w4(1) by (simp add: roundtrip_main_def)
  moreover have "structs w4 = (structs w)(key \<mapsto> None)" using w4(3) obj(2) by simp
  ultimately show ?thesis
    using leave_empty [OF steady_trans [OF obj(1) w4(2)] _ assms(6)] by blast
qed

lemma ideal_tamper_evident: "tamper_evident ideal_evp"
proof -
  have "x XOR 1 \<noteq> x" for x :: byte
  proof
    assume "x XOR 1 = x"
    then have "bit (x XOR 1) 0 = bit x 0" by simp
    then show False by (simp add: bit_xor_iff bit_1_iff)
  qed
  then show ?thesis by (simp add: tamper_evident_def)
qed

lemma roundtrip_test_passes_witness:
  "\<exists>w'. roundtrip_main True ideal_evp 12 signing_world = Some (Exit 0, w') \<and> heap w' = Map.empty
    \<and> structs w' = structs signing_world"
  using roundtrip_test_passes [OF ideal_sign_fits ideal_sig_correct ideal_serves ideal_tamper_evident
      signing_world_wf fresh_slot, of True]
  by (auto simp: steady_def)

text \<open>
  The second loop is undefined when the library does not sign: it writes through the
  NULL pointer that \<open>pqc_sign\<close> leaves, for instance when the first allocation fails.
\<close>

lemma corrupt_round_undefined:
  assumes "api_wf w" "sign_fits E" "structs w key = Some (Some obj)"
    and "\<not> malloc_ok E (clock w) (ds_length (Some (literal ''domain1'')) 27)"
  shows "corrupt_round E key w = None"
proof -
  have safe: "key_safe w" using assms(1) by (simp add: api_wf_def)
  obtain k cnt where k: "pkeys w obj = Some (k, cnt)" using key_safe_held [OF safe assms(3)] by blast
  have "fst (sign_result E (clock w) k enc (ds_length (Some (literal ''domain1'')) 27)) = None" for enc
    using assms(4) by (simp add: sign_result_def)
  from sign_refused [OF assms(1,2) disjunctive_inputs(1) assms(3) k this, of None 0]
  obtain n w1 where "pqc_sign E (Some None) (Some 0) (Some disjunctive_msg) 27
      (Some (literal ''domain1'')) (Some key) w = Some ((Some None, Some n), w1)" by blast
  then show ?thesis by (simp add: corrupt_round_def)
qed

end
