(* ===== verification/MockTest.thy ===== *)
theory MockTest
  imports TestPrograms
begin

text \<open>
  The test with injected failures, \<open>src/tests/test_pqc_mock.c\<close>. The linker wraps \<open>malloc\<close> and seven
  functions of libcrypto: a wrapper answers with a failure while its global is set and calls the
  real function otherwise. The globals are a record, and \<open>mocked\<close> turns the library \<open>E\<close>
  into the library that the wrapped program sees.
\<close>

subsection \<open>The wrappers\<close>

record mocks =
  mock_malloc_fail_countdown :: int
  mock_EVP_PKEY_keygen_init_fail :: bool
  mock_EVP_PKEY_keygen_fail :: bool
  mock_EVP_MD_CTX_new_fail :: bool
  mock_EVP_DigestSignInit_fail :: bool
  mock_EVP_DigestSign_size_fail :: bool
  mock_EVP_DigestSign_exec_fail :: bool
  mock_EVP_DigestVerifyInit_fail :: bool

definition no_mocks :: mocks where
  "no_mocks = \<lparr>mock_malloc_fail_countdown = -1, mock_EVP_PKEY_keygen_init_fail = False,
     mock_EVP_PKEY_keygen_fail = False, mock_EVP_MD_CTX_new_fail = False,
     mock_EVP_DigestSignInit_fail = False, mock_EVP_DigestSign_size_fail = False,
     mock_EVP_DigestSign_exec_fail = False, mock_EVP_DigestVerifyInit_fail = False\<rparr>"

text \<open>
  The countdown is read off the call clock, \<open>c0\<close> being the clock when it was set. This is exact for
  the values 0 and 1 of the test, because an allocation is the first external call of
  \<open>pqc_sign\<close> and \<open>pqc_verify\<close>: with 0 every allocation fails, with 1 only that first one succeeds.
\<close>

definition wrap_malloc :: "mocks \<Rightarrow> nat \<Rightarrow> 'k evp \<Rightarrow> nat \<Rightarrow> u64 \<Rightarrow> bool" where
  "wrap_malloc m c0 E c n =
     (if mock_malloc_fail_countdown m < 0 then malloc_ok E c n
      else int c < int c0 + mock_malloc_fail_countdown m \<and> malloc_ok E c n)"

definition wrap_keygen_init :: "mocks \<Rightarrow> 'k evp \<Rightarrow> nat \<Rightarrow> string \<Rightarrow> int" where
  "wrap_keygen_init m E c alg =
     (if mock_EVP_PKEY_keygen_init_fail m then -1 else keygen_init E c alg)"

definition wrap_keygen :: "mocks \<Rightarrow> 'k evp \<Rightarrow> nat \<Rightarrow> string \<Rightarrow> int \<times> 'k option" where
  "wrap_keygen m E c alg = (if mock_EVP_PKEY_keygen_fail m then (-1, None) else keygen E c alg)"

definition wrap_md_ctx_new :: "mocks \<Rightarrow> 'k evp \<Rightarrow> nat \<Rightarrow> bool" where
  "wrap_md_ctx_new m E c = (if mock_EVP_MD_CTX_new_fail m then False else md_ctx_ok E c)"

definition wrap_sign_init :: "mocks \<Rightarrow> 'k evp \<Rightarrow> nat \<Rightarrow> 'k \<Rightarrow> int" where
  "wrap_sign_init m E c k = (if mock_EVP_DigestSignInit_fail m then -1 else sign_init E c k)"

text \<open>
  \<open>EVP_DigestSign\<close> with a NULL buffer asks for the size; a failing wrapper leaves \<open>*siglen\<close> as
  it was, 0 in the first call and the capacity in the second.
\<close>

definition wrap_sign_size :: "mocks \<Rightarrow> 'k evp \<Rightarrow> nat \<Rightarrow> 'k \<Rightarrow> bytes \<Rightarrow> int \<times> u64" where
  "wrap_sign_size m E c k msg =
     (if mock_EVP_DigestSign_size_fail m then (-1, 0) else sign_size E c k msg)"

definition wrap_sign_exec :: "mocks \<Rightarrow> 'k evp \<Rightarrow> nat \<Rightarrow> 'k \<Rightarrow> bytes \<Rightarrow> u64 \<Rightarrow> int \<times> bytes \<times> u64" where
  "wrap_sign_exec m E c k msg n =
     (if mock_EVP_DigestSign_exec_fail m then (-1, [], n) else sign_exec E c k msg n)"

definition wrap_verify_init :: "mocks \<Rightarrow> 'k evp \<Rightarrow> nat \<Rightarrow> 'k \<Rightarrow> int" where
  "wrap_verify_init m E c k = (if mock_EVP_DigestVerifyInit_fail m then -1 else verify_init E c k)"

definition mocked :: "mocks \<Rightarrow> nat \<Rightarrow> 'k evp \<Rightarrow> 'k evp" where
  "mocked m c0 E = E\<lparr>malloc_ok := wrap_malloc m c0 E, keygen_init := wrap_keygen_init m E,
     keygen := wrap_keygen m E, md_ctx_ok := wrap_md_ctx_new m E, sign_init := wrap_sign_init m E,
     sign_size := wrap_sign_size m E, sign_exec := wrap_sign_exec m E,
     verify_init := wrap_verify_init m E\<rparr>"

lemma mocked_sel [simp]:
  "malloc_ok (mocked m c0 E) = wrap_malloc m c0 E" "keygen_init (mocked m c0 E) = wrap_keygen_init m E"
  "keygen (mocked m c0 E) = wrap_keygen m E" "md_ctx_ok (mocked m c0 E) = wrap_md_ctx_new m E"
  "sign_init (mocked m c0 E) = wrap_sign_init m E" "sign_size (mocked m c0 E) = wrap_sign_size m E"
  "sign_exec (mocked m c0 E) = wrap_sign_exec m E" "verify_init (mocked m c0 E) = wrap_verify_init m E"
  "ctx_new_from_name (mocked m c0 E) = ctx_new_from_name E" "verify_exec (mocked m c0 E) = verify_exec E"
  by (simp_all add: mocked_def)

lemma mocked_none: "mocked no_mocks c0 E = E"
  by (simp add: mocked_def no_mocks_def wrap_malloc_def [abs_def] wrap_keygen_init_def [abs_def]
      wrap_keygen_def [abs_def] wrap_md_ctx_new_def [abs_def] wrap_sign_init_def [abs_def]
      wrap_sign_size_def [abs_def] wrap_sign_exec_def [abs_def] wrap_verify_init_def [abs_def])

lemma mocked_sign_fits: "sign_fits E \<Longrightarrow> sign_fits (mocked m c0 E)"
  by (simp add: sign_fits_def wrap_sign_exec_def)

subsection \<open>The test\<close>

definition mock_msg :: bytes where
  "mock_msg = literal ''Mock data''"

text \<open>
  One call with the globals of \<open>m\<close> set before and cleared after it. \<open>sizeof(msg)\<close> is 10; the cells
  \<open>sig\<close> and \<open>sig_len\<close> are the same in all calls.
\<close>

definition generate_under ::
  "mocks \<Rightarrow> bool \<Rightarrow> 'k evp \<Rightarrow> addr \<Rightarrow> 'k world \<Rightarrow> 'k world option" where
  "generate_under m required E key w =
     generate_keypair required (mocked m (clock w) E) (Some key) (Some (test_alg required)) w"

fun sign_under ::
  "mocks list \<Rightarrow> 'k evp \<Rightarrow> addr \<Rightarrow> addr option option \<times> u64 option \<Rightarrow> 'k world
    \<Rightarrow> ((addr option option \<times> u64 option) \<times> 'k world) option" where
  "sign_under [] E key cells w = Some (cells, w)"
| "sign_under (m # ms) E key (sig, sig_len) w = do {
     (cells, w) \<leftarrow> pqc_sign (mocked m (clock w) E) sig sig_len (Some mock_msg) 10
       (Some (literal ''domain'')) (Some key) w;
     sign_under ms E key cells w }"

fun verify_under :: "mocks list \<Rightarrow> 'k evp \<Rightarrow> addr \<Rightarrow> addr \<Rightarrow> u64 \<Rightarrow> 'k world \<Rightarrow> 'k world option" where
  "verify_under [] E key sig sig_len w = Some w"
| "verify_under (m # ms) E key sig sig_len w = do {
     (r, w) \<leftarrow> pqc_verify (mocked m (clock w) E) (Some mock_msg) 10 (heap w sig) sig_len
       (Some (literal ''domain'')) (Some key) w;
     verify_under ms E key sig sig_len w }"

text \<open>The failures of steps 3 to 8 and of steps 9 to 11.\<close>

definition sign_faults :: "mocks list" where
  "sign_faults =
     [no_mocks\<lparr>mock_malloc_fail_countdown := 0\<rparr>, no_mocks\<lparr>mock_EVP_MD_CTX_new_fail := True\<rparr>,
      no_mocks\<lparr>mock_EVP_DigestSignInit_fail := True\<rparr>, no_mocks\<lparr>mock_EVP_DigestSign_size_fail := True\<rparr>,
      no_mocks\<lparr>mock_malloc_fail_countdown := 1\<rparr>, no_mocks\<lparr>mock_EVP_DigestSign_exec_fail := True\<rparr>]"

definition verify_faults :: "mocks list" where
  "verify_faults =
     [no_mocks\<lparr>mock_malloc_fail_countdown := 0\<rparr>, no_mocks\<lparr>mock_EVP_MD_CTX_new_fail := True\<rparr>,
      no_mocks\<lparr>mock_EVP_DigestVerifyInit_fail := True\<rparr>]"

definition test_mocked_failures :: "bool \<Rightarrow> 'k evp \<Rightarrow> addr \<Rightarrow> 'k world \<Rightarrow> (exit \<times> 'k world) option" where
  "test_mocked_failures required E key w = do {
     w \<leftarrow> higgaion_key_init (Some key) w;
     w \<leftarrow> generate_under (no_mocks\<lparr>mock_EVP_PKEY_keygen_init_fail := True\<rparr>) required E key w;
     w \<leftarrow> generate_under (no_mocks\<lparr>mock_EVP_PKEY_keygen_fail := True\<rparr>) required E key w;
     w \<leftarrow> generate_under no_mocks required E key w;
     field \<leftarrow> get_pkey key w;
     if field = None then Some (Abort 88, w)
     else do {
       (cells, w) \<leftarrow> sign_under sign_faults E key (Some None, Some 0) w;
       (cells, w) \<leftarrow> sign_under [no_mocks] E key cells w;
       (case cells of
          (Some (Some sig), Some sig_len) \<Rightarrow> do {
            w \<leftarrow> verify_under (verify_faults @ [no_mocks]) E key sig sig_len w;
            w \<leftarrow> free_block sig w;
            w \<leftarrow> higgaion_key_free (Some key) w;
            Some (Exit 0, leave_frame key w) }
        | _ \<Rightarrow> Some (Abort 126, w)) } }"

subsection \<open>Every injected failure is reported\<close>

lemma mock_inputs:
  "ds_readable (Some mock_msg) 10 (Some (literal ''domain''))"
  "ds_accepts (Some mock_msg) 10 (Some (literal ''domain''))"
  by (simp_all add: ds_readable_def ds_accepts_def domain_length_def domain_bytes_def cstr_def
      mock_msg_def literal_def bytes_of_def HIGGAION_DOMAIN_MAX_LEN_def)

lemma faults_refuse:
  assumes "m \<in> set sign_faults"
  shows "fst (sign_result (mocked m c E) c k msg t) = None"
  using assms
  by (auto simp: sign_faults_def sign_result_def sign_context_result_def no_mocks_def wrap_malloc_def
      wrap_md_ctx_new_def wrap_sign_init_def wrap_sign_size_def wrap_sign_exec_def case_prod_beta Let_def)

text \<open>A state in which \<open>key\<close> holds the object \<open>obj\<close> with material \<open>k\<close>, reached from \<open>w\<close>.\<close>

definition holding :: "addr \<Rightarrow> addr \<Rightarrow> 'k \<times> nat \<Rightarrow> 'k world \<Rightarrow> 'k world \<Rightarrow> bool" where
  "holding key obj mat w v \<longleftrightarrow> steady w v \<and> structs v = structs w \<and> structs w key = Some (Some obj)
     \<and> pkeys v obj = Some mat"

lemma sign_under_faults:
  assumes "sign_fits E" "set ms \<subseteq> set sign_faults" "holding key obj mat w v"
  shows "\<exists>n v'. sign_under ms E key (Some s0, Some l0) v = Some ((Some (if ms = [] then s0 else None), n), v')
    \<and> n \<noteq> None \<and> holding key obj mat w v'"
  using assms(2,3)
proof (induction ms arbitrary: s0 l0 v)
  case Nil
  then show ?case by simp
next
  case (Cons m ms)
  obtain k cnt where mat: "mat = (k, cnt)" by fastforce
  have v: "api_wf v" "structs v key = Some (Some obj)" "pkeys v obj = Some (k, cnt)"
    using Cons.prems(2) mat by (simp_all add: holding_def steady_def)
  let ?E = "mocked m (clock v) E"
  have "fst (sign_result ?E (clock v) k msg t) = None" for msg t
    by (rule faults_refuse) (use Cons.prems(1) in simp)
  from sign_refused [OF v(1) mocked_sign_fits [OF assms(1)] mock_inputs(1) v(2,3) this, of s0 l0]
  obtain n v1 where v1: "pqc_sign ?E (Some s0) (Some l0) (Some mock_msg) 10 (Some (literal ''domain''))
      (Some key) v = Some ((Some None, Some n), v1)"
    "steady v v1" "structs v1 = structs v" "pkeys v1 = pkeys v"
    by blast
  have "holding key obj mat w v1"
    using Cons.prems(2) v1(2-4) by (simp add: holding_def steady_def)
  from Cons.IH [OF _ this, of None n] Cons.prems(1) v1(1) show ?case by auto
qed

text \<open>A verification changes nothing, whatever fails.\<close>

lemma verify_under_same:
  assumes "api_wf v" "structs v key = Some (Some obj)" "heap v sg = Some blk" "unat n \<le> length blk" "n > 0"
  shows "\<exists>v'. verify_under ms E key sg n v = Some v' \<and> steady v v' \<and> structs v' = structs v"
  using assms(1-3)
proof (induction ms arbitrary: v)
  case Nil
  then show ?case by (simp add: steady_def)
next
  case (Cons m ms)
  have safe: "key_safe v" and n: "n \<noteq> 0" using Cons.prems(1) assms(5) by (auto simp: api_wf_def)
  obtain k cnt where k: "pkeys v obj = Some (k, cnt)" using key_safe_held [OF safe Cons.prems(2)] by blast
  obtain r v1 fs where v1: "pqc_verify (mocked m (clock v) E) (Some mock_msg) 10 (Some blk) n
      (Some (literal ''domain'')) (Some key) v = Some (r, v1)" "effect v v1 (heap v) fs (md_ctxs v)"
    using pqc_verify_effect [OF safe mock_inputs(1) Cons.prems(2) k assms(4) n, of "mocked m (clock v) E"]
    by blast
  have st: "steady v v1" and s: "structs v1 = structs v"
    using api_post_effect [OF Cons.prems(1) v1(2)] v1(2) by (simp_all add: steady_def api_post_def effect_def)
  have "api_wf v1" "structs v1 key = Some (Some obj)" "heap v1 sg = Some blk"
    using st s Cons.prems(2,3) by (simp_all add: steady_def)
  from Cons.IH [OF this] obtain v2 where v2: "verify_under ms E key sg n v1 = Some v2" "steady v1 v2"
    "structs v2 = structs v1" by blast
  have "steady v v2" using st v2(2) by (rule steady_trans)
  with v1(1) v2 s Cons.prems(3) show ?case by simp
qed

lemma generate_under_post:
  assumes "steady w v" "structs v = (structs w)(key \<mapsto> f)"
  obtains v' f' where "generate_under m required E key v = Some v'" "steady w v'"
    "structs v' = (structs w)(key \<mapsto> f')" "m = no_mocks \<Longrightarrow> serves E \<Longrightarrow> f' \<noteq> None"
proof -
  have v: "api_wf v" "structs v key = Some f" using assms by (simp_all add: steady_def)
  obtain v' f' where v': "generate_under m required E key v = Some v'" "steady v v'"
    "structs v' = (structs v)(key \<mapsto> f')"
    using generate_post [OF v, of required "Some (test_alg required)" "mocked m (clock v) E"] test_alg_allowed
    unfolding generate_under_def by blast
  moreover have "f' \<noteq> None" if m: "m = no_mocks" "serves E"
  proof -
    have "generate_keypair required E (Some key) (Some (test_alg required)) v = Some v'"
      using v'(1) m(1) by (simp add: generate_under_def mocked_none)
    from serves_generate [OF m(2) test_alg_allowed this] v'(3) show ?thesis by simp
  qed
  moreover have "structs v' = (structs w)(key \<mapsto> f')" using v'(3) assms(2) by simp
  ultimately show thesis using that steady_trans [OF assms(1)] by blast
qed

text \<open>The part of the test after the key has been made.\<close>

lemma mocked_calls:
  assumes "sign_fits E" "sig_correct E" "serves E" "api_wf w" "structs w key = Some (Some obj)"
  shows "\<exists>sg n c1 c2 w1 w2 w3 w4. sign_under sign_faults E key (Some None, Some 0) w = Some (c1, w1)
    \<and> fst c1 = Some None
    \<and> sign_under [no_mocks] E key c1 w1 = Some (c2, w2) \<and> c2 = (Some (Some sg), Some n)
    \<and> verify_under (verify_faults @ [no_mocks]) E key sg n w2 = Some w3
    \<and> free_block sg w3 = Some w4 \<and> steady w w4 \<and> structs w4 = structs w"
proof -
  have safe: "key_safe w" using assms(4) by (simp add: api_wf_def)
  obtain k cnt where k: "pkeys w obj = Some (k, cnt)" using key_safe_held [OF safe assms(5)] by blast
  then have "holding key obj (k, cnt) w w" using assms(4,5) by (simp add: holding_def steady_def)
  moreover have "sign_faults \<noteq> []" by (simp add: sign_faults_def)
  ultimately obtain l1 w1 where w1: "sign_under sign_faults E key (Some None, Some 0) w =
      Some ((Some None, Some l1), w1)" "holding key obj (k, cnt) w w1"
    using sign_under_faults [OF assms(1) subset_refl, of key obj "(k, cnt)" w w None 0] by auto
  have h: "api_wf w1" "structs w1 key = Some (Some obj)" "pkeys w1 obj = Some (k, cnt)" "steady w w1"
    "structs w1 = structs w"
    using w1(2) by (simp_all add: holding_def steady_def)
  obtain sg n w2 c' m rc out where w2: "pqc_sign E (Some None) (Some l1) (Some mock_msg) 10
      (Some (literal ''domain'')) (Some key) w1 = Some ((Some (Some sg), Some n), w2)"
    "api_wf w2" "slack w2 = slack w1" "structs w2 = structs w1" "pkeys w2 = pkeys w1"
    "heap w1 sg = None" "heap w2 = (heap w1)(sg \<mapsto> put_slice 0 out (replicate (unat m) 0))"
    "sign_exec E c' k (ds_encode (domain_bytes (Some (literal ''domain'')))
       (message_bytes (Some mock_msg) 10)) m = (rc, out, n)" "rc > 0" "out \<noteq> []" "unat n = length out"
    "length out \<le> unat m" "n > 0"
    using sign_served [OF h(1) assms(1-3) h(2,3) mock_inputs] .
  have "structs w2 key = Some (Some obj)" "heap w2 sg = Some (put_slice 0 out (replicate (unat m) 0))"
    "unat n \<le> length (put_slice 0 out (replicate (unat m) 0))"
    using w2(4,7,11,12) h(2) by simp_all
  from verify_under_same [OF w2(2) this w2(13), of "verify_faults @ [no_mocks]" E] obtain w3 where
    w3: "verify_under (verify_faults @ [no_mocks]) E key sg n w2 = Some w3" "steady w2 w3"
      "structs w3 = structs w2" by blast
  then obtain w4 where w4: "free_block sg w3 = Some w4" "api_wf w4" "heap w4 = heap w1" "slack w4 = slack w3"
    "structs w4 = structs w3"
    using free_post [OF _ w2(6), of w3] w2(7) by (auto simp: steady_def)
  have "steady w w4" "structs w4 = structs w"
    using w4 w3(2,3) w2(3,4) h(4,5) by (simp_all add: steady_def)
  moreover have "sign_under [no_mocks] E key (Some None, Some l1) w1 = Some ((Some (Some sg), Some n), w2)"
    using w2(1) by (simp add: mocked_none)
  ultimately show ?thesis using w1(1) w3(1) w4(1) by (intro exI conjI) (rule refl | assumption | simp)+
qed

text \<open>
  C34. The test with injected failures, over a library that serves every call that is not
  injected: each of the eleven failing calls is defined, the program passes its assertions and returns 0,
  and the memory is as before: nothing was leaked or freed twice on any of the error paths it takes, and no
  signature was made while a failure was injected (the next call would have overwritten its only pointer).
\<close>

theorem mocked_failures_leave_nothing:
  assumes "sign_fits E" "sig_correct E" "serves E" "api_wf w" "structs w key = None"
  shows "\<exists>w'. test_mocked_failures required E key w = Some (Exit 0, w') \<and> steady w w'
    \<and> structs w' = structs w"
proof -
  obtain w0 where w0: "higgaion_key_init (Some key) w = Some w0" "steady w w0"
    "structs w0 = (structs w)(key \<mapsto> None)"
    using init_post [OF assms(4,5)] by blast
  obtain w1 f1 where w1: "generate_under (no_mocks\<lparr>mock_EVP_PKEY_keygen_init_fail := True\<rparr>) required E key w0 =
      Some w1" "steady w w1" "structs w1 = (structs w)(key \<mapsto> f1)"
    by (rule generate_under_post [OF w0(2,3)])
  obtain w2 f2 where w2: "generate_under (no_mocks\<lparr>mock_EVP_PKEY_keygen_fail := True\<rparr>) required E key w1 =
      Some w2" "steady w w2" "structs w2 = (structs w)(key \<mapsto> f2)"
    by (rule generate_under_post [OF w1(2,3)])
  obtain w3 f3 where w3: "generate_under no_mocks required E key w2 = Some w3" "steady w w3"
    "structs w3 = (structs w)(key \<mapsto> f3)" "f3 \<noteq> None"
    by (rule generate_under_post [OF w2(2,3), of no_mocks required E]) (use assms(3) in blast)
  then obtain obj where held: "structs w3 key = Some (Some obj)" by auto
  have wf3: "api_wf w3" using w3(2) by (simp add: steady_def)
  obtain sg n c1 w4 w5 w6 w7 where calls:
    "sign_under sign_faults E key (Some None, Some 0) w3 = Some (c1, w4)"
    "sign_under [no_mocks] E key c1 w4 = Some ((Some (Some sg), Some n), w5)"
    "verify_under (verify_faults @ [no_mocks]) E key sg n w5 = Some w6"
    "free_block sg w6 = Some w7" "steady w3 w7" "structs w7 = structs w3"
    using mocked_calls [OF assms(1-3) wf3 held] by blast
  have "api_wf w7" "structs w7 key = Some (Some obj)" using calls(5,6) held by (simp_all add: steady_def)
  from free_key_post [OF this] obtain w8 where w8: "higgaion_key_free (Some key) w7 = Some w8"
    "steady w7 w8" "structs w8 = (structs w7)(key \<mapsto> None)" by blast
  have "test_mocked_failures required E key w = Some (Exit 0, leave_frame key w8)"
    using w0(1) w1(1) w2(1) w3(1) held calls(1-4) w8(1)
    by (simp add: test_mocked_failures_def get_pkey_def del: sign_under.simps verify_under.simps)
  moreover have "steady w w8" using w3(2) calls(5) w8(2) steady_trans by metis
  moreover have "structs w8 = (structs w)(key \<mapsto> None)" using w8(3) calls(6) w3(3) by simp
  ultimately show ?thesis using leave_empty [OF _ _ assms(5), of w8] by simp
qed

lemma mocked_failures_leave_nothing_witness:
  "\<exists>w'. test_mocked_failures True ideal_evp 12 signing_world = Some (Exit 0, w')
    \<and> heap w' = Map.empty \<and> structs w' = structs signing_world"
  using mocked_failures_leave_nothing [OF ideal_sign_fits ideal_sig_correct ideal_serves signing_world_wf
      fresh_slot, of True]
  by (auto simp: steady_def)

end
