(* ===== verification/Spec2Isabelle.thy ===== *)
theory Spec2Isabelle
  imports DomainSep KeyLifecycle SignVerify Utilities LegacyCrypto EraseDurable Api KeyRing ErrorQueue
    WalRecord Migration Gateway Ledger Governance Consensus Utxo Bridge CryptoModel Lifecycles Limits
    ReserveRatio Capacities EvaHarness CbmcStubs WpContracts EntryPoints MockTest
begin

text \<open>
  A verification development for higgaion-core-crypto.

  The repository holds one C library and the verification sources of a larger system. The library
  (\<open>src/pqc_crypto.c\<close> with \<open>include/higgaion/*.h\<close>) wraps OpenSSL's
  libcrypto: it generates and shares post-quantum keys, signs and verifies messages under a domain
  tag, hashes, and destroys keys with a crash marker. \<open>pqc_crypto.c\<close> at the root is an
  older copy of it. The files under \<open>verification/cbmc\<close> and
  \<open>verification/framac\<close> carry the logic of the modules around the library (log records
  and states of the key migration, a request filter, ledger, governance, consensus, outputs, bridge,
  compliance), as functions with harnesses or contracts. Both are modelled, function by function;
  nothing else of those modules is in the repository.

  \<^bold>\<open>Conventions.\<close> Integers have the width of the code (\<open>u32\<close>,
  \<open>u64\<close>, \<open>byte\<close>) and wrap. A value of option type is a C computation that
  may be undefined: \<open>None\<close> is undefined behaviour (a read or write outside a block, a
  freed block, a dead struct), so a theorem of the form "\<open>f x = Some y\<close> for some
  \<open>y\<close>" states both that the code is defined and what it returns. A pointer argument of
  the library is an option too, \<open>None\<close> for NULL. What OpenSSL, the allocator and the
  system calls answer is a parameter: the record \<open>evp\<close> has one function per external
  call, indexed by a clock, so a theorem about every environment covers every pattern of failures,
  and the record \<open>os\<close> does this for the system calls of the eraser. What a theorem
  needs of them is a hypothesis with a name (\<open>sign_fits\<close>, \<open>sig_correct\<close>,
  \<open>digests_fit\<close>); each is met by a concrete environment in the witness of the theorem
  that assumes it. Unforgeability is not assumed of the library but of one run
  (\<open>unforged\<close>), read off the list of signature calls that the state keeps as a ghost.

  \<^bold>\<open>The library.\<close>

  \<^item> \<open>Prelude\<close> and \<open>Runtime\<close>: C types, strings, byte order, the
    codec and state-machine locales; the state of the run (heap, structs, reference-counted keys,
    contexts, error queue, log, the signature calls made) and the external calls;
    \<open>log_message\<close> and \<open>log_openssl_error\<close> of \<open>pqc_log.h\<close> and
    \<open>pqc_crypto.c\<close>.
  \<^item> \<open>ErrorQueue\<close>: the loop of \<open>log_openssl_error\<close> as it is written,
    over any source of errors. It returns exactly if the source runs dry, and OpenSSL's queue does.
  \<^item> \<open>DomainSep\<close>: \<open>build_domain_separated_message\<close>. The bytes, the
    overflow checks and the error paths are exact, and the encoding of a (domain, message) pair is
    injective.
  \<^item> \<open>KeyLifecycle\<close>: the algorithm allowlist, \<open>generate_keypair\<close>,
    \<open>higgaion_key_init\<close>, \<open>_free\<close> and \<open>_up_ref\<close>. The invariant
    \<open>key_safe\<close> (references never fewer than owners) holds after any sequence of calls;
    \<open>slack\<close> measures what leaks.
  \<^item> \<open>SignVerify\<close>: \<open>pqc_sign\<close> and \<open>pqc_verify\<close>. They
    refine the result functions \<open>sign_result\<close> and \<open>verify_result\<close>, wipe
    and free the scratch block on every path, and make a round trip.
  \<^item> \<open>Authenticity\<close>: which byte strings the two functions have signed and
    checked, and under which key: at most one a call, the encoding of its (domain, message) pair;
    and the forgery game.
  \<^item> \<open>EraseDurable\<close>: \<open>higgaion_key_erase_durable\<close> with its file
    events. A crash is a prefix of them from which a power failure may have dropped any write or
    rename that no later \<open>fsync\<close> covers (\<open>survivors\<close>); an
    \<open>fsync\<close> that was called is taken to have worked, though the code ignores its
    result.
  \<^item> \<open>Utilities\<close>: \<open>hig_error_str\<close>, \<open>secure_zero\<close>,
    \<open>hash\<close> and the constants of \<open>pqc_types.h\<close>.
  \<^item> \<open>Api\<close>: the eight operations with effects as one machine. Every session
    within the contract of the header is defined, keeps the invariant and accounts for every live
    block; a client that gives back what it was given leaves nothing behind; and, in a run in which
    no accepted string was forged, a session verifies only (domain, message) pairs for which it made
    a signature with the same key.
  \<^item> \<open>KeyRing\<close>: the same interface refines a ring in which every struct has a key
    of its own: sharing through \<open>higgaion_key_up_ref\<close> cannot be observed, and no call
    changes the key of a struct it was not made on.
  \<^item> \<open>LegacyCrypto\<close>: the older module; it signs the bare concatenation of domain
    and message, so domains can be confused, and regenerating a key leaks the old one.

  \<^item> \<open>TestPrograms\<close> and \<open>MockTest\<close>: four programs of
    \<open>tests\<close> as clients of the library, \<open>fuzz_target.c\<close>,
    \<open>test_domain_separation.c\<close>, \<open>test_pqc_crypto.c\<close> and
    \<open>test_pqc_mock.c\<close>, with their exit codes and failed assertions: when they pass,
    what they leave allocated, and what they need of the signature scheme. The linker wrappers of
    the last one transform the library \<open>E\<close> (\<open>mocked\<close>).

  \<^bold>\<open>The key migration.\<close>

  \<^item> \<open>WalRecord\<close>: the packed log record, its checksum, the hexadecimal codec, the
    bucket hash and validators of \<open>cbmc_pqc_migration.c\<close>,
    \<open>cbmc_pqc_migration_actual.c\<close> and \<open>wp_pqc_wal.c\<close>.
  \<^item> \<open>Migration\<close>: the transition relation and guards of these files and of
    \<open>wp_pqc_migration.c\<close>, refined from a machine over four phases; PQC_ONLY is reached
    by begin and finalize only and left by an import only; how far it is from each state; and the
    fixed sequence of finalization steps, in which the classical key is erased before the log says
    so.
  \<^item> \<open>EvaHarness\<close> and \<open>CbmcStubs\<close>: the stubs, types and entry point
    of \<open>eva_pqc_migration.c\<close> and the stubs of
    \<open>cbmc_pqc_migration_actual.c\<close>, compared with the functions they stand for:
    verification is never rejected under them, and two log formats are in use.

  \<^bold>\<open>The surrounding modules.\<close>

  \<^item> \<open>Gateway\<close>: the request filter in its three versions
    (\<open>eva_gateway.c\<close>, \<open>wp_gateway.c\<close>, \<open>cbmc_gateway.c\<close>).
  \<^item> \<open>Ledger\<close>, \<open>Utxo\<close>, \<open>Governance\<close>,
    \<open>Consensus\<close>, \<open>Bridge\<close>: checked arithmetic and transfers over a store
    (aliasing included), outputs, votes, quorums and leaders, transfer identifiers
    (\<open>cbmc_overflow.c\<close>, \<open>wp_token_ledger.c\<close>, \<open>cbmc_utxo.c\<close>,
    \<open>wp_utxo.c\<close>, \<open>wp_governance.c\<close>, \<open>cbmc_consensus.c\<close>,
    \<open>wp_consensus.c\<close>, \<open>cbmc_bridge_bounds.c\<close>).
  \<^item> \<open>CryptoModel\<close>: constant-time comparison with the offsets it reads, wiping,
    parameters (\<open>cbmc_crypto.c\<close>).
  \<^item> \<open>Lifecycles\<close>, \<open>Limits\<close>, \<open>Capacities\<close>,
    \<open>ReserveRatio\<close>: status machines, buffers, filters and capacities of
    \<open>cbmc_did_vc.c\<close>, \<open>cbmc_disaster_recovery.c\<close>,
    \<open>cbmc_mica_dora.c\<close>, \<open>cbmc_siem_export.c\<close> and
    \<open>cbmc_confidential_contracts.c\<close>; the reserve ratio with IEEE 754 rounding to 53
    bits.

  \<^bold>\<open>The checks themselves.\<close> The files under \<open>verification\<close> are
  programs for three analysers, and what they ask of the analyser is modelled with them.

  \<^item> \<open>Cbmc\<close> and \<open>EntryPoints\<close>: a harness is, for given values of its
    nondeterministic inputs, the list of its assumptions and assertions in the order they are
    reached, with the verdict of a run; \<open>verified\<close> means no values make an assertion
    fail, \<open>vacuous\<close> that no run comes to the end. The entry points
    (\<open>main\<close>, \<open>harness_all\<close>) run the harnesses in order: of the eleven in
    files that compile eight are verified, three are not, none is vacuous. The two migration files
    can also run alone, on \<open>rand()\<close>.
  \<^item> \<open>Acsl\<close>, \<open>WpLedger\<close>, \<open>WpMigration\<close>,
    \<open>WpContracts\<close>: the ACSL contracts of the \<open>wp_*.c\<close> files, clause by
    clause (precondition, frame, behaviours, completeness, disjointness, over mathematical
    integers), and which functions meet them: in the four files that compile, besides the gateway,
    all but \<open>utxo_mark_spent_safe\<close>. A function that calls another is verified from the
    contract of its callee, in a locale over it. The contract of the refusal in
    \<open>wp_gateway.c\<close> is not met; where it fails is exact.

  \<^bold>\<open>Files that do not compile.\<close> In six files a comment that begins with
  \<open>src/pqc_crypto.c\<close> is not closed on its line. It swallows declarations that
  \<open>cbmc_utxo.c\<close> (the error codes), \<open>cbmc_pqc_migration_actual.c\<close> (the
  record, \<open>hex_nibble\<close>, \<open>hash_key_id\<close>, \<open>wal_crc32\<close>),
  \<open>wp_pqc_migration.c\<close> and \<open>wp_pqc_wal.c\<close> (the \<open>MIGRATION_\<close>
  macros) use, so these four do not compile; the contract of \<open>get_leader_for_view\<close> in
  \<open>wp_consensus.c\<close> is lost; in \<open>cbmc_pqc_migration.c\<close> it does no harm. The
  functions of the four files are modelled as written, with the declarations taken from files where
  they are active (\<open>wp_pqc_wal.c\<close>, \<open>wp_token_ledger.c\<close>,
  \<open>cbmc_pqc_migration.c\<close>); what the analysers would say of the files as a whole once
  the comments are closed is in \<open>restored_entry_points\<close> and
  \<open>restored_migration_contracts\<close>, apart from the verdicts on the files that compile.

  Loops over bounded data are structural recursions or carry a measure; no fuel is used. The one
  loop whose bound is not in the code is the draining of the error queue, a
  \<open>partial_function\<close> whose termination is a theorem.

  \<^bold>\<open>Not modelled.\<close> OpenSSL, libc and the file system below \<open>write\<close>,
  \<open>fsync\<close> and \<open>rename\<close> (parameters, and the losses of a power failure).
  The migration engine \<open>pqc_migration.c\<close>, the real ledger, gateway, governance and
  bridge: their sources are not in the repository; the engine is a parameter of the Eva entry point.
  Threads: the library has no shared state of its own. Compiler effects and timing: the comparison
  is analysed through the offsets it reads. Macros and enumerations that no modelled function uses.
  Of the tests, \<open>test_pqc_coverage.c\<close>, a list of single calls with fixed arguments. The
  bindings for Python, Rust and Go, the Coq and TLA+ models, build files, deployment manifests and
  scripts are not C code of the program or hold no logic of their own.
\<close>

end
